(* ===== verification/Prelude.thy ===== *)
theory Prelude
  imports Main "HOL-Library.Word"
begin

text \<open>
  Shared vocabulary of the Foxtail model: the C integer types of
  \<^verbatim>\<open>kernel/include/util.h\<close>, flat byte memories, the result type of kernel code (every
  panic, null dereference, out-of-bounds access and endless loop of the source is a value),
  bounds-checked array access, and the generic lemmas on words, lists and memory ranges that the
  component theories use. The collection \<open>kres_simps\<close> rewrites statements about
  the success of a sequence of kernel operations into statements about its steps;
  \<open>wf_defs\<close> collects the unfoldings of the component invariants.
\<close>

unbundle bit_operations_syntax

named_theorems kres_simps "when a sequence of fallible kernel operations succeeds"
named_theorems wf_defs "definitions of the component invariants"

section \<open>C integers\<close>

type_synonym u8 = "8 word"
type_synonym u16 = "16 word"
type_synonym u32 = "32 word"

type_synonym mem = "u32 \<Rightarrow> u8"

text \<open>The bytes of a string literal, without the terminating NUL.\<close>

definition bytes_of :: "string \<Rightarrow> u8 list" where
  "bytes_of cs = map of_char cs"

section \<open>Results of kernel code\<close>

text \<open>
  \<open>Panic\<close> is a call of \<^verbatim>\<open>panic\<close>; \<open>NullDeref\<close> a dereference of a null (or small integer)
  pointer; \<open>OutOfBounds\<close> an access outside the array or the half of the address space it is
  meant for, where the C program has no defined behaviour; \<open>Hang\<close> a loop that never ends.
\<close>

datatype kerr = Panic | NullDeref | OutOfBounds | Hang

type_synonym 'a kres = "kerr + 'a"

definition kbind :: "'a kres \<Rightarrow> ('a \<Rightarrow> 'b kres) \<Rightarrow> 'b kres" where
  "kbind m f = (case m of Inl e \<Rightarrow> Inl e | Inr x \<Rightarrow> f x)"

definition kget :: "'a list \<Rightarrow> nat \<Rightarrow> 'a kres" where
  "kget xs i = (if i < length xs then Inr (xs ! i) else Inl OutOfBounds)"

definition kset :: "'a list \<Rightarrow> nat \<Rightarrow> 'a \<Rightarrow> 'a list kres" where
  "kset xs i v = (if i < length xs then Inr (xs[i := v]) else Inl OutOfBounds)"

definition kderef :: "'a option \<Rightarrow> 'a kres" where
  "kderef p = (case p of None \<Rightarrow> Inl NullDeref | Some x \<Rightarrow> Inr x)"

definition kwait :: "'a option \<Rightarrow> 'a kres" where
  "kwait p = (case p of None \<Rightarrow> Inl Hang | Some x \<Rightarrow> Inr x)"

lemma kbind_simps [simp]:
  "kbind (Inl e) f = Inl e"
  "kbind (Inr x) f = f x"
  by (simp_all add: kbind_def)

lemma kbind_cong [fundef_cong]:
  "m = m' \<Longrightarrow> (\<And>x. m' = Inr x \<Longrightarrow> f x = f' x) \<Longrightarrow> kbind m f = kbind m' f'"
  by (cases m') (simp_all add: kbind_def)

lemma kbind_Inr_iff [kres_simps]:
  "kbind m f = Inr y \<longleftrightarrow> (\<exists>x. m = Inr x \<and> f x = Inr y)"
  by (cases m) (simp_all add: kbind_def)

lemma kbindE: "kbind m f = Inr y \<Longrightarrow> (\<And>x. m = Inr x \<Longrightarrow> f x = Inr y \<Longrightarrow> thesis) \<Longrightarrow> thesis"
  by (cases m) simp_all

lemma kbind_split:
  "P (kbind m f) \<longleftrightarrow> (\<forall>e. m = Inl e \<longrightarrow> P (Inl e)) \<and> (\<forall>x. m = Inr x \<longrightarrow> P (f x))"
  by (cases m) simp_all

lemma kget_Inr_iff [kres_simps]: "kget xs i = Inr x \<longleftrightarrow> i < length xs \<and> x = xs ! i"
  by (auto simp: kget_def)

lemma kset_Inr_iff [kres_simps]: "kset xs i v = Inr ys \<longleftrightarrow> i < length xs \<and> ys = xs[i := v]"
  by (auto simp: kset_def)

lemma kderef_Inr_iff [kres_simps]: "kderef p = Inr x \<longleftrightarrow> p = Some x"
  by (cases p) (simp_all add: kderef_def)

lemma kwait_Inr_iff [kres_simps]: "kwait p = Inr x \<longleftrightarrow> p = Some x"
  by (cases p) (simp_all add: kwait_def)

lemma kget_in [simp]: "i < length xs \<Longrightarrow> kget xs i = Inr (xs ! i)"
  by (simp add: kget_def)

lemma kset_in [simp]: "i < length xs \<Longrightarrow> kset xs i v = Inr (xs[i := v])"
  by (simp add: kset_def)

lemma kderef_simps [simp]: "kderef None = Inl NullDeref" "kderef (Some x) = Inr x"
  by (simp_all add: kderef_def)

lemma kwait_simps [simp]: "kwait None = Inl Hang" "kwait (Some x) = Inr x"
  by (simp_all add: kwait_def)

text \<open>A \<^verbatim>\<open>for\<close> loop over the elements of a list, threading a state through a fallible body.\<close>

fun kfold :: "('a \<Rightarrow> 's \<Rightarrow> 's kres) \<Rightarrow> 'a list \<Rightarrow> 's \<Rightarrow> 's kres" where
  "kfold f [] s = Inr s"
| "kfold f (x # xs) s = kbind (f x s) (kfold f xs)"

lemma kfold_append: "kfold f (xs @ ys) s = kbind (kfold f xs s) (kfold f ys)"
  by (induction xs arbitrary: s) (auto simp: kbind_def split: sum.splits)

lemma kfold_invariant:
  assumes "kfold f xs s = Inr s'" "P s"
    and "\<And>x t t'. x \<in> set xs \<Longrightarrow> P t \<Longrightarrow> f x t = Inr t' \<Longrightarrow> P t'"
  shows "P s'"
  using assms
proof (induction xs arbitrary: s)
  case Nil
  then show ?case by simp
next
  case (Cons x xs)
  then obtain t where t: "f x s = Inr t" "kfold f xs t = Inr s'" by (auto simp: kres_simps)
  with Cons.prems have "P t" by auto
  with t Cons show ?case by auto
qed

lemma kfold_total:
  assumes "\<And>x t. x \<in> set xs \<Longrightarrow> f x t = Inr (g x t)"
  shows "kfold f xs s = Inr (fold g xs s)"
  using assms by (induction xs arbitrary: s) auto

text \<open>A fallible function on every element of a list, in order.\<close>

fun kmap :: "('a \<Rightarrow> 'b kres) \<Rightarrow> 'a list \<Rightarrow> 'b list kres" where
  "kmap f [] = Inr []"
| "kmap f (x # xs) = kbind (f x) (\<lambda>y. kbind (kmap f xs) (\<lambda>ys. Inr (y # ys)))"

lemma kmap_cong [fundef_cong]: "xs = ys \<Longrightarrow> (\<And>x. x \<in> set ys \<Longrightarrow> f x = g x) \<Longrightarrow> kmap f xs = kmap g ys"
  by (induction ys arbitrary: xs) auto

section \<open>Ranges of a byte memory\<close>

text \<open>
  \<open>upd_range m p n f\<close> is memory \<open>m\<close> with the \<open>n\<close> bytes from address \<open>p\<close> replaced by
  \<open>f 0, \<dots>, f (n - 1)\<close>; addresses wrap around at \<open>2 ^ 32\<close>, as C pointers do.
\<close>

definition upd_range :: "mem \<Rightarrow> u32 \<Rightarrow> nat \<Rightarrow> (nat \<Rightarrow> u8) \<Rightarrow> mem" where
  "upd_range m p n f = (\<lambda>a. if unat (a - p) < n then f (unat (a - p)) else m a)"

lemma unat_of_nat32 [simp]: "n < 4294967296 \<Longrightarrow> unat (of_nat n :: u32) = n"
  by (simp add: unat_of_nat take_bit_eq_mod)

lemma u32_bound [simp]: "unat (x :: u32) < 4294967296"
  using unsigned_less [of x, where 'a = nat] by simp

lemma unat_sub_le: "unat b \<le> unat a \<Longrightarrow> unat (a - b :: u32) = unat a - unat b"
  by (simp add: unat_sub word_le_nat_alt)

lemma unat_add_le: "unat a + unat b \<le> unat (c :: u32) \<Longrightarrow> unat (a + b :: u32) = unat a + unat b"
  using u32_bound [of c] by (simp add: unat_word_ariths del: u32_bound)

lemma upd_range_0 [simp]: "upd_range m p 0 f = m"
  by (simp add: upd_range_def)

lemma upd_range_at:
  "i < n \<Longrightarrow> n \<le> 4294967296 \<Longrightarrow> upd_range m p n f (p + of_nat i) = f i"
  by (simp add: upd_range_def)

lemma upd_range_notin: "n \<le> unat (a - p) \<Longrightarrow> upd_range m p n f a = m a"
  by (simp add: upd_range_def)

lemma upd_range_cong:
  "(\<And>i. i < n \<Longrightarrow> f i = g i) \<Longrightarrow> upd_range m p n f = upd_range m p n g"
  by (simp add: upd_range_def fun_eq_iff)

lemma unat_diff_add:
  fixes a p :: u32
  assumes "k \<le> 4294967296" "n + k \<le> 4294967296"
  shows "unat (a - (p + of_nat n)) < k \<longleftrightarrow> n \<le> unat (a - p) \<and> unat (a - p) < n + k"
    (is "?l \<longleftrightarrow> ?r")
    and "n \<le> unat (a - p) \<Longrightarrow> unat (a - (p + of_nat n)) = unat (a - p) - n"
proof -
  let ?d = "a - p"
  have eq: "a - (p + of_nat n) = ?d - of_nat n" by simp
  have big: "n \<le> unat ?d \<Longrightarrow> unat (?d - of_nat n) = unat ?d - n"
    by (metis (no_types, lifting) le_unat_uoi unat_sub word_le_nat_alt)
  have small: "unat ?d < n \<Longrightarrow> \<not> unat (?d - of_nat n) < k"
  proof
    assume lt: "unat ?d < n" and k: "unat (?d - of_nat n) < k"
    have "n \<noteq> 4294967296 \<or> k = 0" using assms by auto
    with k have n: "n < 4294967296" using assms by auto
    have "unat ?d = unat ((?d - of_nat n) + of_nat n)" by simp
    also have "\<dots> = (unat (?d - of_nat n) + n) mod 4294967296"
      using n unat_word_ariths(1) [of "?d - of_nat n" "of_nat n"] by simp
    also have "\<dots> = unat (?d - of_nat n) + n" using k assms by simp
    finally show False using lt by simp
  qed
  show "?l \<longleftrightarrow> ?r"
    using big small assms unfolding eq by (cases "n \<le> unat ?d") auto
  show "n \<le> unat ?d \<Longrightarrow> unat (a - (p + of_nat n)) = unat ?d - n"
    unfolding eq by (rule big)
qed

lemma upd_range_append:
  assumes "n + k \<le> 4294967296"
  shows "upd_range (upd_range m p n f) (p + of_nat n) k g =
    upd_range m p (n + k) (\<lambda>i. if i < n then f i else g (i - n))"
  using assms unat_diff_add(1) [of k n] unat_diff_add(2) [of k n]
  by (auto simp: upd_range_def fun_eq_iff)

lemma upd_range_prepend:
  assumes "n + k \<le> 4294967296"
  shows "upd_range (upd_range m (p + of_nat n) k g) p n f =
    upd_range m p (n + k) (\<lambda>i. if i < n then f i else g (i - n))"
  using assms unat_diff_add(1) [of k n] unat_diff_add(2) [of k n]
  by (auto simp: upd_range_def fun_eq_iff)

end
