(* ===== verification/KString.thy ===== *)
theory KString
  imports Prelude
begin

text \<open>
  The string and memory routines of \<^verbatim>\<open>kernel/src/kstring.c\<close> and the arithmetic helpers of
  \<^verbatim>\<open>kernel/src/util.c\<close>, over a flat byte memory indexed by 32-bit addresses. Loops that scan
  for a NUL byte may run forever, so they are \<open>option\<close>-valued; loops driven by a size are total.
  The lemmas relate them to strings as byte lists (\<open>cstr\<close>, \<open>str_cmp\<close>), which is how the
  other theories represent the contents of names and paths, and show that \<open>memmove\<close> copies
  correctly when its ranges overlap.
\<close>

section \<open>Definitions\<close>

definition umin :: "u32 \<Rightarrow> u32 \<Rightarrow> u32" where
  "umin a b = (if a < b then a else b)"

definition umax :: "u32 \<Rightarrow> u32 \<Rightarrow> u32" where
  "umax a b = (if b < a then a else b)"

partial_function (option) strlen_loop :: "mem \<Rightarrow> u32 \<Rightarrow> u32 \<Rightarrow> u32 option" where
  "strlen_loop m str len = (if m (str + len) \<noteq> 0 then strlen_loop m str (len + 1) else Some len)"

definition strlen :: "mem \<Rightarrow> u32 \<Rightarrow> u32 option" where
  "strlen m str = strlen_loop m str 0"

partial_function (option) strcmp_loop :: "mem \<Rightarrow> u32 \<Rightarrow> u32 \<Rightarrow> u32 \<Rightarrow> u32 option" where
  "strcmp_loop m a b i =
     (if m (a + i) = 0 \<or> m (b + i) = 0
      then (if m (a + i) = 0 \<and> m (b + i) = 0 then Some 0 else Some 1)
      else if m (a + i) \<noteq> m (b + i) then Some 1
      else strcmp_loop m a b (i + 1))"

definition strcmp :: "mem \<Rightarrow> u32 \<Rightarrow> u32 \<Rightarrow> u32 option" where
  "strcmp m a b = strcmp_loop m a b 0"

partial_function (option) strcpy_loop :: "mem \<Rightarrow> u32 \<Rightarrow> u32 \<Rightarrow> u32 \<Rightarrow> (u32 \<times> mem) option" where
  "strcpy_loop m dst src i =
     (let m' = m(dst + i := m (src + i))
      in if m' (src + i) = 0 then Some (i, m') else strcpy_loop m' dst src (i + 1))"

definition strcpy :: "mem \<Rightarrow> u32 \<Rightarrow> u32 \<Rightarrow> (u32 \<times> mem) option" where
  "strcpy m dst src = (if dst = 0 \<or> src = 0 then Some (0, m) else strcpy_loop m dst src 0)"

fun memcpy_loop :: "nat \<Rightarrow> mem \<Rightarrow> u32 \<Rightarrow> u32 \<Rightarrow> mem" where
  "memcpy_loop 0 m dst src = m"
| "memcpy_loop (Suc n) m dst src = memcpy_loop n (m(dst := m src)) (dst + 1) (src + 1)"

definition memcpy :: "mem \<Rightarrow> u32 \<Rightarrow> u32 \<Rightarrow> u32 \<Rightarrow> mem" where
  "memcpy m dst src sz = memcpy_loop (unat sz) m dst src"

fun memset_loop :: "nat \<Rightarrow> mem \<Rightarrow> u32 \<Rightarrow> u8 \<Rightarrow> mem" where
  "memset_loop 0 m dst val = m"
| "memset_loop (Suc n) m dst val = memset_loop n (m(dst := val)) (dst + 1) val"

definition memset :: "mem \<Rightarrow> u32 \<Rightarrow> u8 \<Rightarrow> u32 \<Rightarrow> mem" where
  "memset m dst val sz = memset_loop (unat sz) m dst val"

function memmove_fwd :: "mem \<Rightarrow> u32 \<Rightarrow> u32 \<Rightarrow> nat \<Rightarrow> nat \<Rightarrow> mem" where
  "memmove_fwd m d s i n =
     (if i < n then memmove_fwd (m(d + of_nat i := m (s + of_nat i))) d s (Suc i) n else m)"
  by pat_completeness auto
termination
  by (relation "measure (\<lambda>(m, d, s, i, n). n - i)") auto

declare memmove_fwd.simps [simp del]

fun memmove_bwd :: "mem \<Rightarrow> u32 \<Rightarrow> u32 \<Rightarrow> nat \<Rightarrow> mem" where
  "memmove_bwd m d s 0 = m"
| "memmove_bwd m d s (Suc i) = memmove_bwd (m(d + of_nat i := m (s + of_nat i))) d s i"

definition memmove :: "mem \<Rightarrow> u32 \<Rightarrow> u32 \<Rightarrow> u32 \<Rightarrow> mem" where
  "memmove m d s n =
     (if d = s \<or> n = 0 then m
      else if d < s then memmove_fwd m d s 0 (unat n)
      else memmove_bwd m d s (unat n))"

text \<open>The string at an address, as the bytes before its NUL; \<open>None\<close> when there is none.\<close>

partial_function (option) cstr :: "mem \<Rightarrow> u32 \<Rightarrow> u8 list option" where
  "cstr m p = (if m p = 0 then Some [] else Option.bind (cstr m (p + 1)) (\<lambda>s. Some (m p # s)))"

text \<open>\<open>strcmp\<close> on the contents of two strings.\<close>

fun str_cmp :: "u8 list \<Rightarrow> u8 list \<Rightarrow> u32" where
  "str_cmp [] [] = 0"
| "str_cmp [] (b # bs) = 1"
| "str_cmp (a # as) [] = 1"
| "str_cmp (a # as) (b # bs) = (if a \<noteq> b then 1 else str_cmp as bs)"

section \<open>Minimum and maximum\<close>

lemma unat_umin [simp]: "unat (umin a b) = min (unat a) (unat b)"
  by (simp add: umin_def word_less_nat_alt)

lemma unat_umax [simp]: "unat (umax a b) = max (unat a) (unat b)"
  by (simp add: umax_def word_less_nat_alt)

section \<open>Strings in memory\<close>

lemma str_cmp_eq_0 [simp]: "str_cmp a b = 0 \<longleftrightarrow> a = b"
  by (induction a b rule: str_cmp.induct) auto

text \<open>\<open>str_at m p s\<close>: the NUL-terminated string at \<open>p\<close> has the bytes \<open>s\<close>.\<close>

fun str_at :: "mem \<Rightarrow> u32 \<Rightarrow> u8 list \<Rightarrow> bool" where
  "str_at m p [] \<longleftrightarrow> m p = 0"
| "str_at m p (c # cs) \<longleftrightarrow> m p = c \<and> c \<noteq> 0 \<and> str_at m (p + 1) cs"

lemma cstr_str_at: "str_at m p s \<Longrightarrow> cstr m p = Some s"
  by (induction s arbitrary: p) (auto simp: cstr.simps)

lemma str_at_cstr: "cstr m p = Some s \<Longrightarrow> str_at m p s"
proof (induction s arbitrary: p)
  case Nil
  then show ?case by (subst (asm) cstr.simps) (auto split: if_splits bind_splits)
next
  case (Cons c cs)
  from Cons.prems show ?case
    by (subst (asm) cstr.simps) (auto split: if_splits bind_splits intro: Cons.IH)
qed

lemma cstr_Some_iff: "cstr m p = Some s \<longleftrightarrow> str_at m p s"
  using cstr_str_at str_at_cstr by blast

lemma str_at_nonzero: "str_at m p s \<Longrightarrow> 0 \<notin> set s"
  by (induction s arbitrary: p) auto

lemma str_at_nth:
  "str_at m p s \<longleftrightarrow> (\<forall>i < length s. m (p + of_nat i) = s ! i \<and> s ! i \<noteq> 0) \<and> m (p + of_nat (length s)) = 0"
proof (induction s arbitrary: p)
  case Nil
  then show ?case by simp
next
  case (Cons c cs)
  then show ?case by (auto simp: All_less_Suc2 add.assoc)
qed

lemma strlen_loop_str_at: "str_at m (str + len) s \<Longrightarrow> strlen_loop m str len = Some (len + of_nat (length s))"
proof (induction s arbitrary: len)
  case Nil
  then show ?case by (subst strlen_loop.simps) simp
next
  case (Cons c cs)
  from Cons.prems have "strlen_loop m str (len + 1) = Some (len + 1 + of_nat (length cs))"
    by (intro Cons.IH) (simp add: add.assoc)
  with Cons.prems show ?case by (subst strlen_loop.simps) (simp add: add.assoc)
qed

lemma strlen_str_at: "str_at m p s \<Longrightarrow> strlen m p = Some (of_nat (length s))"
  using strlen_loop_str_at [of m p 0 s] by (simp add: strlen_def)

lemma strcmp_loop_str_at:
  "str_at m (a + i) s \<Longrightarrow> str_at m (b + i) t \<Longrightarrow> strcmp_loop m a b i = Some (str_cmp s t)"
proof (induction s t arbitrary: i rule: str_cmp.induct)
  case (4 x s y t)
  show ?case
  proof (cases "x = y")
    case True
    with 4 have "strcmp_loop m a b (i + 1) = Some (str_cmp s t)"
      by (intro "4.IH") (simp_all add: add.assoc)
    with 4 True show ?thesis by (subst strcmp_loop.simps) simp
  qed (use 4 in \<open>subst strcmp_loop.simps, simp\<close>)
qed (subst strcmp_loop.simps, simp)+

lemma strcmp_str_at: "str_at m a s \<Longrightarrow> str_at m b t \<Longrightarrow> strcmp m a b = Some (str_cmp s t)"
  using strcmp_loop_str_at [of m a 0 s b t] by (simp add: strcmp_def)

section \<open>Copying\<close>

lemma unat_diff_eq_iff:
  fixes a p :: u32
  assumes "n < 4294967296"
  shows "a = p + of_nat n \<longleftrightarrow> unat (a - p) = n"
proof
  assume "unat (a - p) = n"
  then have "a - p = of_nat n" by auto
  then show "a = p + of_nat n" by (simp add: algebra_simps)
qed (use assms in simp)

lemma upd_range_Suc:
  assumes "Suc n \<le> 4294967296"
  shows "(upd_range m p n f)(p + of_nat n := v) = upd_range m p (Suc n) (\<lambda>i. if i < n then f i else v)"
  using assms unat_diff_eq_iff [of n] by (auto simp: upd_range_def fun_eq_iff less_Suc_eq)

lemma upd_range_Cons:
  assumes "Suc n \<le> 4294967296"
  shows "upd_range (m(p := f 0)) (p + 1) n (\<lambda>k. f (Suc k)) = upd_range m p (Suc n) f"
  using assms upd_range_Suc [of 0 m p "\<lambda>_. f 0" "f 0"] upd_range_append [of 1 n m p "\<lambda>_. f 0" "\<lambda>k. f (Suc k)"]
  by (auto intro!: upd_range_cong)

lemma unat_range_diff:
  fixes s d :: u32
  assumes "d < s" "unat s + n \<le> 4294967296" "i \<le> j" "j < n"
  shows "i \<le> unat (s + of_nat j - d)"
proof -
  have j: "unat (s + of_nat j) = unat s + j"
    using assms by (simp add: unat_word_ariths)
  have "unat (s + of_nat j - d) = unat s + j - unat d"
    using assms j by (subst unat_sub) (auto simp: word_le_nat_alt word_less_nat_alt)
  then show ?thesis using assms by (simp add: word_less_nat_alt)
qed

lemma memmove_fwd_correct:
  assumes "d < s" "unat s + n \<le> 4294967296" "i \<le> n"
  shows "memmove_fwd (upd_range m d i (\<lambda>j. m (s + of_nat j))) d s i n
    = upd_range m d n (\<lambda>j. m (s + of_nat j))"
  using assms(3)
proof (induction "n - i" arbitrary: i)
  case 0
  then show ?case by (subst memmove_fwd.simps) simp
next
  case (Suc k)
  then have i: "i < n" by simp
  let ?m = "upd_range m d i (\<lambda>j. m (s + of_nat j))"
  have "?m (s + of_nat i) = m (s + of_nat i)"
    using assms i by (intro upd_range_notin unat_range_diff [where n = n]) auto
  then have "?m(d + of_nat i := ?m (s + of_nat i)) = upd_range m d (Suc i) (\<lambda>j. m (s + of_nat j))"
    using assms i by (subst upd_range_Suc) (auto intro!: upd_range_cong simp: less_Suc_eq)
  with i Suc show ?case by (subst memmove_fwd.simps) simp
qed

text \<open>The backward loop overwrites from the end, so it is stated on the bytes not yet copied.\<close>

lemma memmove_bwd_at:
  assumes "s < d" "unat d + n \<le> 4294967296" "i \<le> n"
  shows "memmove_bwd m d s i = upd_range m d i (\<lambda>j. m (s + of_nat j))"
  using assms(3)
proof (induction i arbitrary: m)
  case 0
  then show ?case by simp
next
  case (Suc i)
  let ?m = "m(d + of_nat i := m (s + of_nat i))"
  have src: "?m (s + of_nat j) = m (s + of_nat j)" if "j < i" for j
  proof -
    have "unat (s + of_nat j) = unat s + j" "unat (d + of_nat i) = unat d + i"
      using assms Suc.prems that by (simp_all add: unat_word_ariths word_less_nat_alt)
    then have "s + of_nat j \<noteq> d + of_nat i"
      using assms(1) that by (metis add_less_mono less_irrefl word_less_nat_alt)
    then show ?thesis by simp
  qed
  have "memmove_bwd m d s (Suc i) = upd_range ?m d i (\<lambda>j. m (s + of_nat j))"
    using Suc src by (simp cong: upd_range_cong)
  also have "\<dots> = upd_range m d (Suc i) (\<lambda>j. m (s + of_nat j))"
  proof -
    have *: "a = d + of_nat i \<longleftrightarrow> unat (a - d) = i" for a
      using Suc.prems assms by (intro unat_diff_eq_iff) simp
    show ?thesis by (auto simp: upd_range_def fun_eq_iff * less_Suc_eq)
  qed
  finally show ?case .
qed

text \<open>
  \<open>memmove\<close> of \<^verbatim>\<open>kstring.c\<close> copies correctly even when source and destination overlap, in
  either direction: every destination byte gets the source byte as it was before the call and
  no other byte changes, as long as neither range runs past the end of the address space.
\<close>

theorem memmove_correct:
  assumes "unat s + unat n \<le> 4294967296" "unat d + unat n \<le> 4294967296"
  shows "memmove m d s n = upd_range m d (unat n) (\<lambda>i. m (s + of_nat i))"
proof -
  consider "d = s" | "d < s" | "s < d" by fastforce
  then show ?thesis
  proof cases
    case 1
    then show ?thesis by (simp add: memmove_def upd_range_def fun_eq_iff)
  next
    case 2
    then show ?thesis
      using assms memmove_fwd_correct [of d s "unat n" 0 m]
      by (auto simp: memmove_def)
  next
    case 3
    then show ?thesis
      using assms memmove_bwd_at [of s d "unat n" "unat n" m] by (auto simp: memmove_def)
  qed
qed

theorem memmove_correct_witness:
  "memmove (\<lambda>a. if a = 100 then 7 else if a = 101 then 8 else 0) 101 100 2 102 = 8"
  using memmove_correct [of 100 2 101 "\<lambda>a. if a = 100 then 7 else if a = 101 then 8 else 0"]
  by (simp add: upd_range_def)

text \<open>
  On NUL-terminated strings the loops of \<^verbatim>\<open>strlen\<close> and \<^verbatim>\<open>strcmp\<close> end; \<^verbatim>\<open>strlen\<close> returns the
  number of bytes before the NUL and \<^verbatim>\<open>strcmp\<close> returns 0 exactly when the strings are equal, 1
  otherwise.
\<close>

theorem strlen_strcmp_correct:
  assumes "str_at m a s" "str_at m b t"
  shows "strlen m a = Some (of_nat (length s)) \<and> strcmp m a b = Some (if s = t then 0 else 1)"
proof -
  have "str_cmp s t = (if s = t then 0 else 1)" for s t
    by (induction s t rule: str_cmp.induct) auto
  then show ?thesis using strlen_str_at [OF assms(1)] strcmp_str_at [OF assms] by simp
qed

theorem strlen_strcmp_correct_witness:
  "let m = (\<lambda>a. if a = 100 \<or> a = 101 \<or> a = 200 then 65 else 0)
   in strlen m 100 = Some 2 \<and> strcmp m 100 200 = Some 1"
  using strlen_strcmp_correct [of "\<lambda>a. if a = 100 \<or> a = 101 \<or> a = 200 then 65 else 0" 100 "[65, 65]" 200 "[65]"]
  by simp

lemma strcpy_loop_upd:
  assumes "str_at m src s" "length s < 4294967296" "i \<le> length s"
    and "\<forall>j \<le> length s. length s < unat (src + of_nat j - dst)"
  shows "strcpy_loop (upd_range m dst i (\<lambda>j. m (src + of_nat j))) dst src (of_nat i) =
    Some (of_nat (length s), upd_range m dst (length s + 1) (\<lambda>j. m (src + of_nat j)))"
proof -
  have src: "upd_range m dst k f (src + of_nat j) = m (src + of_nat j)" if "j \<le> length s" "k \<le> Suc (length s)" for j k f
    using assms(4) that by (intro upd_range_notin) (meson Suc_le_eq le_trans)
  show ?thesis using assms(3)
proof (induction "length s - i" arbitrary: i)
  case (0 i)
  then have i: "i = length s" by simp
  let ?m = "upd_range m dst i (\<lambda>j. m (src + of_nat j))"
  have "m (src + of_nat i) = 0" using assms(1) i by (simp add: str_at_nth)
  moreover from this have "?m(dst + of_nat i := 0) = upd_range m dst (length s + 1) (\<lambda>j. m (src + of_nat j))"
    using assms(2) i by (subst upd_range_Suc) (auto intro!: upd_range_cong simp: less_Suc_eq)
  ultimately show ?case using i by (subst strcpy_loop.simps) (simp add: Let_def src)
next
  case (Suc k i)
  then have i: "i < length s" by simp
  let ?m = "upd_range m dst i (\<lambda>j. m (src + of_nat j))"
  have c: "m (src + of_nat i) \<noteq> 0" using assms(1) i by (simp add: str_at_nth)
  have "?m(dst + of_nat i := m (src + of_nat i)) = upd_range m dst (Suc i) (\<lambda>j. m (src + of_nat j))"
    using assms(2) i by (subst upd_range_Suc) (auto intro!: upd_range_cong simp: less_Suc_eq)
  moreover have "strcpy_loop (upd_range m dst (Suc i) (\<lambda>j. m (src + of_nat j))) dst src (of_nat (Suc i)) =
      Some (of_nat (length s), upd_range m dst (length s + 1) (\<lambda>j. m (src + of_nat j)))"
    using Suc(1) [of "Suc i"] Suc(2) i by simp
  ultimately show ?case using i c by (subst strcpy_loop.simps) (simp add: Let_def add.commute src)
qed
qed

text \<open>
  \<^verbatim>\<open>strcpy\<close> copies a NUL-terminated string: it returns its length, the destination then holds
  the string and its NUL, and no other byte changes, when the destination does not overlap the
  source and neither pointer is null.
\<close>

theorem strcpy_correct:
  assumes "str_at m src s" "length s < 4294967296" "dst \<noteq> 0" "src \<noteq> 0"
    and "\<forall>j \<le> length s. length s < unat (src + of_nat j - dst)"
  shows "\<exists>m'. strcpy m dst src = Some (of_nat (length s), m') \<and> str_at m' dst s \<and>
    (\<forall>a. length s < unat (a - dst) \<longrightarrow> m' a = m a)"
proof -
  let ?m = "upd_range m dst (length s + 1) (\<lambda>j. m (src + of_nat j))"
  have "strcpy m dst src = Some (of_nat (length s), ?m)"
    using strcpy_loop_upd [OF assms(1,2), of 0 dst] assms(3-5) by (simp add: strcpy_def)
  moreover have "?m (dst + of_nat j) = m (src + of_nat j)" if "j \<le> length s" for j
    using that assms(2) by (intro upd_range_at) auto
  then have "str_at ?m dst s" using assms(1) by (simp add: str_at_nth)
  ultimately show ?thesis by (auto intro!: upd_range_notin)
qed

theorem strcpy_correct_witness:
  "\<exists>m'. strcpy (\<lambda>a. if a = 100 then 65 else 0) 200 100 = Some (1, m') \<and> str_at m' 200 [65]"
proof -
  have "\<forall>j \<le> length [65 :: u8]. length [65 :: u8] < unat ((100 :: u32) + of_nat j - 200)"
    by (auto simp: le_Suc_eq)
  from strcpy_correct [OF _ _ _ _ this, of "\<lambda>a. if a = 100 then 65 else 0"] show ?thesis by auto
qed

end
