(* ===== verification/Console.thy ===== *)
theory Console
  imports KString
begin

text \<open>
  The text console: \<^verbatim>\<open>kernel/src/kprintf.c\<close> (cursor, number formatting, format strings) over
  \<^verbatim>\<open>kernel/src/vga.c\<close> (text-mode cells or a linear framebuffer drawn from the embedded font,
  which is a parameter of the state). A character code of 128 or more is negative as a C
  \<^verbatim>\<open>char\<close> and indexes before the font in graphics mode, which the model reports as
  \<open>OutOfBounds\<close>. Shown here: the cursor never leaves the screen, printing cannot fail in
  text mode and stays inside the screen's cells there, and the two number formats denote the number and fit their buffers.
\<close>

section \<open>Definitions\<close>

datatype gtype = VGA_TEXT_MODE | VGA_GRAPHICS_MODE

record graphics_mode =
  gm_type :: gtype
  gm_width :: u32
  gm_height :: u32
  gm_depth :: u32
  gm_pitch :: u32
  gm_framebuffer :: u32

record console =
  gmode :: graphics_mode
  vga_font :: "u8 list"
  vga_width :: u32
  vga_height :: u32
  vga_cells :: "u32 \<Rightarrow> u16"
  vga_fb :: mem
  cursor_row :: u32
  cursor_column :: u32

abbreviation VGA_GRAPHICS_FB :: u32 where
  "VGA_GRAPHICS_FB \<equiv> 0xD0000000"

definition vga_init :: "console \<Rightarrow> console" where
  "vga_init c =
     (case gm_type (gmode c) of
        VGA_TEXT_MODE \<Rightarrow> c\<lparr>vga_width := 80, vga_height := 25\<rparr>
      | VGA_GRAPHICS_MODE \<Rightarrow>
          c\<lparr>vga_width := gm_width (gmode c) div 8, vga_height := gm_height (gmode c) div 16\<rparr>)"

definition put_pixel :: "u32 \<Rightarrow> u32 \<Rightarrow> u8 \<Rightarrow> console \<Rightarrow> console" where
  "put_pixel x y v c =
     (let p = VGA_GRAPHICS_FB + y * gm_pitch (gmode c) + x * gm_depth (gmode c) div 8
      in c\<lparr>vga_fb := fold (\<lambda>i fb. fb(p + of_nat i := v)) [0..<unat (gm_depth (gmode c) div 8)] (vga_fb c)\<rparr>)"

text \<open>The cell of a row and column in text mode.\<close>

definition vga_index :: "u32 \<Rightarrow> u32 \<Rightarrow> u32 \<Rightarrow> u32" where
  "vga_index w row col = row * w + col"

definition vga_putch_at :: "u8 \<Rightarrow> u32 \<Rightarrow> u32 \<Rightarrow> u8 \<Rightarrow> console \<Rightarrow> console kres" where
  "vga_putch_at ch row col attr c =
     (case gm_type (gmode c) of
        VGA_TEXT_MODE \<Rightarrow>
          Inr (c\<lparr>vga_cells := (vga_cells c)(vga_index (vga_width c) row col := push_bit 8 (ucast attr) OR ucast ch)\<rparr>)
      | VGA_GRAPHICS_MODE \<Rightarrow>
          kfold (\<lambda>dy. kfold (\<lambda>dx c.
              kbind (kget (vga_font c) (unat (scast ch * 16 + (of_nat dy :: u32)))) (\<lambda>bits.
                Inr (put_pixel (col * 8 + of_nat dx) (row * 16 + of_nat dy)
                       (if bits AND push_bit (8 - dx - 1) 1 \<noteq> 0 then 0xFF else 0) c)))
            [0..<8]) [0..<16] c)"

definition vga_shift_up :: "console \<Rightarrow> console" where
  "vga_shift_up c =
     (case gm_type (gmode c) of
        VGA_TEXT_MODE \<Rightarrow>
          (let w = vga_width c; h = vga_height c;
               moved = fold (\<lambda>y. fold (\<lambda>x v. v(vga_index w (of_nat y) (of_nat x) := v (vga_index w (of_nat y + 1) (of_nat x))))
                         [0..<unat w]) [0..<unat (h - 1)] (vga_cells c)
           in c\<lparr>vga_cells := fold (\<lambda>x v. v(vga_index w (h - 1) (of_nat x) := 0)) [0..<unat w] moved\<rparr>)
      | VGA_GRAPHICS_MODE \<Rightarrow>
          (let pitch = gm_pitch (gmode c);
               move_bytes = (gm_height (gmode c) - 16) * pitch;
               fb = memmove (vga_fb c) VGA_GRAPHICS_FB (VGA_GRAPHICS_FB + 16 * pitch) move_bytes
           in c\<lparr>vga_fb := memset fb (VGA_GRAPHICS_FB + move_bytes) 0 (16 * pitch)\<rparr>))"

definition vga_clear :: "console \<Rightarrow> console kres" where
  "vga_clear c =
     kfold (\<lambda>y. kfold (\<lambda>x. vga_putch_at 32 (of_nat y) (of_nat x) 0x07) [0..<unat (vga_width c)])
       [0..<unat (vga_height c)] c"

definition kprint_next_line :: "console \<Rightarrow> console" where
  "kprint_next_line c =
     (let c = c\<lparr>cursor_column := 0\<rparr>
      in if cursor_row c = vga_height c - 1 then vga_shift_up c
         else c\<lparr>cursor_row := cursor_row c + 1\<rparr>)"

text \<open>The last branch of \<^verbatim>\<open>kprint_char\<close>, for anything but newline and backspace.\<close>

definition kprint_glyph :: "u8 \<Rightarrow> console \<Rightarrow> console kres" where
  "kprint_glyph ch c =
     kbind (vga_putch_at ch (cursor_row c) (cursor_column c) 0x07 c) (\<lambda>c.
       let c = c\<lparr>cursor_column := cursor_column c + 1\<rparr>
       in Inr (if vga_width c \<le> cursor_column c then kprint_next_line c else c))"

definition cursor_back :: "console \<Rightarrow> console" where
  "cursor_back c =
     (if cursor_column c = 0
      then c\<lparr>cursor_row := cursor_row c - 1, cursor_column := vga_width c - 1\<rparr>
      else c\<lparr>cursor_column := cursor_column c - 1\<rparr>)"

definition kprint_backspace :: "console \<Rightarrow> console kres" where
  "kprint_backspace c =
     (if cursor_column c = 0 \<and> cursor_row c = 0 then Inr c
      else kbind (kprint_glyph 32 (cursor_back c)) (\<lambda>c. Inr (cursor_back c)))"

definition kprint_char :: "u8 \<Rightarrow> console \<Rightarrow> console kres" where
  "kprint_char ch c =
     (if ch = 10 then Inr (kprint_next_line c)
      else if ch = 8 then kprint_backspace c
      else kprint_glyph ch c)"

definition kprint :: "u8 list \<Rightarrow> console \<Rightarrow> console kres" where
  "kprint str = kfold kprint_char str"

text \<open>Hexadecimal: the position of the highest nonzero nibble, then the nibbles from there down.\<close>

definition hex_len :: "u32 \<Rightarrow> nat" where
  "hex_len v = fold (\<lambda>k len. if drop_bit (4 * k) v AND 0xF \<noteq> 0 then 4 * k else len) [1..<8] 0"

definition hex_digits :: "u8 list" where
  "hex_digits = bytes_of ''0123456789ABCDEF''"

definition kprint_uint32_hex :: "u32 \<Rightarrow> u8 list" where
  "kprint_uint32_hex v =
     (let len = hex_len v
      in map (\<lambda>k. hex_digits ! unat (drop_bit (len - 4 * k) v AND 0xF)) [0..<len div 4 + 1])"

text \<open>Decimal: digits in reverse order, then reversed in place.\<close>

function dec_digits :: "u32 \<Rightarrow> u8 list" where
  "dec_digits v = (if 0 < v then (48 + ucast (v mod 10)) # dec_digits (v div 10) else [])"
  by pat_completeness auto
termination
  by (relation "measure unat") (auto simp: unat_div_distrib word_less_nat_alt)

declare dec_digits.simps [simp del]

function swap_reverse :: "'a list \<Rightarrow> nat \<Rightarrow> nat \<Rightarrow> 'a list" where
  "swap_reverse xs i j =
     (if i < j then swap_reverse (xs[i := xs ! j, j := xs ! i]) (i + 1) (j - 1) else xs)"
  by pat_completeness auto
termination
  by (relation "measure (\<lambda>(xs, i, j). j - i)") auto

declare swap_reverse.simps [simp del]

definition kprint_uint32_dec :: "u32 \<Rightarrow> u8 list" where
  "kprint_uint32_dec v =
     (if v = 0 then [48] else let ds = dec_digits v in swap_reverse ds 0 (length ds - 1))"

datatype karg = KNum u32 | KStr "u8 list"

text \<open>
  The format interpreter. A missing argument, or a number where a string is wanted, is
  undefined in C; an unknown conversion prints nothing.
\<close>

fun kconv :: "u8 \<Rightarrow> karg list \<Rightarrow> (u8 list \<times> karg list) kres" where
  "kconv ch args =
     (if ch = 100 then (case args of KNum v # rest \<Rightarrow> Inr (kprint_uint32_dec v, rest) | _ \<Rightarrow> Inl OutOfBounds)
      else if ch = 120 then (case args of KNum v # rest \<Rightarrow> Inr (kprint_uint32_hex v, rest) | _ \<Rightarrow> Inl OutOfBounds)
      else if ch = 115 then (case args of KStr str # rest \<Rightarrow> Inr (str, rest) | _ \<Rightarrow> Inl OutOfBounds)
      else Inr ([], args))"

fun vkprintf :: "u8 list \<Rightarrow> bool \<Rightarrow> karg list \<Rightarrow> console \<Rightarrow> console kres" where
  "vkprintf [] format_spec args c = Inr c"
| "vkprintf (ch # fmt) True args c =
     kbind (kconv ch args) (\<lambda>(str, rest). kbind (kprint str c) (vkprintf fmt False rest))"
| "vkprintf (ch # fmt) False args c =
     (if ch = 37 then vkprintf fmt True args c
      else if ch = 8 then kbind (kprint_backspace c) (vkprintf fmt False args)
      else if ch = 10 then vkprintf fmt False args (kprint_next_line c)
      else kbind (kprint_glyph ch c) (vkprintf fmt False args))"

definition kprintf :: "u8 list \<Rightarrow> karg list \<Rightarrow> console \<Rightarrow> console kres" where
  "kprintf fmt args = vkprintf fmt False args"

section \<open>The cursor stays on the screen\<close>

definition cursor_ok :: "console \<Rightarrow> bool" where [wf_defs]:
  "cursor_ok c \<longleftrightarrow> cursor_row c < vga_height c \<and> cursor_column c < vga_width c"

text \<open>What drawing a character leaves alone: everything but the cells and the pixels.\<close>

definition geom :: "console \<Rightarrow> graphics_mode \<times> u8 list \<times> u32 \<times> u32 \<times> u32 \<times> u32" where
  "geom c = (gmode c, vga_font c, vga_width c, vga_height c, cursor_row c, cursor_column c)"

lemma geom_simps [simp]:
  "geom (put_pixel x y v c) = geom c"
  "geom (vga_shift_up c) = geom c"
  by (auto simp: geom_def put_pixel_def vga_shift_up_def Let_def split: gtype.splits)

lemma vga_putch_geom: "vga_putch_at ch row col attr c = Inr c' \<Longrightarrow> geom c' = geom c"
proof (cases "gm_type (gmode c)")
  case VGA_GRAPHICS_MODE
  assume "vga_putch_at ch row col attr c = Inr c'"
  with VGA_GRAPHICS_MODE show ?thesis
    unfolding vga_putch_at_def
    by simp (erule kfold_invariant [where P = "\<lambda>d. geom d = geom c"], simp,
        erule kfold_invariant [where P = "\<lambda>d. geom d = geom c"], simp, auto simp: kres_simps)
qed (auto simp: vga_putch_at_def geom_def)

lemma kprint_next_line_simps:
  "cursor_column (kprint_next_line c) = 0"
  "cursor_row (kprint_next_line c) =
     (if cursor_row c = vga_height c - 1 then cursor_row c else cursor_row c + 1)"
  "vga_width (kprint_next_line c) = vga_width c"
  "vga_height (kprint_next_line c) = vga_height c"
  "gmode (kprint_next_line c) = gmode c"
  "vga_font (kprint_next_line c) = vga_font c"
  using geom_simps(2) [of "c\<lparr>cursor_column := 0\<rparr>"]
  by (auto simp: kprint_next_line_def Let_def geom_def)

lemma word_suc_below: "(r :: u32) < h \<Longrightarrow> r \<noteq> h - 1 \<Longrightarrow> r + 1 < h"
  by unat_arith

lemma kprint_next_line_ok: "cursor_ok c \<Longrightarrow> cursor_ok (kprint_next_line c)"
  by (auto simp: wf_defs kprint_next_line_simps intro: word_suc_below) (unat_arith+)

lemma kprint_glyph_ok:
  assumes "cursor_ok c" "kprint_glyph ch c = Inr c'"
  shows "cursor_ok c'"
proof -
  from assms(2) obtain d where d: "vga_putch_at ch (cursor_row c) (cursor_column c) 0x07 c = Inr d"
    and c': "c' = (let e = d\<lparr>cursor_column := cursor_column d + 1\<rparr>
      in if vga_width e \<le> cursor_column e then kprint_next_line e else e)"
    by (auto simp: kprint_glyph_def kres_simps Let_def)
  from vga_putch_geom [OF d] assms(1) have d_ok: "cursor_ok d" by (auto simp: geom_def wf_defs)
  show ?thesis
  proof (cases "vga_width d \<le> cursor_column d + 1")
    case True
    have "cursor_ok (kprint_next_line (d\<lparr>cursor_column := cursor_column d + 1\<rparr>))"
      using d_ok by (auto simp: wf_defs kprint_next_line_simps intro: word_suc_below) (unat_arith+)
    with True c' show ?thesis by simp
  next
    case False
    with d_ok c' show ?thesis by (auto simp: wf_defs)
  qed
qed

lemma cursor_back_ok: "cursor_ok c \<Longrightarrow> cursor_column c \<noteq> 0 \<or> cursor_row c \<noteq> 0 \<Longrightarrow> cursor_ok (cursor_back c)"
  by (auto simp: wf_defs cursor_back_def) (unat_arith+)

text \<open>Where a glyph leaves the cursor.\<close>

lemma kprint_glyph_cursor:
  assumes "kprint_glyph ch c = Inr c'"
  shows "vga_width c' = vga_width c \<and> vga_height c' = vga_height c \<and> gmode c' = gmode c \<and>
    (if vga_width c \<le> cursor_column c + 1
     then cursor_column c' = 0 \<and>
       cursor_row c' = (if cursor_row c = vga_height c - 1 then cursor_row c else cursor_row c + 1)
     else cursor_column c' = cursor_column c + 1 \<and> cursor_row c' = cursor_row c)"
proof -
  from assms obtain d where d: "vga_putch_at ch (cursor_row c) (cursor_column c) 0x07 c = Inr d"
    and c': "c' = (let e = d\<lparr>cursor_column := cursor_column d + 1\<rparr>
      in if vga_width e \<le> cursor_column e then kprint_next_line e else e)"
    by (auto simp: kprint_glyph_def kres_simps Let_def)
  from vga_putch_geom [OF d] c' show ?thesis
    by (auto simp: geom_def Let_def kprint_next_line_simps)
qed

text \<open>Erasing moves the cursor back by one cell, also across the start of a row.\<close>

lemma kprint_backspace_cursor:
  assumes ok: "cursor_ok c" and b: "kprint_backspace c = Inr c'"
    and ne: "cursor_column c \<noteq> 0 \<or> cursor_row c \<noteq> 0"
  shows "vga_width c' = vga_width c \<and> vga_height c' = vga_height c \<and>
    cursor_row c' = cursor_row (cursor_back c) \<and> cursor_column c' = cursor_column (cursor_back c)"
proof -
  from b ne obtain d where d: "kprint_glyph 32 (cursor_back c) = Inr d" and c': "c' = cursor_back d"
    by (auto simp: kprint_backspace_def kres_simps split: if_splits)
  note pos = kprint_glyph_cursor [OF d]
  show ?thesis
  proof (cases "cursor_column c = 0")
    case True
    with ne ok have "cursor_row c - 1 \<noteq> vga_height c - 1" "vga_width c \<le> vga_width c - 1 + 1"
      by (auto simp: wf_defs)
    with True pos c' show ?thesis by (auto simp: cursor_back_def)
  next
    case False
    with ok have "\<not> vga_width c \<le> cursor_column c - 1 + 1" by (auto simp: wf_defs)
    with False pos c' show ?thesis by (auto simp: cursor_back_def)
  qed
qed

lemma kprint_backspace_ok:
  assumes "cursor_ok c" "kprint_backspace c = Inr c'"
  shows "cursor_ok c'"
proof (cases "cursor_column c = 0 \<and> cursor_row c = 0")
  case True
  with assms show ?thesis by (simp add: kprint_backspace_def)
next
  case False
  with cursor_back_ok [OF assms(1)] have "cursor_ok (cursor_back c)" by blast
  with kprint_backspace_cursor [OF assms] False show ?thesis
    by (auto simp: wf_defs) (auto simp: cursor_back_def split: if_splits)
qed

lemma kprint_char_ok:
  "cursor_ok c \<Longrightarrow> kprint_char ch c = Inr c' \<Longrightarrow> cursor_ok c'"
  using kprint_backspace_ok [of c c'] kprint_glyph_ok [of c ch c']
  by (auto simp: kprint_char_def kprint_next_line_ok split: if_splits)

lemma kprint_ok: "cursor_ok c \<Longrightarrow> kprint str c = Inr c' \<Longrightarrow> cursor_ok c'"
  unfolding kprint_def by (erule kfold_invariant) (blast intro: kprint_char_ok)+

lemma vkprintf_ok: "cursor_ok c \<Longrightarrow> vkprintf fmt b args c = Inr c' \<Longrightarrow> cursor_ok c'"
proof (induction fmt b args c arbitrary: c' rule: vkprintf.induct)
  case (2 ch fmt args c)
  from "2.prems"(2) obtain str rest d where d: "kconv ch args = Inr (str, rest)" "kprint str c = Inr d"
    "vkprintf fmt False rest d = Inr c'"
    by (auto simp: kres_simps simp del: kconv.simps)
  with kprint_ok "2.prems"(1) have "cursor_ok d" by blast
  from "2.IH" [OF d(1) refl d(2) this d(3)] show ?case .
next
  case (3 ch fmt args c)
  show ?case
  proof (cases "ch = 37 \<or> ch = 10")
    case True
    with 3 kprint_next_line_ok show ?thesis by auto
  next
    case False
    with "3.prems"(2) obtain d where d: "(if ch = 8 then kprint_backspace c else kprint_glyph ch c) = Inr d"
      "vkprintf fmt False args d = Inr c'"
      by (auto simp: kres_simps split: if_splits)
    with "3.prems"(1) have "cursor_ok d"
      using kprint_backspace_ok [of c d] kprint_glyph_ok [of c ch d] by (auto split: if_splits)
    with False d "3.IH" show ?thesis by (auto split: if_splits)
  qed
qed simp

lemma kprintf_ok: "cursor_ok c \<Longrightarrow> kprintf fmt args c = Inr c' \<Longrightarrow> cursor_ok c'"
  unfolding kprintf_def by (rule vkprintf_ok)

section \<open>Text mode never fails\<close>

lemma glyph_text_total:
  "gm_type (gmode c) = VGA_TEXT_MODE \<Longrightarrow> \<exists>c'. kprint_glyph ch c = Inr c' \<and> gmode c' = gmode c"
  by (simp add: kprint_glyph_def vga_putch_at_def Let_def kprint_next_line_simps)

lemma kprint_char_text_total:
  "gm_type (gmode c) = VGA_TEXT_MODE \<Longrightarrow> \<exists>c'. kprint_char ch c = Inr c' \<and> gmode c' = gmode c"
proof -
  have "gmode (cursor_back c) = gmode c" for c by (simp add: cursor_back_def)
  then show "gm_type (gmode c) = VGA_TEXT_MODE \<Longrightarrow> ?thesis"
    using glyph_text_total [of c ch] glyph_text_total [of "cursor_back c" 32]
    by (auto simp: kprint_char_def kprint_backspace_def kprint_next_line_simps)
qed

lemma kprint_text_total:
  "gm_type (gmode c) = VGA_TEXT_MODE \<Longrightarrow> \<exists>c'. kprint str c = Inr c' \<and> gmode c' = gmode c"
  unfolding kprint_def
proof (induction str arbitrary: c)
  case (Cons ch str)
  from kprint_char_text_total [OF Cons.prems, of ch] obtain d
    where "kprint_char ch c = Inr d" "gmode d = gmode c" by blast
  with Cons.IH [of d] Cons.prems show ?case by auto
qed simp

section \<open>Number formats\<close>

definition numeral_value :: "nat \<Rightarrow> (u8 \<Rightarrow> nat) \<Rightarrow> u8 list \<Rightarrow> nat" where
  "numeral_value base digit ds = foldl (\<lambda>n d. n * base + digit d) 0 ds"

definition dec_digit :: "u8 \<Rightarrow> nat" where
  "dec_digit d = unat d - 48"

definition hex_digit :: "u8 \<Rightarrow> nat" where
  "hex_digit d = (if d \<le> 57 then unat d - 48 else unat d - 55)"

lemma swap_reverse_nth:
  "j < length xs \<Longrightarrow> length (swap_reverse xs i j) = length xs \<and>
     (\<forall>k < length xs. swap_reverse xs i j ! k = (if i \<le> k \<and> k \<le> j then xs ! (i + j - k) else xs ! k))"
proof (induction xs i j rule: swap_reverse.induct)
  case (1 xs i j)
  show ?case
  proof (cases "i < j")
    case True
    let ?ys = "xs[i := xs ! j, j := xs ! i]"
    have IH: "length (swap_reverse ?ys (i + 1) (j - 1)) = length ?ys"
      "k < length ?ys \<Longrightarrow> swap_reverse ?ys (i + 1) (j - 1) ! k =
         (if i + 1 \<le> k \<and> k \<le> j - 1 then ?ys ! (i + 1 + (j - 1) - k) else ?ys ! k)" for k
      using 1 True by auto
    show ?thesis
      using True "1.prems" IH
      by (subst (1 2) swap_reverse.simps) (auto simp: nth_list_update)
  next
    case False
    then show ?thesis by (subst (1 2) swap_reverse.simps) (auto intro: arg_cong [where f = "nth xs"])
  qed
qed

lemma swap_reverse_rev: "xs \<noteq> [] \<Longrightarrow> swap_reverse xs 0 (length xs - Suc 0) = rev xs"
  using swap_reverse_nth [of "length xs - 1" xs 0]
  by (intro nth_equalityI) (auto simp: rev_nth)

lemma dec_digits_zero [simp]: "dec_digits 0 = []"
  by (simp add: dec_digits.simps)

lemma dec_digits_pos:
  "v \<noteq> 0 \<Longrightarrow> dec_digits v = (48 + ucast (v mod 10)) # dec_digits (v div 10)"
  by (simp add: dec_digits.simps [of v] word_gt_0)

lemma unat_digit: "unat (48 + ucast (v mod 10 :: u32) :: u8) = 48 + unat v mod 10"
  by (simp add: unat_word_ariths unsigned_ucast_eq unat_mod_distrib take_bit_eq_mod)

lemma dec_digits_induct [case_names zero pos]:
  "P 0 \<Longrightarrow> (\<And>v :: u32. v \<noteq> 0 \<Longrightarrow> P (v div 10) \<Longrightarrow> P v) \<Longrightarrow> P v"
proof (induction v rule: dec_digits.induct)
  case (1 v)
  then show ?case by (cases "v = 0") (auto simp: word_gt_0)
qed

lemma dec_digits_value: "foldr (\<lambda>d n. n * 10 + dec_digit d) (dec_digits v) 0 = unat v"
  by (induction v rule: dec_digits_induct)
    (simp_all add: dec_digits_pos dec_digit_def unat_digit unat_div_distrib)

lemma dec_digits_range: "d \<in> set (dec_digits v) \<Longrightarrow> 48 \<le> d \<and> d \<le> 57"
proof (induction v rule: dec_digits_induct)
  case (pos v)
  then show ?case
    using unat_digit [of v] by (auto simp: dec_digits_pos word_le_nat_alt)
qed simp

lemma dec_digits_length: "unat v < 10 ^ n \<Longrightarrow> length (dec_digits v) \<le> n"
proof (induction n arbitrary: v)
  case 0
  then show ?case by (simp add: unat_eq_0)
next
  case (Suc n)
  then have "length (dec_digits (v div 10)) \<le> n"
    by (intro Suc.IH) (simp add: unat_div_distrib)
  then show ?case by (cases "v = 0") (simp_all add: dec_digits_pos)
qed

lemma last_dec_digits: "v \<noteq> 0 \<Longrightarrow> last (dec_digits v) \<noteq> 48"
proof (induction v rule: dec_digits_induct)
  case (pos v)
  show ?case
  proof (cases "v div 10 = 0")
    case True
    moreover have "unat (v div 10) = unat v div 10" by (simp add: unat_div_distrib)
    ultimately have "unat v div 10 = 0" by simp
    moreover have "unat v \<noteq> 0" using pos by (simp add: unat_eq_0)
    ultimately have "unat (48 + ucast (v mod 10 :: u32) :: u8) \<noteq> unat (48 :: u8)"
      unfolding unat_digit by simp
    then have "(48 + ucast (v mod 10) :: u8) \<noteq> 48" by metis
    with True pos show ?thesis by (simp add: dec_digits_pos)
  next
    case False
    then have "dec_digits (v div 10) \<noteq> []" by (simp add: dec_digits_pos)
    with False pos show ?thesis by (simp add: dec_digits_pos)
  qed
qed simp

lemma foldl_rev_digits: "foldl (\<lambda>n d. n * b + f d) 0 (rev ds) = foldr (\<lambda>d n. n * b + f d) ds (0 :: nat)"
  by (simp add: foldl_conv_foldr)

text \<open>
  The decimal conversion writes decimal digits only, they denote the number, there is no
  leading zero except for the number zero itself, and the digits with their NUL fit the
  11-byte buffer of \<^verbatim>\<open>vkprintf\<close>.
\<close>

theorem kprint_uint32_dec_correct:
  "numeral_value 10 dec_digit (kprint_uint32_dec v) = unat v \<and>
   set (kprint_uint32_dec v) \<subseteq> {48..57} \<and>
   (hd (kprint_uint32_dec v) = 48 \<longleftrightarrow> v = 0) \<and>
   length (kprint_uint32_dec v) + 1 \<le> 11"
proof (cases "v = 0")
  case True
  then show ?thesis by (simp add: kprint_uint32_dec_def numeral_value_def dec_digit_def word_le_nat_alt)
next
  case False
  then have ne: "dec_digits v \<noteq> []" by (simp add: dec_digits_pos)
  then have eq: "kprint_uint32_dec v = rev (dec_digits v)"
    using False by (simp add: kprint_uint32_dec_def swap_reverse_rev Let_def)
  have "unat v < 10 ^ 10" using u32_bound [of v] by (simp del: u32_bound)
  from dec_digits_length [OF this] show ?thesis
    using False ne last_dec_digits [OF False] dec_digits_range [of _ v]
    by (auto simp: eq numeral_value_def foldl_rev_digits dec_digits_value hd_rev)
qed


lemma and_15: "(x :: u32) AND 0xF = take_bit 4 x"
  by (simp add: take_bit_eq_mask mask_eq_exp_minus_1)

definition nibble :: "u32 \<Rightarrow> nat \<Rightarrow> nat" where
  "nibble v k = unat v div 16 ^ k mod 16"

lemma unat_nibble: "unat (drop_bit (4 * k) v AND 0xF) = nibble v k"
proof -
  have "unat (drop_bit (4 * k) v AND 0xF) = take_bit 4 (drop_bit (4 * k) (unat v))"
    by (simp add: and_15 unsigned_take_bit_eq unsigned_drop_bit_eq take_bit_nat_eq_self)
  then show ?thesis
    by (simp add: nibble_def take_bit_eq_mod drop_bit_eq_div power_mult)
qed

lemma hex_digit_nth: "n < 16 \<Longrightarrow> hex_digit (hex_digits ! n) = n"
proof -
  have "\<forall>n \<in> set [0..<16]. hex_digit (hex_digits ! n) = n"
    by (simp add: upt_rec hex_digit_def hex_digits_def bytes_of_def)
  then show "n < 16 \<Longrightarrow> ?thesis" by simp
qed
lemma hex_len_steps:
  "k \<le> 7 \<Longrightarrow> \<exists>j \<le> k. fold (\<lambda>k len. if drop_bit (4 * k) v AND 0xF \<noteq> 0 then 4 * k else len) [1..<Suc k] 0 = 4 * j
     \<and> (\<forall>i. j < i \<and> i \<le> k \<longrightarrow> nibble v i = 0) \<and> (j \<noteq> 0 \<longrightarrow> nibble v j \<noteq> 0)"
proof (induction k)
  case 0
  then show ?case by simp
next
  case (Suc k)
  then obtain j where j: "j \<le> k" "fold (\<lambda>k len. if drop_bit (4 * k) v AND 0xF \<noteq> 0 then 4 * k else len) [1..<Suc k] 0 = 4 * j"
     "\<forall>i. j < i \<and> i \<le> k \<longrightarrow> nibble v i = 0" "j \<noteq> 0 \<longrightarrow> nibble v j \<noteq> 0" by auto
  have *: "drop_bit (4 * Suc k) v AND 0xF \<noteq> 0 \<longleftrightarrow> nibble v (Suc k) \<noteq> 0"
    by (metis unat_nibble unat_eq_0)
  show ?case
  proof (cases "nibble v (Suc k) = 0")
    case True
    with j * show ?thesis by (intro exI [of _ j]) (auto simp: le_Suc_eq)
  next
    case False
    with j * show ?thesis by (intro exI [of _ "Suc k"]) auto
  qed
qed

lemma div_nibbles: "unat v div 16 ^ k = unat v div 16 ^ Suc k * 16 + nibble v k"
  by (simp add: nibble_def div_mult2_eq mult.commute [of 16])

lemma no_high_nibbles:
  assumes "\<forall>i. j < i \<and> i \<le> 7 \<longrightarrow> nibble v i = 0" "j \<le> 7"
  shows "unat v div 16 ^ Suc j = 0"
proof -
  have "i \<le> 8 \<Longrightarrow> j < i \<Longrightarrow> unat v div 16 ^ i = 0" for i
  proof (induction "8 - i" arbitrary: i)
    case 0
    then have "i = 8" by simp
    then show ?case using u32_bound [of v] by simp
  next
    case (Suc n)
    then have "unat v div 16 ^ Suc i = 0" by (intro Suc.hyps(1)) auto
    with Suc assms show ?case using div_nibbles [of v i] by auto
  qed
  then show ?thesis using assms by (simp del: power_Suc)
qed

lemma hex_digits_value:
  fixes v :: u32
  assumes "unat v div 16 ^ Suc j = 0" "n \<le> j"
  shows "numeral_value 16 hex_digit
    (map (\<lambda>k. hex_digits ! unat (drop_bit (4 * j - 4 * k) v AND 0xF)) [0..<Suc n]) = unat v div 16 ^ (j - n)"
  using assms(2)
proof (induction n)
  case 0
  have "nibble v j < 16" by (simp add: nibble_def)
  then show ?case
    using div_nibbles [of v j] assms(1) by (simp add: numeral_value_def unat_nibble hex_digit_nth)
next
  case (Suc n)
  have eq: "4 * j - 4 * Suc n = 4 * (j - Suc n)" by simp
  have "nibble v (j - Suc n) < 16" by (simp add: nibble_def)
  moreover have "Suc (j - Suc n) = j - n" using Suc.prems by simp
  ultimately show ?case
    using Suc div_nibbles [of v "j - Suc n"]
    by (simp add: numeral_value_def unat_nibble hex_digit_nth eq del: mult_Suc_right)
qed

text \<open>
  The hexadecimal conversion writes digits of \<^verbatim>\<open>hex_digits\<close> only, they denote the number, and
  they fit the 9-byte buffer with their NUL.
\<close>

theorem kprint_uint32_hex_correct:
  "numeral_value 16 hex_digit (kprint_uint32_hex v) = unat v \<and>
   set (kprint_uint32_hex v) \<subseteq> set hex_digits \<and>
   length (kprint_uint32_hex v) + 1 \<le> 9"
proof -
  obtain j where j: "j \<le> 7" "hex_len v = 4 * j" "\<forall>i. j < i \<and> i \<le> 7 \<longrightarrow> nibble v i = 0"
    using hex_len_steps [of 7 v] by (auto simp: hex_len_def)
  from no_high_nibbles [OF j(3,1)] have val: "numeral_value 16 hex_digit (kprint_uint32_hex v) = unat v"
    using hex_digits_value [of v j j] by (simp add: kprint_uint32_hex_def j(2) del: upt_Suc)
  have "unat (x AND 0xF :: u32) < length hex_digits" for x :: u32
    using unat_nibble [of 0 x] by (simp add: nibble_def hex_digits_def bytes_of_def)
  then have "set (kprint_uint32_hex v) \<subseteq> set hex_digits"
    by (auto simp: kprint_uint32_hex_def Let_def)
  with val j show ?thesis by (simp add: kprint_uint32_hex_def)
qed


section \<open>Scrolling\<close>

abbreviation cell_at :: "u32 \<Rightarrow> nat \<Rightarrow> nat \<Rightarrow> u32" where
  "cell_at w y x \<equiv> vga_index w (of_nat y) (of_nat x)"

lemma unat_cell:
  fixes w h :: u32
  assumes "unat w * unat h < 4294967296" "y < unat h" "x < unat w"
  shows "unat (cell_at w y x) = y * unat w + x"
proof -
  have "Suc y * unat w \<le> unat h * unat w" using assms(2) by (intro mult_le_mono1) simp
  then have "y * unat w + x < unat h * unat w" using assms(3) by simp
  then have "y * unat w + x < 4294967296" "y * unat w < 4294967296" using assms by (simp_all add: mult.commute)
  moreover have "x < 4294967296" using assms(3) u32_bound [of w] by (simp del: u32_bound)
  moreover have "y < 4294967296" using assms(2) u32_bound [of h] by (simp del: u32_bound)
  ultimately show ?thesis by (simp add: vga_index_def unat_word_ariths)
qed

lemma cell_at_eq:
  fixes w h :: u32
  assumes "unat w * unat h < 4294967296" "y < unat h" "x < unat w" "y' < unat h" "x' < unat w"
  shows "cell_at w y x = cell_at w y' x' \<longleftrightarrow> y = y' \<and> x = x'"
proof
  assume "cell_at w y x = cell_at w y' x'"
  with unat_cell [of w h] assms have "y * unat w + x = y' * unat w + x'" by metis
  then have "(y * unat w + x) div unat w = (y' * unat w + x') div unat w"
    "(y * unat w + x) mod unat w = (y' * unat w + x') mod unat w" by simp_all
  with assms show "y = y' \<and> x = x'" by simp
qed simp

lemma copy_row:
  fixes w h :: u32
  assumes "unat w * unat h < 4294967296" "Suc y < unat h" "y' < unat h" "x' < unat w"
  shows "k \<le> unat w \<Longrightarrow> fold (\<lambda>x v. v(cell_at w y x := v (cell_at w (Suc y) x))) [0..<k] v (cell_at w y' x') =
    (if y' = y \<and> x' < k then v (cell_at w (Suc y) x') else v (cell_at w y' x'))"
  using assms(3,4)
proof (induction k arbitrary: y' x')
  case (Suc k)
  then show ?case
    using assms(1,2) by (auto simp: cell_at_eq [of w h] less_Suc_eq simp del: of_nat_Suc)
qed simp

lemma copy_rows:
  fixes w h :: u32
  assumes "unat w * unat h < 4294967296"
  shows "k < unat h \<Longrightarrow> y < unat h \<Longrightarrow> x < unat w \<Longrightarrow>
    fold (\<lambda>y. fold (\<lambda>x v. v(cell_at w y x := v (cell_at w (Suc y) x))) [0..<unat w]) [0..<k] v (cell_at w y x) =
    v (cell_at w (if y < k then Suc y else y) x)"
proof (induction k arbitrary: y x)
  case (Suc k)
  with assms show ?case
    by (auto simp: copy_row [where h = h] simp del: of_nat_Suc fun_upd_apply)
qed simp

lemma clear_row:
  fixes w h :: u32
  assumes "unat w * unat h < 4294967296" "r < unat h" "y < unat h" "x < unat w"
  shows "k \<le> unat w \<Longrightarrow> fold (\<lambda>x v. v(cell_at w r x := 0)) [0..<k] v (cell_at w y x) =
    (if y = r \<and> x < k then 0 else v (cell_at w y x))"
  using assms(3,4)
proof (induction k arbitrary: y x)
  case (Suc k)
  then show ?case
    using assms(1,2) by (auto simp: cell_at_eq [of w h] less_Suc_eq)
qed simp

text \<open>
  Scrolling in text mode moves every row of the screen up by one and blanks the last row.
\<close>

theorem vga_shift_up_text:
  assumes "gm_type (gmode c) = VGA_TEXT_MODE" "unat (vga_width c) * unat (vga_height c) < 4294967296"
    "y < unat (vga_height c)" "x < unat (vga_width c)"
  shows "vga_cells (vga_shift_up c) (vga_index (vga_width c) (of_nat y) (of_nat x)) =
    (if y = unat (vga_height c) - 1 then 0
     else vga_cells c (vga_index (vga_width c) (of_nat (Suc y)) (of_nat x)))"
proof -
  let ?h = "vga_height c" and ?w = "vga_width c"
  obtain r where h1: "?h - 1 = of_nat r" and r: "unat ?h = Suc r" "unat (of_nat r :: u32) = r"
  proof
    show "?h - 1 = of_nat (unat (?h - 1))" by simp
    show "unat ?h = Suc (unat (?h - 1))" using assms(3) by (subst unat_minus_one) auto
  qed simp
  have suc: "(of_nat k + 1 :: u32) = of_nat (Suc k)" for k by simp
  show ?thesis
    unfolding vga_shift_up_def Let_def h1 suc
    using assms r
    by (auto simp: clear_row [where h = ?h] copy_rows [where h = ?h] simp del: of_nat_Suc fun_upd_apply)
qed

definition text_console :: console where
  "text_console = \<lparr>gmode = \<lparr>gm_type = VGA_TEXT_MODE, gm_width = 0, gm_height = 0, gm_depth = 0,
     gm_pitch = 0, gm_framebuffer = 0\<rparr>, vga_font = [], vga_width = 80, vga_height = 25,
     vga_cells = (\<lambda>_. 0), vga_fb = (\<lambda>_. 0), cursor_row = 0, cursor_column = 0\<rparr>"

theorem vga_shift_up_text_witness:
  "vga_cells (vga_shift_up (text_console\<lparr>vga_cells := (\<lambda>_. 0)(vga_index 80 1 2 := 0x0741)\<rparr>)) (vga_index 80 0 2) = 0x0741"
  using vga_shift_up_text [of "text_console\<lparr>vga_cells := (\<lambda>_. 0)(vga_index 80 1 2 := 0x0741)\<rparr>" 0 2]
  by (simp add: text_console_def)

section \<open>Text mode stays on the screen\<close>

text \<open>
  A console in text mode that came out of \<open>c0\<close>: the cursor is on the screen, and neither the framebuffer nor a cell
  outside the screen has changed.
\<close>

definition text_inside :: "console \<Rightarrow> console \<Rightarrow> bool" where
  "text_inside c0 c \<longleftrightarrow> cursor_ok c \<and> gmode c = gmode c0 \<and> vga_width c = vga_width c0 \<and> vga_height c = vga_height c0 \<and> vga_fb c = vga_fb c0 \<and>
     (\<forall>i. unat (vga_width c0) * unat (vga_height c0) \<le> unat i \<longrightarrow> vga_cells c i = vga_cells c0 i)"

definition text_mode :: "console \<Rightarrow> bool" where
  "text_mode c \<longleftrightarrow> gm_type (gmode c) = VGA_TEXT_MODE \<and> unat (vga_width c) * unat (vga_height c) < 4294967296"

lemma fold_keeps: "(\<And>x v. x \<in> set xs \<Longrightarrow> f x v i = v i) \<Longrightarrow> fold f xs v i = v i"
  by (induction xs arbitrary: v) simp_all

lemma cell_inside:
  fixes w h :: u32
  assumes "unat w * unat h < 4294967296" "y < unat h" "x < unat w" "unat w * unat h \<le> unat i"
  shows "i \<noteq> cell_at w y x"
proof -
  have "Suc y * unat w \<le> unat h * unat w" using assms(2) by (intro mult_le_mono1) simp
  then have "y * unat w + x < unat w * unat h" using assms(3) by (simp add: mult.commute)
  then show ?thesis using unat_cell [OF assms(1-3)] assms(4) by auto
qed

lemma putch_inside:
  assumes "text_mode c" "row < vga_height c" "col < vga_width c"
  shows "\<exists>v. vga_putch_at ch row col attr c = Inr (c\<lparr>vga_cells := v\<rparr>) \<and>
    (\<forall>i. unat (vga_width c) * unat (vga_height c) \<le> unat i \<longrightarrow> v i = vga_cells c i)"
proof -
  have "i \<noteq> vga_index (vga_width c) row col" if "unat (vga_width c) * unat (vga_height c) \<le> unat i" for i
    using cell_inside [of "vga_width c" "vga_height c" "unat row" "unat col" i] that assms by (simp add: text_mode_def word_less_nat_alt)
  then show ?thesis using assms(1) by (auto simp: vga_putch_at_def text_mode_def)
qed

lemma shift_up_inside:
  assumes "text_mode c" "0 < unat (vga_height c)"
  shows "\<exists>v. vga_shift_up c = c\<lparr>vga_cells := v\<rparr> \<and> (\<forall>i. unat (vga_width c) * unat (vga_height c) \<le> unat i \<longrightarrow> v i = vga_cells c i)"
proof -
  let ?w = "vga_width c" and ?h = "vga_height c"
  have h: "unat (?h - 1) = unat ?h - 1" using assms(2) by (subst unat_minus_one) auto
  have last: "cell_at ?w (unat ?h - 1) x = vga_index ?w (?h - 1) (of_nat x)" for x unfolding h [symmetric] by simp
  have keep: "(v(vga_index ?w (of_nat y) (of_nat x) := z)) i = v i"
    if "unat ?w * unat ?h \<le> unat i" "y < unat ?h" "x < unat ?w" for v z i y x
    using cell_inside [of ?w ?h y x i] that assms(1) by (simp add: text_mode_def)
  let ?m = "fold (\<lambda>y. fold (\<lambda>x v. v(cell_at ?w y x := v (vga_index ?w (of_nat y + 1) (of_nat x)))) [0..<unat ?w]) [0..<unat (?h - 1)] (vga_cells c)"
  let ?v = "fold (\<lambda>x v. v(vga_index ?w (?h - 1) (of_nat x) := 0)) [0..<unat ?w] ?m"
  have "?v i = vga_cells c i" if i: "unat ?w * unat ?h \<le> unat i" for i
  proof -
    have "?v i = ?m i" unfolding last [symmetric] using i assms(2) by (intro fold_keeps keep) auto
    also have "?m i = vga_cells c i" using i h by (intro fold_keeps keep) auto
    finally show ?thesis .
  qed
  moreover have "vga_shift_up c = c\<lparr>vga_cells := ?v\<rparr>" using assms(1) by (simp add: vga_shift_up_def Let_def text_mode_def)
  ultimately show ?thesis by blast
qed

lemma next_line_inside:
  assumes "text_inside c0 c" "text_mode c0"
  shows "text_inside c0 (kprint_next_line (c\<lparr>cursor_column := col\<rparr>))"
proof -
  let ?c = "c\<lparr>cursor_column := 0\<rparr>"
  have t: "text_mode ?c" "0 < unat (vga_height ?c)" using assms by (auto simp: text_inside_def text_mode_def wf_defs word_less_nat_alt)
  from shift_up_inside [OF this] obtain v where v: "vga_shift_up ?c = ?c\<lparr>vga_cells := v\<rparr>"
    "\<forall>i. unat (vga_width ?c) * unat (vga_height ?c) \<le> unat i \<longrightarrow> v i = vga_cells ?c i" by blast
  have "cursor_ok (kprint_next_line c)" using assms(1) by (intro kprint_next_line_ok) (simp add: text_inside_def)
  moreover have "kprint_next_line (c\<lparr>cursor_column := col\<rparr>) = kprint_next_line c" by (simp add: kprint_next_line_def)
  ultimately show ?thesis using assms(1) v by (auto simp: text_inside_def kprint_next_line_def Let_def)
qed

lemma glyph_inside:
  assumes "text_inside c0 c" "text_mode c0" "kprint_glyph ch c = Inr c'"
  shows "text_inside c0 c'"
proof -
  have c: "cursor_ok c" "text_mode c" "cursor_row c < vga_height c" "cursor_column c < vga_width c"
    using assms(1,2) by (auto simp: text_inside_def text_mode_def wf_defs)
  obtain v where v: "vga_putch_at ch (cursor_row c) (cursor_column c) 0x07 c = Inr (c\<lparr>vga_cells := v\<rparr>)"
    "\<forall>i. unat (vga_width c) * unat (vga_height c) \<le> unat i \<longrightarrow> v i = vga_cells c i" using putch_inside [OF c(2-4)] by blast
  let ?d = "c\<lparr>vga_cells := v\<rparr>"
  have d: "text_inside c0 ?d" using assms(1) v(2) by (auto simp: text_inside_def wf_defs)
  have ok: "cursor_ok c'" by (rule kprint_glyph_ok [OF c(1) assms(3)])
  have "c' = (if vga_width c \<le> cursor_column c + 1 then kprint_next_line (?d\<lparr>cursor_column := cursor_column c + 1\<rparr>)
    else ?d\<lparr>cursor_column := cursor_column c + 1\<rparr>)" using assms(3) v(1) by (auto simp: kprint_glyph_def Let_def)
  then show ?thesis using next_line_inside [OF d assms(2)] d ok by (auto simp: text_inside_def)
qed

lemma cursor_back_inside:
  "text_inside c0 c \<Longrightarrow> cursor_ok (cursor_back c) \<Longrightarrow> text_inside c0 (cursor_back c)"
  by (auto simp: text_inside_def cursor_back_def)

lemma backspace_inside:
  assumes "text_inside c0 c" "text_mode c0" "kprint_backspace c = Inr c'"
  shows "text_inside c0 c'"
proof (cases "cursor_column c = 0 \<and> cursor_row c = 0")
  case True
  with assms show ?thesis by (simp add: kprint_backspace_def)
next
  case False
  have ok: "cursor_ok c" using assms(1) by (simp add: text_inside_def)
  with False have "text_inside c0 (cursor_back c)" using cursor_back_ok by (intro cursor_back_inside [OF assms(1)]) blast
  moreover obtain d where d: "kprint_glyph 32 (cursor_back c) = Inr d" "c' = cursor_back d"
    using assms(3) False by (auto simp: kprint_backspace_def kres_simps split: if_splits)
  ultimately have "text_inside c0 d" using glyph_inside assms(2) by blast
  then show ?thesis using kprint_backspace_ok [OF ok assms(3)] d(2) cursor_back_inside by blast
qed

lemma char_inside: "text_mode c0 \<Longrightarrow> text_inside c0 c \<Longrightarrow> kprint_char ch c = Inr c' \<Longrightarrow> text_inside c0 c'"
  using next_line_inside [of c0 c "cursor_column c"] backspace_inside [of c0 c c'] glyph_inside [of c0 c ch c']
  by (auto simp: kprint_char_def split: if_splits)

lemma kprint_inside: "text_mode c0 \<Longrightarrow> text_inside c0 c \<Longrightarrow> kprint str c = Inr c' \<Longrightarrow> text_inside c0 c'"
  unfolding kprint_def by (erule kfold_invariant) (blast intro: char_inside)+

lemma vkprintf_inside: "text_mode c0 \<Longrightarrow> text_inside c0 c \<Longrightarrow> vkprintf fmt b args c = Inr c' \<Longrightarrow> text_inside c0 c'"
proof (induction fmt b args c arbitrary: c' rule: vkprintf.induct)
  case (2 ch fmt args c)
  from "2.prems"(3) obtain str rest d where d: "kconv ch args = Inr (str, rest)" "kprint str c = Inr d"
    "vkprintf fmt False rest d = Inr c'"
    by (auto simp: kres_simps simp del: kconv.simps)
  with kprint_inside "2.prems"(1,2) have "text_inside c0 d" by blast
  from "2.IH" [OF d(1) refl d(2) "2.prems"(1) this d(3)] show ?case .
next
  case (3 ch fmt args c)
  show ?case
  proof (cases "ch = 37 \<or> ch = 10")
    case True
    with 3 next_line_inside [OF "3.prems"(2,1), of "cursor_column c"] show ?thesis by auto
  next
    case False
    with "3.prems"(3) obtain d where d: "(if ch = 8 then kprint_backspace c else kprint_glyph ch c) = Inr d"
      "vkprintf fmt False args d = Inr c'"
      by (auto simp: kres_simps split: if_splits)
    with "3.prems"(1,2) have "text_inside c0 d"
      using backspace_inside [of c0 c d] glyph_inside [of c0 c ch d] by (auto split: if_splits)
    with False d "3.IH" "3.prems"(1) show ?thesis by (auto split: if_splits)
  qed
qed simp

section \<open>Printing keeps the cursor on the screen\<close>

text \<open>
  C40: whatever \<open>kprintf\<close> prints, with wrapping lines, newlines, scrolling and backspaces, the
  cursor stays on the screen. In text mode printing a string always succeeds, and neither a string nor a
  format, if it has its arguments, changes a cell outside the \<open>vga_width\<close> times \<open>vga_height\<close> cells of the screen, the framebuffer
  or the size of the screen. (Nothing is said here about where graphics mode draws.)
\<close>

theorem kprintf_cursor_safe:
  assumes "cursor_ok c"
  shows "(\<forall>c'. kprintf fmt args c = Inr c' \<longrightarrow> cursor_ok c') \<and>
    (gm_type (gmode c) = VGA_TEXT_MODE \<longrightarrow> (\<exists>c'. kprint str c = Inr c' \<and> cursor_ok c')) \<and>
    (gm_type (gmode c) = VGA_TEXT_MODE \<and> unat (vga_width c) * unat (vga_height c) < 4294967296 \<longrightarrow>
      (\<forall>c'. kprint str c = Inr c' \<or> kprintf fmt args c = Inr c' \<longrightarrow>
         gmode c' = gmode c \<and> vga_width c' = vga_width c \<and> vga_height c' = vga_height c \<and> vga_fb c' = vga_fb c \<and>
         (\<forall>i. unat (vga_width c) * unat (vga_height c) \<le> unat i \<longrightarrow> vga_cells c' i = vga_cells c i)))"
proof (intro conjI impI allI)
  show "\<exists>c'. kprint str c = Inr c' \<and> cursor_ok c'" if "gm_type (gmode c) = VGA_TEXT_MODE"
    using kprint_text_total [OF that, of str] kprint_ok assms by blast
next
  fix c'
  assume t: "gm_type (gmode c) = VGA_TEXT_MODE \<and> unat (vga_width c) * unat (vga_height c) < 4294967296"
    and p: "kprint str c = Inr c' \<or> kprintf fmt args c = Inr c'"
  have "text_mode c" using t by (simp add: text_mode_def)
  moreover have "text_inside c c" using assms by (simp add: text_inside_def)
  ultimately have i: "text_inside c c'" using p kprint_inside vkprintf_inside unfolding kprintf_def by blast
  then show "gmode c' = gmode c" "vga_width c' = vga_width c" "vga_height c' = vga_height c" "vga_fb c' = vga_fb c" by (simp_all add: text_inside_def)
  show "vga_cells c' j = vga_cells c j" if "unat (vga_width c) * unat (vga_height c) \<le> unat j" for j
    using i that by (simp add: text_inside_def)
qed (use assms kprintf_ok in blast)

theorem kprintf_cursor_safe_witness:
  "\<exists>c'. kprint (bytes_of ''hello'') text_console = Inr c' \<and> cursor_ok c' \<and> vga_cells c' 2000 = 0"
proof -
  have "cursor_ok text_console" by (simp add: wf_defs text_console_def)
  note s = kprintf_cursor_safe [OF this, of "[]" "[]" "bytes_of ''hello''"]
  have t: "gm_type (gmode text_console) = VGA_TEXT_MODE" "vga_width text_console = 80" "vga_height text_console = 25" "vga_cells text_console = (\<lambda>_. 0)"
    by (simp_all add: text_console_def)
  obtain c' where c': "kprint (bytes_of ''hello'') text_console = Inr c'" "cursor_ok c'" using s t(1) by blast
  moreover have "\<forall>c'. kprint (bytes_of ''hello'') text_console = Inr c' \<longrightarrow> (\<forall>i. 2000 \<le> unat i \<longrightarrow> vga_cells c' i = 0)"
    using s unfolding t by simp
  ultimately show ?thesis by auto
qed

end
