(* ===== verification/FsModel.thy ===== *)
theory FsModel
  imports Console
begin

text \<open>
  The in-memory file system of \<^verbatim>\<open>kernel/include/fs_defs.h\<close> and \<^verbatim>\<open>kernel/src/fs.c\<close>: definitions
  only; the lemmas are in \<open>FsPath\<close> and \<open>FsIO\<close>. The image \<^verbatim>\<open>fs\<close> is one array of 128 blocks
  of 4096 bytes: block 0 holds the bitmap of used blocks, blocks 1 to 8 the 256 inodes, the
  rest file data. The model keeps the inodes as records and every other byte in \<open>fsbytes\<close>
  under its offset in the array; an access by offset that reaches the inode table or leaves
  the array is \<open>OutOfBounds\<close>. The union of an inode's data is kept as in memory: its first
  word is the file size, the number of directory entries or the link target, the 21 words after
  it are the file's blocks or the directory's entries. An inode pointer is an index into the
  table, the null pointer \<open>None\<close>. A name is the list of its bytes before the NUL; the code writes every name with one, so a
  name field without a NUL does not occur.
\<close>

section \<open>Layout\<close>

abbreviation BLOCK_SIZE :: u32 where "BLOCK_SIZE \<equiv> 4096"
abbreviation NUM_BLOCKS :: nat where "NUM_BLOCKS \<equiv> 128"
abbreviation NUM_INODES :: nat where "NUM_INODES \<equiv> 256"
abbreviation NDIRECT :: nat where "NDIRECT \<equiv> 21"
abbreviation FILE_MAX_SIZE :: u32 where "FILE_MAX_SIZE \<equiv> 86016"
abbreviation FILENAME_MAX_LEN :: nat where "FILENAME_MAX_LEN \<equiv> 28"
abbreviation SYMLINK_RECURSION_LIMIT :: nat where "SYMLINK_RECURSION_LIMIT \<equiv> 10"
abbreviation SLASH :: u8 where "SLASH \<equiv> 47"

definition FS_ROOT_PATH :: "u8 list" where
  "FS_ROOT_PATH = bytes_of ''~''"

datatype filetype = FT_UNALLOCATED | FT_FILE | FT_DIRECTORY | FT_SYMLINK

record inode =
  iname :: "u8 list"
  itype :: filetype
  iparent :: u32
  idata :: u32
  iblocks :: "u32 list"
  ivalid :: u16
  irefs :: u16

record fsys =
  inodes :: "inode list"
  fsbytes :: "nat \<Rightarrow> u8"

text \<open>Byte ranges of the image that are kept in \<open>fsbytes\<close>: the bitmap block and the data blocks.\<close>

definition fs_range :: "nat \<Rightarrow> nat \<Rightarrow> bool" where
  "fs_range a n \<longleftrightarrow> n = 0 \<or> a + n \<le> 4096 \<or> 36864 \<le> a \<and> a + n \<le> 524288"

section \<open>Blocks\<close>

definition alloc_block :: "fsys \<Rightarrow> u32 \<times> fsys" where
  "alloc_block fs =
     (case find (\<lambda>i. fsbytes fs (i div 8) AND push_bit (i mod 8) 1 = 0) [0..<NUM_BLOCKS] of
        Some i \<Rightarrow>
          (of_nat i, fs\<lparr>fsbytes := (fsbytes fs)(i div 8 := fsbytes fs (i div 8) OR push_bit (i mod 8) 1)\<rparr>)
      | None \<Rightarrow> (-1, fs))"

definition free_block :: "u32 \<Rightarrow> fsys \<Rightarrow> (bool \<times> fsys) kres" where
  "free_block block_idx fs =
     (let a = unat (block_idx div 8); b = push_bit (unat (block_idx mod 8)) 1
      in if \<not> fs_range a 1 then Inl OutOfBounds
         else if fsbytes fs a AND b \<noteq> 0 then Inr (False, fs)
         else Inr (True, fs\<lparr>fsbytes := (fsbytes fs)(a := fsbytes fs a AND NOT b)\<rparr>))"

section \<open>Inodes\<close>

definition upd_inode :: "nat \<Rightarrow> (inode \<Rightarrow> inode) \<Rightarrow> fsys \<Rightarrow> fsys kres" where
  "upd_inode i f fs = kbind (kget (inodes fs) i) (\<lambda>x. Inr (fs\<lparr>inodes := (inodes fs)[i := f x]\<rparr>))"

definition get_inode_at_idx :: "u32 \<Rightarrow> nat" where
  "get_inode_at_idx idx = unat idx"

definition get_index_from_inode :: "nat \<Rightarrow> u32" where
  "get_index_from_inode i = of_nat i"

definition get_root_inode :: nat where
  "get_root_inode = get_inode_at_idx 0"

definition alloc_inode :: "fsys \<Rightarrow> nat option" where
  "alloc_inode fs = find (\<lambda>i. itype (inodes fs ! i) = FT_UNALLOCATED) [0..<length (inodes fs)]"

definition free_inode :: "nat \<Rightarrow> fsys \<Rightarrow> fsys kres" where
  "free_inode i fs =
     kbind (kget (inodes fs) i) (\<lambda>x.
     kbind (if itype x = FT_FILE
            then kfold (\<lambda>k fs. kbind (kget (iblocks x) k) (\<lambda>b. kbind (free_block b fs) (\<lambda>(_, fs). Inr fs)))
                   [0..<unat ((idata x + BLOCK_SIZE - 1) div BLOCK_SIZE)] fs
            else Inr fs)
       (upd_inode i (\<lambda>x. x\<lparr>itype := FT_UNALLOCATED\<rparr>)))"

definition acquire_inode :: "nat \<Rightarrow> fsys \<Rightarrow> fsys kres" where
  "acquire_inode i = upd_inode i (\<lambda>x. x\<lparr>irefs := irefs x + 1\<rparr>)"

definition release_inode :: "nat \<Rightarrow> fsys \<times> console \<Rightarrow> (fsys \<times> console) kres" where
  "release_inode i = (\<lambda>(fs, con).
     kbind (upd_inode i (\<lambda>x. x\<lparr>irefs := irefs x - 1\<rparr>) fs) (\<lambda>fs.
     kbind (kget (inodes fs) i) (\<lambda>x.
       if ivalid x = 0 \<and> irefs x = 0 then
         kbind (free_inode i fs) (\<lambda>fs.
         kbind (kprintf (bytes_of ''delete inode %s'' @ [10]) [KStr (iname x)] con) (\<lambda>con. Inr (fs, con)))
       else Inr (fs, con))))"

function follow_symlink_loop :: "fsys \<Rightarrow> nat \<Rightarrow> nat \<Rightarrow> nat option kres" where
  "follow_symlink_loop fs link depth =
     kbind (kget (inodes fs) link) (\<lambda>x.
       if itype x = FT_SYMLINK then
         kbind (kget (inodes fs) (get_inode_at_idx (idata x))) (\<lambda>y.
           if itype y = FT_UNALLOCATED then Inr None
           else if depth + 1 > SYMLINK_RECURSION_LIMIT then Inr None
           else follow_symlink_loop fs (get_inode_at_idx (idata x)) (depth + 1))
       else Inr (Some link))"
  by pat_completeness auto
termination
  by (relation "measure (\<lambda>(fs, link, depth). 11 - depth)") auto

declare follow_symlink_loop.simps [simp del]

definition follow_symlink :: "fsys \<Rightarrow> nat \<Rightarrow> nat option kres" where
  "follow_symlink fs link = follow_symlink_loop fs link 0"

section \<open>Paths\<close>

text \<open>The search of a directory's entries for a name; running past the entry array is an error.\<close>

fun dir_search :: "fsys \<Rightarrow> u8 list \<Rightarrow> nat \<Rightarrow> u32 list \<Rightarrow> nat option kres" where
  "dir_search fs name 0 entries = Inr None"
| "dir_search fs name (Suc n) [] = Inl OutOfBounds"
| "dir_search fs name (Suc n) (e # entries) =
     kbind (kget (inodes fs) (get_inode_at_idx e)) (\<lambda>x.
       if str_cmp (iname x) name = 0 then Inr (Some (get_inode_at_idx e))
       else dir_search fs name n entries)"

text \<open>
  One component of a path, resolved in directory \<open>base\<close>; \<open>first_elem\<close> tells whether the root
  name is allowed.
\<close>

definition path_step :: "fsys \<Rightarrow> nat \<Rightarrow> inode \<Rightarrow> u8 list \<Rightarrow> bool \<Rightarrow> nat option kres" where
  "path_step fs base x cname first_elem =
     (if str_cmp cname (bytes_of ''.'') = 0 then Inr (Some base)
      else if str_cmp cname (bytes_of ''..'') = 0 then Inr (Some (get_inode_at_idx (iparent x)))
      else if str_cmp cname FS_ROOT_PATH = 0 then Inr (if first_elem then Some get_root_inode else None)
      else dir_search fs cname (unat (idata x)) (iblocks x))"

text \<open>
  The component buffer holds 28 bytes; a component of 28 characters or more makes the source
  store the NUL one byte past it.
\<close>

function get_inode_by_path_helper :: "fsys \<Rightarrow> nat option \<Rightarrow> u8 list \<Rightarrow> bool \<Rightarrow> nat option kres" where
  "get_inode_by_path_helper fs base path first_elem =
     (case base of
        None \<Rightarrow> Inr None
      | Some b \<Rightarrow>
          let path = dropWhile (\<lambda>ch. ch = SLASH) path
          in if path = [] then Inr (Some b)
             else
               kbind (follow_symlink fs b) (\<lambda>b'.
               kbind (kderef b') (\<lambda>b.
               kbind (kget (inodes fs) b) (\<lambda>x.
                 if itype x = FT_FILE then Inr None
                 else
                   let cname = take FILENAME_MAX_LEN (takeWhile (\<lambda>ch. ch \<noteq> SLASH) path)
                   in if length cname = FILENAME_MAX_LEN then Inl OutOfBounds
                      else kbind (path_step fs b x cname first_elem) (\<lambda>next.
                             get_inode_by_path_helper fs next (drop (length cname) path) False)))))"
  by pat_completeness auto
termination
proof (relation "measure (\<lambda>(fs, base, path, first_elem). length path)", goal_cases)
  case (2 fs base path first_elem b p)
  then have "p \<noteq> []" "hd p \<noteq> SLASH"
    using hd_dropWhile [of "\<lambda>ch. ch = SLASH" path] by simp_all
  then have "0 < length p" "0 < length (take FILENAME_MAX_LEN (takeWhile (\<lambda>ch. ch \<noteq> SLASH) p))"
    by (cases p; simp)+
  moreover have "length p \<le> length path" using 2(2) by (simp add: length_dropWhile_le)
  ultimately have "length (drop (length (take FILENAME_MAX_LEN (takeWhile (\<lambda>ch. ch \<noteq> SLASH) p))) p) < length path"
    unfolding length_drop by linarith
  then show ?case using 2 by simp
qed simp

declare get_inode_by_path_helper.simps [simp del]

definition get_inode_by_path :: "fsys \<Rightarrow> nat option \<Rightarrow> u8 list \<Rightarrow> nat option kres" where
  "get_inode_by_path fs base path = get_inode_by_path_helper fs base path True"

section \<open>Reading and writing file data\<close>

text \<open>The source's \<^verbatim>\<open>memcpy\<close> between the image and a buffer, byte by byte.\<close>

fun copy_to_buf :: "nat \<Rightarrow> (nat \<Rightarrow> u8) \<Rightarrow> nat \<Rightarrow> u32 \<Rightarrow> mem \<Rightarrow> mem" where
  "copy_to_buf 0 b src dst m = m"
| "copy_to_buf (Suc n) b src dst m = copy_to_buf n b (src + 1) (dst + 1) (m(dst := b src))"

fun copy_from_buf :: "nat \<Rightarrow> mem \<Rightarrow> u32 \<Rightarrow> nat \<Rightarrow> (nat \<Rightarrow> u8) \<Rightarrow> (nat \<Rightarrow> u8)" where
  "copy_from_buf 0 m src dst b = b"
| "copy_from_buf (Suc n) m src dst b = copy_from_buf n m (src + 1) (dst + 1) (b(dst := m src))"

definition move_chunk :: "bool \<Rightarrow> u32 \<Rightarrow> u32 \<Rightarrow> u32 \<Rightarrow> fsys \<times> mem \<Rightarrow> (fsys \<times> mem) kres" where
  "move_chunk is_read a buf n = (\<lambda>(fs, m).
     if \<not> fs_range (unat a) (unat n) then Inl OutOfBounds
     else if is_read then Inr (fs, copy_to_buf (unat n) (fsbytes fs) (unat a) buf m)
     else Inr (fs\<lparr>fsbytes := copy_from_buf (unat n) m buf (unat a) (fsbytes fs)\<rparr>, m))"

definition get_block_from_inode_offset :: "inode \<Rightarrow> u32 \<Rightarrow> u32 kres" where
  "get_block_from_inode_offset x off =
     (let linear_block = unat (off div BLOCK_SIZE)
      in if linear_block < NDIRECT then kget (iblocks x) linear_block else Inr 0)"

function grow_blocks :: "nat \<Rightarrow> u32 \<Rightarrow> u32 \<Rightarrow> fsys \<Rightarrow> fsys kres" where
  "grow_blocks ino unallocated_block final_block fs =
     (if unallocated_block < final_block then
        (let (b, fs) = alloc_block fs
         in kbind (kget (inodes fs) ino) (\<lambda>x.
            kbind (kset (iblocks x) (unat unallocated_block) b) (\<lambda>bs.
            kbind (upd_inode ino (\<lambda>x. x\<lparr>iblocks := bs\<rparr>) fs)
              (grow_blocks ino (unallocated_block + 1) final_block))))
      else Inr fs)"
  by pat_completeness auto
termination
  by (relation "measure (\<lambda>(ino, u, f, fs). unat f - unat u)") (auto, unat_arith)

declare grow_blocks.simps [simp del]

text \<open>The preparation of a write: the size actually written, and the file extended to hold it.\<close>

definition extend_for_write :: "nat \<Rightarrow> u32 \<Rightarrow> u32 \<Rightarrow> fsys \<Rightarrow> (u32 \<times> fsys) kres" where
  "extend_for_write ino off sz fs =
     kbind (kget (inodes fs) ino) (\<lambda>x.
       let end = off + sz
       in if end > idata x then
            let sz = (if end > FILE_MAX_SIZE then idata x - off else sz)
            in if idata x > FILE_MAX_SIZE - BLOCK_SIZE then Inr (sz, fs)
               else
                 kbind (grow_blocks ino ((idata x + BLOCK_SIZE - 1) div BLOCK_SIZE + 1)
                          ((end + BLOCK_SIZE - 1) div BLOCK_SIZE) fs) (\<lambda>fs.
                 kbind (upd_inode ino (\<lambda>x. x\<lparr>idata := end\<rparr>) fs) (\<lambda>fs. Inr (sz, fs)))
          else Inr (sz, fs))"

function fs_move_loop :: "bool \<Rightarrow> nat \<Rightarrow> u32 \<Rightarrow> u32 \<Rightarrow> u32 \<Rightarrow> u32 \<Rightarrow> u32 \<Rightarrow> fsys \<times> mem \<Rightarrow> (u32 \<times> fsys \<times> mem) kres"
where
  "fs_move_loop is_read ino buf off sz buf_offset moved s =
     kbind (kget (inodes (fst s)) ino) (\<lambda>x.
       let n = umin (umin sz BLOCK_SIZE) (idata x - off)
       in kbind (get_block_from_inode_offset x off) (\<lambda>block_index.
          kbind (move_chunk is_read (block_index * BLOCK_SIZE) (buf + buf_offset) n s) (\<lambda>s.
            if sz < BLOCK_SIZE then Inr (moved + n, s)
            else fs_move_loop is_read ino buf (off + n) (sz - BLOCK_SIZE) (buf_offset + n) (moved + n) s)))"
  by pat_completeness auto
termination
  by (relation "measure (\<lambda>(r, i, b, off, sz, bo, t, s). unat sz)") (auto, unat_arith)

declare fs_move_loop.simps [simp del]

definition fs_move_bytes :: "nat \<Rightarrow> u32 \<Rightarrow> u32 \<Rightarrow> u32 \<Rightarrow> bool \<Rightarrow> fsys \<times> mem \<Rightarrow> (u32 \<times> fsys \<times> mem) kres" where
  "fs_move_bytes ino off sz buf is_read = (\<lambda>(fs, m).
     kbind (follow_symlink fs ino) (\<lambda>ino.
     kbind (kderef ino) (\<lambda>ino.
     kbind (if is_read then Inr (sz, fs) else extend_for_write ino off sz fs) (\<lambda>(sz, fs).
     kbind (kget (inodes fs) ino) (\<lambda>x.
       let n = umin (umin sz (BLOCK_SIZE - off mod BLOCK_SIZE)) (idata x - off)
       in kbind (get_block_from_inode_offset x off) (\<lambda>first_block_index.
          kbind (move_chunk is_read (first_block_index * BLOCK_SIZE + off mod BLOCK_SIZE) buf n (fs, m)) (\<lambda>s.
            fs_move_loop is_read ino buf (off + n) (sz - n) n n s)))))))"

definition fs_read_bytes :: "nat \<Rightarrow> u32 \<Rightarrow> u32 \<Rightarrow> u32 \<Rightarrow> fsys \<times> mem \<Rightarrow> (u32 \<times> fsys \<times> mem) kres" where
  "fs_read_bytes ino off sz buf = fs_move_bytes ino off sz buf True"

definition fs_write_bytes :: "nat \<Rightarrow> u32 \<Rightarrow> u32 \<Rightarrow> u32 \<Rightarrow> fsys \<times> mem \<Rightarrow> (u32 \<times> fsys \<times> mem) kres" where
  "fs_write_bytes ino off sz buf = fs_move_bytes ino off sz buf False"

end
