(* ===== verification/FsIO.thy ===== *)
theory FsIO
  imports FsModel
begin

text \<open>
  Reading and writing the data of a file (\<^verbatim>\<open>fs_move_bytes\<close> and its helpers in
  \<^verbatim>\<open>kernel/src/fs.c\<close>) and the block bitmap. For a file whose blocks are data blocks, a read
  returns exactly the bytes of the file from the offset on, whatever blocks they lie in; a write
  inside the file changes exactly those bytes; a write followed by a read gives back what was
  written. The block bitmap lemmas show what allocation does and that \<^verbatim>\<open>free_block\<close> never
  frees, and the last section what a write past the end of a fresh file does.
\<close>

section \<open>Files\<close>

text \<open>Where byte \<open>o\<close> of a file lies in the image, and the byte.\<close>

definition file_addr :: "inode \<Rightarrow> nat \<Rightarrow> nat" where
  "file_addr x k = unat (iblocks x ! (k div 4096)) * 4096 + k mod 4096"

definition file_byte :: "fsys \<Rightarrow> inode \<Rightarrow> nat \<Rightarrow> u8" where
  "file_byte fs x k = fsbytes fs (file_addr x k)"

text \<open>A file every byte of which lies in a data block.\<close>

definition file_ok :: "inode \<Rightarrow> bool" where [wf_defs]:
  "file_ok x \<longleftrightarrow> length (iblocks x) = NDIRECT \<and> unat (idata x) \<le> 86016 \<and>
     (\<forall>k. k * 4096 < unat (idata x) \<longrightarrow> 9 \<le> unat (iblocks x ! k) \<and> unat (iblocks x ! k) < NUM_BLOCKS)"

lemma copy_to_buf_eq:
  "n \<le> 4294967296 \<Longrightarrow> copy_to_buf n b src dst m = upd_range m dst n (\<lambda>i. b (src + i))"
proof (induction n arbitrary: src dst m)
  case (Suc n)
  then show ?case using upd_range_Cons [of n m dst "\<lambda>i. b (src + i)"] by simp
qed simp

lemma copy_from_buf_eq:
  "copy_from_buf n m src dst b = (\<lambda>x. if dst \<le> x \<and> x < dst + n then m (src + of_nat (x - dst)) else b x)"
proof (induction n arbitrary: src dst b)
  case (Suc n)
  show ?case
  proof
    fix x
    show "copy_from_buf (Suc n) m src dst b x =
      (if dst \<le> x \<and> x < dst + Suc n then m (src + of_nat (x - dst)) else b x)"
    proof (cases "Suc dst \<le> x")
      case True
      then have "x - dst = Suc (x - Suc dst)" by simp
      then have "of_nat (x - dst) = (1 + of_nat (x - Suc dst) :: u32)" by (metis of_nat_Suc)
      with True Suc show ?thesis by (simp add: add.assoc)
    next
      case False
      with Suc show ?thesis by (cases "x = dst") auto
    qed
  qed
qed (auto simp: fun_eq_iff)

lemma file_block_index:
  assumes "file_ok x" "k < unat (idata x)"
  shows "k div 4096 < NDIRECT" "9 \<le> unat (iblocks x ! (k div 4096))" "unat (iblocks x ! (k div 4096)) < NUM_BLOCKS"
proof -
  have "k div 4096 * 4096 \<le> k" by simp
  with assms have "k div 4096 * 4096 < unat (idata x)" by linarith
  with assms show "9 \<le> unat (iblocks x ! (k div 4096))" "unat (iblocks x ! (k div 4096)) < NUM_BLOCKS"
    by (auto simp: wf_defs)
  show "k div 4096 < NDIRECT" using assms by (auto simp: wf_defs)
qed

lemma block_base: "unat b < 128 \<Longrightarrow> unat (b * 4096 :: u32) = unat b * 4096"
  by (simp add: unat_word_ariths)

text \<open>
  The part of a transfer inside one block: \<open>n\<close> bytes from \<open>off\<close> on that do not cross the block's
  end are \<open>n\<close> consecutive bytes of the image.
\<close>

lemma file_addr_chunk:
  assumes "i < n" "off mod 4096 + n \<le> 4096"
  shows "file_addr x (off + i) = unat (iblocks x ! (off div 4096)) * 4096 + off mod 4096 + i"
proof -
  have eq: "off + i = off div 4096 * 4096 + (off mod 4096 + i)" by simp
  have lt: "off mod 4096 + i < 4096" using assms by simp
  have "(off + i) div 4096 = off div 4096" "(off + i) mod 4096 = off mod 4096 + i"
    unfolding eq using lt by (simp_all only: div_mult_self3 mod_mult_self3 div_less mod_less)
  then show ?thesis by (simp add: file_addr_def)
qed

text \<open>
  \<open>b'\<close> is the image \<open>b\<close> in which the \<open>n\<close> bytes of the file from \<open>off\<close> on are \<open>f 0, \<dots>, f (n - 1)\<close>
  and every byte outside them is as before.
\<close>

definition wrote :: "inode \<Rightarrow> nat \<Rightarrow> nat \<Rightarrow> (nat \<Rightarrow> u8) \<Rightarrow> (nat \<Rightarrow> u8) \<Rightarrow> (nat \<Rightarrow> u8) \<Rightarrow> bool" where
  "wrote x off n f b b' \<longleftrightarrow> (\<forall>i < n. b' (file_addr x (off + i)) = f i) \<and>
     (\<forall>a. (\<forall>i < n. a \<noteq> file_addr x (off + i)) \<longrightarrow> b' a = b a)"

lemma wrote_0 [simp]: "wrote x off 0 f b b' \<longleftrightarrow> b' = b"
  by (auto simp: wrote_def)

lemma wrote_append:
  assumes "wrote x off n f b b'" "wrote x (off + n) k (\<lambda>i. f (n + i)) b' b''"
    and inj: "inj_on (file_addr x) {off..<off + (n + k)}"
  shows "wrote x off (n + k) f b b''"
  unfolding wrote_def
proof (intro conjI allI impI)
  fix i assume i: "i < n + k"
  show "b'' (file_addr x (off + i)) = f i"
  proof (cases "i < n")
    case True
    have "file_addr x (off + i) \<noteq> file_addr x (off + n + j)" if "j < k" for j
      using inj_onD [OF inj, of "off + i" "off + n + j"] that True i by auto
    then show ?thesis using assms(1,2) True by (simp add: wrote_def)
  next
    case False
    then show ?thesis using assms(2) i spec [of "\<lambda>j. j < k \<longrightarrow> b'' (file_addr x (off + n + j)) = f (n + j)" "i - n"]
      by (simp add: wrote_def)
  qed
next
  fix a assume a: "\<forall>i < n + k. a \<noteq> file_addr x (off + i)"
  have "\<forall>i < n. a \<noteq> file_addr x (off + i)" using a by simp
  moreover have "\<forall>i < k. a \<noteq> file_addr x (off + n + i)" using a by (simp add: add.assoc)
  ultimately show "b'' a = b a" using assms(1,2) by (simp add: wrote_def)
qed

lemma chunk_addr:
  fixes off n :: u32
  assumes x: "file_ok x" and n: "unat off + unat n \<le> unat (idata x)" "unat off mod 4096 + unat n \<le> 4096"
    and b: "get_block_from_inode_offset x off = Inr b"
  shows "fs_range (unat (b * 4096 + off mod 4096)) (unat n)"
    and "i < unat n \<Longrightarrow> file_addr x (unat off + i) = unat (b * 4096 + off mod 4096) + i"
proof -
  have *: "fs_range (unat (b * 4096 + off mod 4096)) (unat n) \<and>
      (0 < unat n \<longrightarrow> unat (b * 4096 + off mod 4096) = file_addr x (unat off))"
  proof (cases "unat n = 0")
    case False
    then have lt: "unat off < unat (idata x)" using n by simp
    have od: "unat (off div 4096) = unat off div 4096" "unat (off mod 4096) = unat off mod 4096"
      by (simp_all add: unat_div_distrib unat_mod_distrib)
    have bi: "b = iblocks x ! (unat off div 4096)"
      using b file_block_index(1) [OF x lt] x
      by (simp add: get_block_from_inode_offset_def od wf_defs)
    have ub: "9 \<le> unat b" "unat b < 128" using file_block_index [OF x lt] bi by auto
    then have "unat (b * 4096 + off mod 4096) = unat b * 4096 + unat off mod 4096"
      by (simp add: unat_word_ariths unat_mod_distrib)
    with ub n(2) bi show ?thesis by (simp add: fs_range_def file_addr_def)
  qed (simp add: fs_range_def)
  then show "fs_range (unat (b * 4096 + off mod 4096)) (unat n)" by blast
  show "file_addr x (unat off + i) = unat (b * 4096 + off mod 4096) + i" if "i < unat n"
    using * file_addr_chunk [OF that n(2), of x] file_addr_chunk [OF _ n(2), of 0 x] that
    by (metis add.right_neutral gr0I not_less_zero)
qed

lemma move_chunk_read:
  assumes "fs_range (unat a) (unat n)" "\<And>i. i < unat n \<Longrightarrow> file_addr x (off + i) = unat a + i"
  shows "move_chunk True a buf n (fs, m) =
      Inr (fs, upd_range m buf (unat n) (\<lambda>i. file_byte fs x (off + i)))"
proof -
  have "upd_range m buf (unat n) (\<lambda>i. fsbytes fs (unat a + i)) =
      upd_range m buf (unat n) (\<lambda>i. file_byte fs x (off + i))"
    by (rule upd_range_cong) (simp only: assms file_byte_def)
  then show ?thesis
    using assms(1) copy_to_buf_eq [OF less_imp_le [OF u32_bound [of n]]] by (simp add: move_chunk_def)
qed

lemma move_chunk_write:
  assumes "fs_range (unat a) (unat n)" "\<And>i. i < unat n \<Longrightarrow> file_addr x (off + i) = unat a + i"
  shows "\<exists>b. move_chunk False a buf n (fs, m) = Inr (fs\<lparr>fsbytes := b\<rparr>, m) \<and>
      wrote x off (unat n) (\<lambda>i. m (buf + of_nat i)) (fsbytes fs) b"
proof -
  let ?b = "copy_from_buf (unat n) m buf (unat a) (fsbytes fs)"
  have "?b p = fsbytes fs p" if "\<forall>i<unat n. p \<noteq> file_addr x (off + i)" for p
  proof -
    have "\<not> (unat a \<le> p \<and> p < unat a + unat n)"
      using that assms(2) [of "p - unat a"] by (metis le_add_diff_inverse nat_add_left_cancel_less)
    then show ?thesis by (auto simp: copy_from_buf_eq simp del: u32_bound)
  qed
  moreover have "?b (file_addr x (off + i)) = m (buf + of_nat i)" if "i < unat n" for i
    using that assms(2) [OF that] by (simp add: copy_from_buf_eq del: u32_bound)
  ultimately show ?thesis using assms(1) by (auto simp: move_chunk_def wrote_def)
qed

text \<open>
  The effect of a transfer of \<open>n\<close> bytes of a file from \<open>off\<close> on, to or from \<open>buf\<close>: a read puts the
  file's bytes into the buffer and leaves the image alone, a write puts the buffer's bytes into the
  file and leaves the buffer and all other bytes of the image alone.
\<close>

fun transferred :: "bool \<Rightarrow> inode \<Rightarrow> nat \<Rightarrow> nat \<Rightarrow> u32 \<Rightarrow> fsys \<times> mem \<Rightarrow> fsys \<times> mem \<Rightarrow> bool" where
  "transferred is_read x off n buf (fs, m) (fs', m') \<longleftrightarrow> inodes fs' = inodes fs \<and>
     (if is_read then fsbytes fs' = fsbytes fs \<and> m' = upd_range m buf n (\<lambda>i. file_byte fs x (off + i))
      else m' = m \<and> wrote x off n (\<lambda>i. m (buf + of_nat i)) (fsbytes fs) (fsbytes fs'))"

definition file_inj :: "inode \<Rightarrow> bool" where
  "file_inj x \<longleftrightarrow> inj_on (file_addr x) {..<unat (idata x)}"

lemma transferred_append:
  assumes "transferred r x off n buf s s'" "transferred r x (off + n) k (buf + of_nat n) s' s''"
    and len: "off + (n + k) \<le> unat (idata x)" and inj: "\<not> r \<longrightarrow> file_inj x"
  shows "transferred r x off (n + k) buf s s''"
proof -
  obtain fs m fs' m' fs'' m'' where s [simp]: "s = (fs, m)" "s' = (fs', m')" "s'' = (fs'', m'')"
    by (cases s; cases s'; cases s'') blast
  show ?thesis
  proof (cases r)
    case True
    have "n + k \<le> 4294967296" using len u32_bound [of "idata x"] by linarith
    then have "m'' = upd_range m buf (n + k) (\<lambda>i. file_byte fs x (off + i))"
      using assms(1,2) True upd_range_append [of n k m buf "\<lambda>i. file_byte fs x (off + i)"]
      by (auto simp: file_byte_def add.assoc intro!: upd_range_cong)
    then show ?thesis using assms(1,2) True by simp
  next
    case False
    then have "inj_on (file_addr x) {off..<off + (n + k)}"
      using inj len by (auto simp: file_inj_def intro: inj_on_subset)
    with False assms(1,2) show ?thesis
      by (auto intro: wrote_append simp: add.assoc [symmetric])
  qed
qed

lemma move_chunk_in_file:
  assumes "file_ok x" "unat off + unat n \<le> unat (idata x)" "unat off mod 4096 + unat n \<le> 4096"
    and "get_block_from_inode_offset x off = Inr b"
  shows "\<exists>s'. move_chunk r (b * 4096 + off mod 4096) buf n s = Inr s' \<and>
    transferred r x (unat off) (unat n) buf s s'"
proof -
  obtain fs m where s [simp]: "s = (fs, m)" by fastforce
  note c = chunk_addr [OF assms]
  show ?thesis
    using move_chunk_read [where x = x, OF c] move_chunk_write [where x = x, OF c, of buf fs m]
    by (cases r) auto
qed

lemma min_block_split: "(4096 :: nat) \<le> s \<Longrightarrow> min s r = min 4096 r + min (s - 4096) (r - min 4096 r)"
  by (cases "r \<le> 4096") auto

lemma get_block_total: "length (iblocks x) = NDIRECT \<Longrightarrow> \<exists>b. get_block_from_inode_offset x off = Inr b"
  by (auto simp: get_block_from_inode_offset_def Let_def)

lemma transferred_0: "transferred r x off 0 buf s s"
  by (cases s) auto

lemma transferred_inodes: "transferred r x off n buf s s' \<Longrightarrow> inodes (fst s') = inodes (fst s)"
  by (cases s; cases s') simp

lemma move_block_in_file:
  assumes x: "file_ok x" and len: "unat off + unat n \<le> unat (idata x)" "unat n \<le> 4096"
    and al: "unat off mod 4096 = 0 \<or> n = 0" and b: "get_block_from_inode_offset x off = Inr b"
  shows "\<exists>s'. move_chunk r (b * 4096) buf n s = Inr s' \<and> transferred r x (unat off) (unat n) buf s s'"
proof (cases "n = 0")
  case True
  have "move_chunk r (b * 4096) buf 0 s = Inr s" by (cases s) (simp add: move_chunk_def fs_range_def)
  with True show ?thesis by (simp add: transferred_0)
next
  case False
  with al have "unat (off mod 4096) = 0" by (simp add: unat_mod_distrib)
  then have m: "off mod 4096 = 0" by (simp add: unat_eq_zero)
  show ?thesis using move_chunk_in_file [OF x len(1) _ b, of r buf s] False al len(2) by (simp add: m)
qed

lemma fs_move_loop_ok:
  assumes "ino < length (inodes (fst s))" "inodes (fst s) ! ino = x" "file_ok x" "\<not> r \<longrightarrow> file_inj x"
    and "unat off \<le> unat (idata x)" "unat off mod 4096 = 0 \<or> off = idata x \<or> sz = 0"
  shows "\<exists>s'. fs_move_loop r ino buf off sz bo moved s = Inr (moved + umin sz (idata x - off), s') \<and>
    transferred r x (unat off) (unat (umin sz (idata x - off))) (buf + bo) s s'"
  using assms
proof (induction r ino buf off sz bo moved s rule: fs_move_loop.induct)
  case (1 r ino buf off sz bo moved s)
  define n where n: "n = umin (umin sz BLOCK_SIZE) (idata x - off)"
  have un: "unat n = min (min (unat sz) 4096) (unat (idata x) - unat off)"
    using 1(6) by (simp add: n unat_sub_le)
  obtain b where b: "get_block_from_inode_offset x off = Inr b" using get_block_total [of x off] 1(4) by (auto simp: wf_defs)
  obtain t where t: "move_chunk r (b * 4096) (buf + bo) n s = Inr t" "transferred r x (unat off) (unat n) (buf + bo) s t"
  proof -
    have "unat off + unat n \<le> unat (idata x)" "unat n \<le> 4096" using 1(6) by (simp_all add: un)
    moreover have "unat off mod 4096 = 0 \<or> n = 0" using 1(7) un by (auto simp: unat_eq_zero [symmetric])
    ultimately show ?thesis using move_block_in_file [OF 1(4) _ _ _ b, of n r "buf + bo" s] that by metis
  qed
  have step: "fs_move_loop r ino buf off sz bo moved s = (if sz < BLOCK_SIZE then Inr (moved + n, t)
      else fs_move_loop r ino buf (off + n) (sz - BLOCK_SIZE) (bo + n) (moved + n) t)"
    using 1(2,3) b t(1) by (subst fs_move_loop.simps) (simp add: n [symmetric] Let_def)
  show ?case
  proof (cases "sz < BLOCK_SIZE")
    case True
    then have "n = umin sz (idata x - off)" by (simp add: n umin_def)
    with True step t(2) show ?thesis by simp
  next
    case False
    then have sz: "4096 \<le> unat sz" by (simp add: word_less_nat_alt)
    let ?k = "umin (sz - BLOCK_SIZE) (idata x - (off + n))"
    have off: "unat (off + n) = unat off + unat n" using un 1(6) by (intro unat_add_le [of _ _ "idata x"]) simp
    have al: "unat (off + n) mod 4096 = 0 \<or> off + n = idata x \<or> sz - BLOCK_SIZE = 0"
    proof (cases "unat n = 4096")
      case True
      then have "unat off < unat (idata x)" using un by simp
      show ?thesis
      proof (cases "sz = 0")
        case False
        with 1(7) \<open>unat off < _\<close> have "unat off mod 4096 = 0" by auto
        then show ?thesis using True off by simp
      qed (use sz in simp)
    next
      case False
      then have "unat (off + n) = unat (idata x)" using un sz off 1(6) by simp
      then show ?thesis by (simp add: word_unat_eq_iff)
    qed
    have le: "unat (off + n) \<le> unat (idata x)" using off un 1(6) by simp
    have k: "unat ?k = min (unat sz - 4096) (unat (idata x) - unat (off + n))"
      using sz le by (simp add: unat_sub_le)
    have in_t: "inodes (fst t) = inodes (fst s)" by (rule transferred_inodes [OF t(2)])
    have "\<exists>s'. fs_move_loop r ino buf (off + n) (sz - BLOCK_SIZE) (bo + n) (moved + n) t =
        Inr (moved + n + ?k, s') \<and> transferred r x (unat (off + n)) (unat ?k) (buf + (bo + n)) t s'"
      using 1(2-5) le al in_t by (intro 1(1) [OF _ n b t(1) False]) simp_all
    then obtain s' where s': "fs_move_loop r ino buf (off + n) (sz - BLOCK_SIZE) (bo + n) (moved + n) t =
        Inr (moved + n + ?k, s')" "transferred r x (unat (off + n)) (unat ?k) (buf + (bo + n)) t s'" by metis
    have "unat (umin sz (idata x - off)) = unat n + unat ?k"
      using un k sz off 1(6) min_block_split [of "unat sz" "unat (idata x) - unat off"] le by (simp add: unat_sub_le)
    moreover from this have "umin sz (idata x - off) = n + ?k"
      by (metis unat_add_le word_unat_eq_iff order_refl)
    moreover have "transferred r x (unat off) (unat n + unat ?k) (buf + bo) s s'"
    proof (rule transferred_append [OF t(2)])
      show "transferred r x (unat off + unat n) (unat ?k) (buf + bo + of_nat (unat n)) t s'"
        using s'(2) off by (simp add: add.assoc)
      show "unat off + (unat n + unat ?k) \<le> unat (idata x)" using k off le by simp
    qed (rule 1(5))
    ultimately show ?thesis using step False s'(1) by (simp add: add.assoc)
  qed
qed

lemma round_up_block: "k + (4096 - k mod 4096) = 4096 * (k div 4096 + 1 :: nat)"
proof -
  have "q * 4096 + r + (4096 - r) = 4096 * (q + 1)" if "r < 4096" for q r :: nat
    using that by simp
  from this [of "k mod 4096" "k div 4096"] show ?thesis by simp
qed

text \<open>The first, possibly partial, block and the loop over the others.\<close>

lemma first_block_then_loop:
  assumes ino: "ino < length (inodes fs)" "inodes fs ! ino = x" and x: "file_ok x" "\<not> r \<longrightarrow> file_inj x"
    and off: "unat off \<le> unat (idata x)" and b: "get_block_from_inode_offset x off = Inr b"
    and n: "n = umin (umin sz (BLOCK_SIZE - off mod BLOCK_SIZE)) (idata x - off)"
  shows "\<exists>s'. kbind (move_chunk r (b * BLOCK_SIZE + off mod BLOCK_SIZE) buf n (fs, m))
        (fs_move_loop r ino buf (off + n) (sz - n) n n) = Inr (umin sz (idata x - off), s') \<and>
      transferred r x (unat off) (unat (umin sz (idata x - off))) buf (fs, m) s'"
proof -
  have um: "unat (off mod 4096) = unat off mod 4096" by (simp add: unat_mod_distrib)
  have "unat (BLOCK_SIZE - off mod BLOCK_SIZE) = 4096 - unat off mod 4096"
    using um by (subst unat_sub_le) (simp_all add: less_imp_le)
  then have un: "unat n = min (min (unat sz) (4096 - unat off mod 4096)) (unat (idata x) - unat off)"
    using off by (simp add: n unat_sub_le)
  then have len: "unat off + unat n \<le> unat (idata x)" "unat off mod 4096 + unat n \<le> 4096" "unat n \<le> unat sz"
    using off mod_less_divisor [of 4096 "unat off"] by linarith+
  obtain t where t: "move_chunk r (b * 4096 + off mod 4096) buf n (fs, m) = Inr t"
      "transferred r x (unat off) (unat n) buf (fs, m) t"
    using move_chunk_in_file [OF x(1) len(1,2) b] by metis
  have on: "unat (off + n) = unat off + unat n" by (rule unat_add_le [OF len(1)])
  have szn: "unat (sz - n) = unat sz - unat n" by (rule unat_sub_le [OF len(3)])
  have al: "unat (off + n) mod 4096 = 0 \<or> off + n = idata x \<or> sz - n = 0"
  proof -
    consider "unat n = unat sz" | "unat n = 4096 - unat off mod 4096" | "unat n = unat (idata x) - unat off"
      using un by linarith
    then show ?thesis
    proof cases
      case 2
      then have "unat (off + n) = unat off + (4096 - unat off mod 4096)" using on by simp
      also have "\<dots> mod 4096 = 0"
        by (simp add: round_up_block)
      finally show ?thesis by simp
    qed (use on szn off in \<open>simp_all add: word_unat_eq_iff\<close>)
  qed
  let ?k = "umin (sz - n) (idata x - (off + n))"
  have in_t: "inodes (fst t) = inodes fs" using transferred_inodes [OF t(2)] by simp
  obtain s' where s': "fs_move_loop r ino buf (off + n) (sz - n) n n t = Inr (n + ?k, s')"
      "transferred r x (unat (off + n)) (unat ?k) (buf + n) t s'"
    using fs_move_loop_ok [of ino t x r "off + n" "sz - n" buf n n] ino x on len(1) al in_t by (metis)
  have "unat (umin sz (idata x - off)) = unat n + unat ?k"
    using len(1,3) on szn off by (simp add: unat_sub_le)
  moreover from this have "umin sz (idata x - off) = n + ?k"
    by (metis unat_add_le word_unat_eq_iff order_refl)
  moreover have "transferred r x (unat off) (unat n + unat ?k) buf (fs, m) s'"
    by (rule transferred_append [OF t(2)]) (use s'(2) on x len(1) in \<open>simp_all add: unat_sub_le\<close>)
  ultimately show ?thesis using t(1) s'(1) by simp
qed

lemma fs_move_bytes_step:
  assumes "follow_symlink fs ino = Inr (Some i)"
    and "(if is_read then Inr (sz, fs) else extend_for_write i off sz fs) = Inr (sz', fs')"
    and "i < length (inodes fs')" "inodes fs' ! i = x" "file_ok x" "\<not> is_read \<longrightarrow> file_inj x"
    and "unat off \<le> unat (idata x)"
  shows "\<exists>s'. fs_move_bytes ino off sz buf is_read (fs, m) = Inr (umin sz' (idata x - off), s') \<and>
      transferred is_read x (unat off) (unat (umin sz' (idata x - off))) buf (fs', m) s'"
proof -
  obtain b where b: "get_block_from_inode_offset x off = Inr b"
    using get_block_total [of x off] assms(5) by (auto simp: wf_defs)
  show ?thesis
    using first_block_then_loop [OF assms(3-7) b refl, where sz = sz' and buf = buf and m = m] assms(1-4) b
    by (simp add: fs_move_bytes_def Let_def del: transferred.simps split: if_splits)
qed

lemma fs_read_bytes_ok:
  assumes "follow_symlink fs ino = Inr (Some i)" "i < length (inodes fs)" "file_ok (inodes fs ! i)"
    and "unat off \<le> unat (idata (inodes fs ! i))"
  shows "fs_read_bytes ino off sz buf (fs, m) =
    (let n = umin sz (idata (inodes fs ! i) - off)
     in Inr (n, fs, upd_range m buf (unat n) (\<lambda>k. file_byte fs (inodes fs ! i) (unat off + k))))"
proof -
  obtain s' where s': "fs_move_bytes ino off sz buf True (fs, m) = Inr (umin sz (idata (inodes fs ! i) - off), s')"
      "transferred True (inodes fs ! i) (unat off) (unat (umin sz (idata (inodes fs ! i) - off))) buf (fs, m) s'"
    using fs_move_bytes_step [of fs ino i True sz off sz fs "inodes fs ! i" buf m] assms by auto
  moreover obtain fs' m' where "s' = (fs', m')" by fastforce
  ultimately show ?thesis by (auto simp: fs_read_bytes_def Let_def)
qed

text \<open>
  The number of blocks a file's size needs. The blocks of a well-formed file are data blocks and
  no two of them are the same.
\<close>

definition file_blocks :: "inode \<Rightarrow> nat" where
  "file_blocks x = (unat (idata x) + 4095) div 4096"

definition file_wf :: "inode \<Rightarrow> bool" where
  "file_wf x \<longleftrightarrow> file_ok x \<and> distinct (take (file_blocks x) (iblocks x))"

lemma file_blocks_le: "file_ok x \<Longrightarrow> file_blocks x \<le> NDIRECT"
  by (auto simp: file_blocks_def wf_defs)

lemma div_less_file_blocks: "k < unat (idata x) \<Longrightarrow> k div 4096 < file_blocks x"
  unfolding file_blocks_def by (simp add: less_eq_div_iff_mult_less_eq Suc_le_eq [symmetric])

lemma file_wf_inj: "file_wf x \<Longrightarrow> file_inj x"
  unfolding file_inj_def
proof (rule inj_onI)
  fix k l assume x: "file_wf x" and k: "k \<in> {..<unat (idata x)}" "l \<in> {..<unat (idata x)}"
    and eq: "file_addr x k = file_addr x l"
  let ?b = "\<lambda>k. iblocks x ! (k div 4096)"
  have "unat (?b k) = file_addr x k div 4096" "k mod 4096 = file_addr x k mod 4096" for k
    by (simp_all add: file_addr_def)
  with eq have b: "?b k = ?b l" and m: "k mod 4096 = l mod 4096" by (metis word_unat_eq_iff)+
  have "k div 4096 < file_blocks x" "l div 4096 < file_blocks x" "file_blocks x \<le> length (iblocks x)"
    using k div_less_file_blocks x file_blocks_le by (auto simp: file_wf_def file_ok_def)
  with b x have "k div 4096 = l div 4096"
    by (auto simp: file_wf_def distinct_conv_nth)
  with m show "k = l" by (metis div_mult_mod_eq)
qed

lemma unat_round_up_block:
  "unat w \<le> 86016 \<Longrightarrow> unat ((w + BLOCK_SIZE - 1) div BLOCK_SIZE) = (unat w + 4095) div 4096"
proof -
  assume "unat w \<le> 86016"
  then have "unat (w + 4095) = unat w + 4095" by (simp add: unat_word_ariths)
  moreover have "w + BLOCK_SIZE - 1 = w + 4095" by simp
  ultimately show ?thesis by (simp only: unat_div_distrib) simp
qed

lemma extend_for_write_ok:
  assumes "i < length (inodes fs)" "x = inodes fs ! i" "file_ok x" "unat off + unat sz \<le> 4096 * file_blocks x"
    and "unat off + unat sz \<le> unat (idata x) \<or> unat (idata x) \<le> 81920"
  shows "extend_for_write i off sz fs =
    Inr (sz, fs\<lparr>inodes := (inodes fs)[i := x\<lparr>idata := umax (idata x) (off + sz)\<rparr>]\<rparr>)"
proof -
  have "file_blocks x \<le> 21" using file_blocks_le [OF assms(3)] .
  then have le: "unat off + unat sz \<le> 86016" using assms(4) by linarith
  then have e: "unat (off + sz) = unat off + unat sz" by (simp add: unat_word_ariths)
  show ?thesis
  proof (cases "off + sz > idata x")
    case False
    then have "umax (idata x) (off + sz) = idata x" by (auto simp: umax_def)
    with False show ?thesis using assms(1,2) by (simp add: extend_for_write_def)
  next
    case True
    then have sz: "unat (idata x) \<le> 81920" using assms(5) e by (simp add: word_less_nat_alt)
    have "\<not> ((idata x + BLOCK_SIZE - 1) div BLOCK_SIZE + 1 < (off + sz + BLOCK_SIZE - 1) div BLOCK_SIZE)"
    proof -
      have "unat ((idata x + BLOCK_SIZE - 1) div BLOCK_SIZE + 1) = file_blocks x + 1"
        using unat_round_up_block [of "idata x"] sz by (simp add: unat_word_ariths file_blocks_def)
      moreover have "unat ((off + sz + BLOCK_SIZE - 1) div BLOCK_SIZE) \<le> file_blocks x"
        using unat_round_up_block [of "off + sz"] e le assms(4) by simp
      ultimately show ?thesis by (simp add: word_less_nat_alt)
    qed
    then show ?thesis using True sz e le assms(1,2)
      by (simp add: extend_for_write_def umax_def word_less_nat_alt upd_inode_def grow_blocks.simps Let_def)
  qed
qed

lemma less_file_blocks: "k < file_blocks x \<longleftrightarrow> k * 4096 < unat (idata x)"
  by (auto simp: file_blocks_def less_eq_div_iff_mult_less_eq Suc_le_eq [symmetric])

lemma file_ok_grow:
  assumes "file_ok x" "unat e \<le> 4096 * file_blocks x"
  shows "file_ok (x\<lparr>idata := umax (idata x) e\<rparr>)"
    and "file_blocks (x\<lparr>idata := umax (idata x) e\<rparr>) = file_blocks x"
proof -
  have le: "max (unat (idata x)) (unat e) \<le> 4096 * file_blocks x"
    using assms(2) less_file_blocks [of "file_blocks x" x] by (simp add: mult.commute)
  have "k < file_blocks x" if "k * 4096 < max (unat (idata x)) (unat e)" for k
    using that le by linarith
  then have *: "k < file_blocks x \<longleftrightarrow> k * 4096 < max (unat (idata x)) (unat e)" for k
    using less_file_blocks [of k x] by auto
  then show "file_blocks (x\<lparr>idata := umax (idata x) e\<rparr>) = file_blocks x"
    using less_file_blocks [of _ "x\<lparr>idata := umax (idata x) e\<rparr>"] by (simp add: nat_neq_iff) (metis less_irrefl_nat linorder_neqE_nat)
  have "4096 * file_blocks x \<le> 86016" using file_blocks_le [OF assms(1)] by linarith
  then show "file_ok (x\<lparr>idata := umax (idata x) e\<rparr>)"
    using assms(1) le * less_file_blocks [of _ x] by (auto simp: wf_defs)
qed

lemma file_wf_grow:
  assumes "file_wf x" "unat off + unat sz \<le> 4096 * file_blocks x"
  shows "file_wf (x\<lparr>idata := umax (idata x) (off + sz)\<rparr>)"
    and "umin sz (idata (x\<lparr>idata := umax (idata x) (off + sz)\<rparr>) - off) = sz"
proof -
  have ok: "file_ok x" using assms(1) by (simp add: file_wf_def)
  then have "unat off + unat sz \<le> 86016" using assms(2) file_blocks_le [OF ok] by linarith
  then have e: "unat (off + sz) = unat off + unat sz" by (simp add: unat_word_ariths)
  then show "file_wf (x\<lparr>idata := umax (idata x) (off + sz)\<rparr>)"
    using assms file_ok_grow [OF ok, of "off + sz"] by (simp add: file_wf_def)
  show "umin sz (idata (x\<lparr>idata := umax (idata x) (off + sz)\<rparr>) - off) = sz"
    using e by (simp add: word_unat_eq_iff unat_sub_le)
qed

lemma fs_write_bytes_ok:
  assumes "follow_symlink fs ino = Inr (Some i)" "i < length (inodes fs)" "x = inodes fs ! i" "file_wf x"
    and "unat off \<le> unat (idata x)" "unat off + unat sz \<le> 4096 * file_blocks x"
    and "unat off + unat sz \<le> unat (idata x) \<or> unat (idata x) \<le> 81920"
  shows "\<exists>b. fs_write_bytes ino off sz buf (fs, m) =
      Inr (sz, fs\<lparr>inodes := (inodes fs)[i := x\<lparr>idata := umax (idata x) (off + sz)\<rparr>], fsbytes := b\<rparr>, m) \<and>
    wrote x (unat off) (unat sz) (\<lambda>k. m (buf + of_nat k)) (fsbytes fs) b"
proof -
  let ?x = "x\<lparr>idata := umax (idata x) (off + sz)\<rparr>" and ?fs = "fs\<lparr>inodes := (inodes fs)[i := x\<lparr>idata := umax (idata x) (off + sz)\<rparr>]\<rparr>"
  have ok: "file_ok x" using assms(4) by (simp add: file_wf_def)
  have ex: "extend_for_write i off sz fs = Inr (sz, ?fs)"
    using extend_for_write_ok [OF assms(2,3) ok assms(6,7)] .
  note wf = file_wf_grow(1) [OF assms(4,6)] and um = file_wf_grow(2) [OF assms(4,6)]
  have "unat off \<le> unat (idata ?x)" using assms(5) by (auto simp: umax_def word_less_nat_alt)
  then obtain s' where s': "fs_move_bytes ino off sz buf False (fs, m) = Inr (umin sz (idata ?x - off), s')"
      "transferred False ?x (unat off) (unat (umin sz (idata ?x - off))) buf (?fs, m) s'"
    using fs_move_bytes_step [of fs ino i False sz off sz ?fs ?x buf m] assms(1,2) ex wf file_wf_inj [OF wf]
    by (auto simp: file_wf_def)
  moreover obtain fs' m' where "s' = (fs', m')" by fastforce
  moreover have "wrote ?x = wrote x" by (intro ext) (simp add: wrote_def file_addr_def)
  ultimately show ?thesis
    unfolding um fs_write_bytes_def by (intro exI [of _ "fsbytes fs'"]) simp
qed

section \<open>The block bitmap\<close>

definition block_used :: "fsys \<Rightarrow> nat \<Rightarrow> bool" where
  "block_used fs i \<longleftrightarrow> bit (fsbytes fs (i div 8)) (i mod 8)"

lemma byte_bit_clear: "k < 8 \<Longrightarrow> (x AND 2 ^ k = 0) \<longleftrightarrow> \<not> bit (x :: u8) k"
  by (auto simp: bit_eq_iff [where a = "x AND 2 ^ k"] bit_and_iff bit_exp_iff)

lemma block_used_test: "(fsbytes fs (i div 8) AND 2 ^ (i mod 8) = 0) \<longleftrightarrow> \<not> block_used fs i"
  by (simp add: byte_bit_clear block_used_def)

lemma block_used_set:
  "block_used (fs\<lparr>fsbytes := (fsbytes fs)(i div 8 := fsbytes fs (i div 8) OR 2 ^ (i mod 8))\<rparr>) j
     \<longleftrightarrow> j = i \<or> block_used fs j"
proof -
  have "j div 8 = i div 8 \<and> j mod 8 = i mod 8 \<longleftrightarrow> j = i" by (metis div_mult_mod_eq)
  then show ?thesis
    by (auto simp: block_used_def bit_or_iff bit_exp_iff)
qed

text \<open>
  \<^verbatim>\<open>alloc_block\<close> returns the first block that is free in the bitmap and marks exactly that
  block; when all 128 blocks are used it returns -1 and changes nothing.
\<close>

theorem alloc_block_correct:
  "(case alloc_block fs of (b, fs') \<Rightarrow>
     if \<forall>i < NUM_BLOCKS. block_used fs i then b = -1 \<and> fs' = fs
     else unat b < NUM_BLOCKS \<and> \<not> block_used fs (unat b) \<and> (\<forall>i < unat b. block_used fs i) \<and>
       inodes fs' = inodes fs \<and> (\<forall>j. block_used fs' j \<longleftrightarrow> j = unat b \<or> block_used fs j))"
proof (cases "\<forall>i < NUM_BLOCKS. block_used fs i")
  case True
  then have "find (\<lambda>i. \<not> block_used fs i) [0..<NUM_BLOCKS] = None" by (simp add: find_None_iff)
  with True show ?thesis by (simp add: alloc_block_def block_used_test)
next
  case False
  then obtain i where i: "find (\<lambda>i. \<not> block_used fs i) [0..<NUM_BLOCKS] = Some i"
    by (cases "find (\<lambda>i. \<not> block_used fs i) [0..<NUM_BLOCKS]") (auto simp: find_None_iff)
  then have "i < NUM_BLOCKS" "\<not> block_used fs i" "\<forall>j < i. block_used fs j"
    by (auto simp: find_Some_iff)
  with i False show ?thesis by (auto simp: alloc_block_def block_used_test block_used_set)
qed

theorem alloc_block_correct_witness:
  "case alloc_block \<lparr>inodes = [], fsbytes = (\<lambda>_. 0)\<rparr> of (b, fs') \<Rightarrow>
     unat b < NUM_BLOCKS \<and> inodes fs' = [] \<and> block_used fs' (unat b)"
proof -
  have "\<not> block_used \<lparr>inodes = [], fsbytes = (\<lambda>_. 0)\<rparr> 0" by (simp add: block_used_def)
  then have "\<not> (\<forall>i < NUM_BLOCKS. block_used \<lparr>inodes = [], fsbytes = (\<lambda>_. 0)\<rparr> i)"
    by (metis zero_less_numeral)
  then show ?thesis
    using alloc_block_correct [of "\<lparr>inodes = [], fsbytes = (\<lambda>_. 0)\<rparr>"] by (simp only: if_False split: prod.splits) simp
qed

text \<open>
  \<^verbatim>\<open>free_block\<close> never frees a block: whatever the block, its result is the file system as it
  was, and it reports failure exactly when the block was in use. Blocks of deleted files therefore
  stay marked as used.
\<close>

theorem free_block_never_frees:
  assumes "unat block_idx < NUM_BLOCKS"
  shows "free_block block_idx fs = Inr (\<not> block_used fs (unat block_idx), fs)"
proof -
  have u: "unat (block_idx div 8) = unat block_idx div 8" "unat (block_idx mod 8) = unat block_idx mod 8"
    by (simp_all add: unat_div_distrib unat_mod_distrib)
  have r: "fs_range (unat block_idx div 8) 1" using assms div_le_dividend [of "unat block_idx" 8] unfolding fs_range_def by linarith
  have "fsbytes fs (unat block_idx div 8) AND NOT (push_bit (unat block_idx mod 8) 1) = fsbytes fs (unat block_idx div 8)"
    if "\<not> block_used fs (unat block_idx)"
    using that by (auto intro!: bit_word_eqI simp: block_used_def bit_and_iff bit_not_iff bit_exp_iff)
  then show ?thesis using r by (simp add: free_block_def u block_used_test Let_def)
qed

theorem free_block_never_frees_witness:
  "free_block 9 \<lparr>inodes = [], fsbytes = (\<lambda>_. 255)\<rparr> = Inr (False, \<lparr>inodes = [], fsbytes = (\<lambda>_. 255)\<rparr>)"
  using free_block_never_frees [of 9 "\<lparr>inodes = [], fsbytes = (\<lambda>_. 255)\<rparr>"]
  by (simp add: block_used_def bit_iff_odd)

section \<open>Properties of reads and writes\<close>


text \<open>
  C2: Writing \<open>sz\<close> bytes into a well-formed file, inside it or over its end but inside the blocks
  it already has, returns \<open>sz\<close>, unless the write makes a file longer that has more than 81920 bytes, all its 21 blocks
  (see \<open>last_block_not_extended\<close> for those); the file becomes as long as the write needs and keeps its blocks; a
  read of the same range into any buffer then gives back the bytes written; every byte of the file
  outside the range and every byte of the image outside the file is unchanged.
\<close>

theorem fs_write_read_roundtrip:
  assumes "follow_symlink fs ino = Inr (Some i)" "i < length (inodes fs)" "x = inodes fs ! i" "file_wf x"
    and "itype x = FT_FILE" "unat off \<le> unat (idata x)" "unat off + unat sz \<le> 4096 * file_blocks x"
    and "unat off + unat sz \<le> unat (idata x) \<or> unat (idata x) \<le> 81920"
  shows "\<exists>fs' x'. fs_write_bytes ino off sz buf (fs, m) = Inr (sz, fs', m) \<and>
    inodes fs' = (inodes fs)[i := x'] \<and> x' = x\<lparr>idata := umax (idata x) (off + sz)\<rparr> \<and> file_wf x' \<and>
    fs_read_bytes i off sz buf' (fs', m) = Inr (sz, fs', upd_range m buf' (unat sz) (\<lambda>k. m (buf + of_nat k))) \<and>
    (\<forall>a. (\<forall>k < unat sz. a \<noteq> file_addr x (unat off + k)) \<longrightarrow> fsbytes fs' a = fsbytes fs a)"
proof -
  let ?x = "x\<lparr>idata := umax (idata x) (off + sz)\<rparr>"
  obtain b where b: "fs_write_bytes ino off sz buf (fs, m) = Inr (sz, fs\<lparr>inodes := (inodes fs)[i := ?x], fsbytes := b\<rparr>, m)"
    and w: "wrote x (unat off) (unat sz) (\<lambda>k. m (buf + of_nat k)) (fsbytes fs) b"
    using fs_write_bytes_ok [OF assms(1-4,6-8)] by metis
  let ?fs = "fs\<lparr>inodes := (inodes fs)[i := ?x], fsbytes := b\<rparr>"
  have wf: "file_wf ?x" by (rule file_wf_grow(1) [OF assms(4,7)])
  have um: "umin sz (idata ?x - off) = sz"
    by (rule file_wf_grow(2) [OF assms(4,7)])
  have "follow_symlink ?fs i = Inr (Some i)"
    using assms(2,5) by (simp add: follow_symlink_def follow_symlink_loop.simps)
  moreover have "unat off \<le> unat (idata ?x)" using assms(6) by simp
  moreover have "upd_range m buf' (unat sz) (\<lambda>k. file_byte ?fs ?x (unat off + k)) =
      upd_range m buf' (unat sz) (\<lambda>k. m (buf + of_nat k))"
    by (rule upd_range_cong) (use w in \<open>simp add: wrote_def file_byte_def file_addr_def\<close>)
  ultimately have "fs_read_bytes i off sz buf' (?fs, m) =
      Inr (sz, ?fs, upd_range m buf' (unat sz) (\<lambda>k. m (buf + of_nat k)))"
    using fs_read_bytes_ok [of ?fs i i off sz buf' m] assms(2) wf um by (simp add: file_wf_def del: unat_umin)
  with b wf w show ?thesis by (intro exI [of _ ?fs] exI [of _ ?x]) (simp add: wrote_def)
qed

text \<open>A file of 6000 bytes in blocks 12 and 9, for the witnesses.\<close>

definition sample_file :: inode where
  "sample_file = \<lparr>iname = bytes_of ''f'', itype = FT_FILE, iparent = 0, idata = 6000,
     iblocks = 12 # 9 # replicate 19 0, ivalid = 1, irefs = 0\<rparr>"

definition sample_fs :: fsys where
  "sample_fs = \<lparr>inodes = [sample_file], fsbytes = (\<lambda>a. of_nat a)\<rparr>"

lemma sample_file_wf: "file_wf sample_file" "file_blocks sample_file = 2" "file_ok sample_file"
proof -
  have *: "k * 4096 < 6000 \<longleftrightarrow> k = 0 \<or> k = 1" for k :: nat by auto
  show "file_blocks sample_file = 2" by (simp add: file_blocks_def sample_file_def)
  moreover show "file_ok sample_file" by (auto simp: wf_defs sample_file_def * nth_Cons')
  ultimately show "file_wf sample_file" by (simp add: file_wf_def sample_file_def)
qed

lemma sample_fs_follow: "follow_symlink sample_fs 0 = Inr (Some 0)"
  by (simp add: follow_symlink_def follow_symlink_loop.simps sample_fs_def sample_file_def)

lemmas sample_fs_simps = sample_file_wf sample_fs_follow sample_fs_def sample_file_def [THEN arg_cong, of idata, simplified]
  sample_file_def [THEN arg_cong, of itype, simplified]


theorem fs_write_read_roundtrip_witness:
  "\<exists>fs' x'. fs_write_bytes 0 5900 200 1000 (sample_fs, \<lambda>a. ucast a) = Inr (200, fs', \<lambda>a. ucast a) \<and>
    inodes fs' = [x'] \<and> x' = sample_file\<lparr>idata := 6100\<rparr> \<and>
    fs_read_bytes 0 5900 200 3000 (fs', \<lambda>a. ucast a) =
      Inr (200, fs', upd_range (\<lambda>a. ucast a) 3000 200 (\<lambda>k. ucast (1000 + of_nat k :: u32)))"
proof -
  have "umax (idata sample_file) (5900 + 200) = 6100" by (simp add: sample_fs_simps umax_def)
  then show ?thesis
    using fs_write_read_roundtrip [OF sample_fs_follow, of sample_file 5900 200 1000 "\<lambda>a. ucast a" 3000]
    by (auto simp: sample_fs_simps)
qed

text \<open>
  A file of more than 20 blocks has all its blocks, and a write over its end, which would fit the last of them, does not make it longer: only
  the bytes up to the old end are written, and their number is returned.
\<close>

theorem last_block_not_extended:
  assumes "follow_symlink fs ino = Inr (Some i)" "i < length (inodes fs)" "x = inodes fs ! i" "file_wf x"
    and "81920 < unat (idata x)" "unat off \<le> unat (idata x)" "unat (idata x) < unat off + unat sz" "unat off + unat sz \<le> 86016"
  shows "\<exists>b. fs_write_bytes ino off sz buf (fs, m) = Inr (idata x - off, fs\<lparr>fsbytes := b\<rparr>, m) \<and>
    wrote x (unat off) (unat (idata x) - unat off) (\<lambda>k. m (buf + of_nat k)) (fsbytes fs) b"
proof -
  have e: "unat (off + sz) = unat off + unat sz" using assms(8) by (simp add: unat_word_ariths)
  have ex: "extend_for_write i off sz fs = Inr (sz, fs)"
    using assms(2,3,5,7,8) e by (simp add: extend_for_write_def Let_def word_less_nat_alt)
  have n: "umin sz (idata x - off) = idata x - off" "unat (idata x - off) = unat (idata x) - unat off"
    using assms(6,7) by (auto simp: umin_def word_less_nat_alt unat_sub_le)
  obtain s' where s': "fs_move_bytes ino off sz buf False (fs, m) = Inr (umin sz (idata x - off), s')"
      "transferred False x (unat off) (unat (umin sz (idata x - off))) buf (fs, m) s'"
    using fs_move_bytes_step [of fs ino i False sz off sz fs x buf m] assms(1-4,6) ex file_wf_inj [OF assms(4)]
    by (auto simp: file_wf_def)
  moreover obtain fs' m' where "s' = (fs', m')" by fastforce
  ultimately show ?thesis
    unfolding n fs_write_bytes_def by (intro exI [of _ "fsbytes fs'"]) simp
qed

text \<open>
  C37: A first write of at most one block (4096 bytes) to a file whose inode has never held data (size 0, block list all zero) allocates no block:
  the data goes to block 0, the block bitmap, whose bytes it replaces; the file's block list stays
  zero.
\<close>

theorem fresh_write_hits_bitmap:
  assumes "i < length (inodes fs)" "x = inodes fs ! i" "itype x = FT_FILE" "idata x = 0"
    and "iblocks x = replicate NDIRECT 0" "0 < unat sz" "unat sz \<le> 4096"
  shows "fs_write_bytes i 0 sz buf (fs, m) =
    Inr (sz, fs\<lparr>inodes := (inodes fs)[i := x\<lparr>idata := sz\<rparr>],
                fsbytes := (\<lambda>a. if a < unat sz then m (buf + of_nat a) else fsbytes fs a)\<rparr>, m)"
proof -
  have "unat ((sz + BLOCK_SIZE - 1) div BLOCK_SIZE) \<le> 1"
    using unat_round_up_block [of sz] assms(7) by simp
  then have "grow_blocks i ((0 + BLOCK_SIZE - 1) div BLOCK_SIZE + 1) ((sz + BLOCK_SIZE - 1) div BLOCK_SIZE) fs = Inr fs"
    by (subst grow_blocks.simps) (simp add: word_less_nat_alt)
  then have ext: "extend_for_write i 0 sz fs = Inr (sz, fs\<lparr>inodes := (inodes fs)[i := x\<lparr>idata := sz\<rparr>]\<rparr>)"
    using assms(1-4,6,7) by (simp add: extend_for_write_def Let_def upd_inode_def word_less_nat_alt)
  let ?fs = "fs\<lparr>inodes := (inodes fs)[i := x\<lparr>idata := sz\<rparr>]\<rparr>"
  let ?b = "\<lambda>a. if a < unat sz then m (buf + of_nat a) else fsbytes fs a"
  have n: "umin (umin sz BLOCK_SIZE) sz = sz" using assms(7) by (simp add: word_unat_eq_iff)
  have blk: "get_block_from_inode_offset (x\<lparr>idata := sz\<rparr>) off = Inr 0" for off
    using assms(5) by (simp add: get_block_from_inode_offset_def Let_def)
  have chunk: "move_chunk False 0 buf sz (?fs, m) = Inr (?fs\<lparr>fsbytes := ?b\<rparr>, m)"
    using assms(7) by (simp add: move_chunk_def fs_range_def copy_from_buf_eq cong: if_cong)
  have "fs_move_loop False i buf sz 0 sz sz (?fs\<lparr>fsbytes := ?b\<rparr>, m) = Inr (sz, ?fs\<lparr>fsbytes := ?b\<rparr>, m)"
    using assms(1) blk by (subst fs_move_loop.simps) (simp add: move_chunk_def fs_range_def umin_def)
  moreover have "follow_symlink fs i = Inr (Some i)"
    using assms(1-3) by (simp add: follow_symlink_def follow_symlink_loop.simps)
  ultimately show ?thesis
    using assms(1) ext n blk chunk by (simp add: fs_write_bytes_def fs_move_bytes_def Let_def)
qed

theorem fresh_write_hits_bitmap_witness:
  "fs_write_bytes 0 0 2 1000 (\<lparr>inodes = [sample_file\<lparr>idata := 0, iblocks := replicate NDIRECT 0\<rparr>], fsbytes = (\<lambda>_. 255)\<rparr>, \<lambda>_. 65) =
    Inr (2, \<lparr>inodes = [sample_file\<lparr>idata := 2, iblocks := replicate NDIRECT 0\<rparr>],
             fsbytes = (\<lambda>a. if a < 2 then 65 else 255)\<rparr>, \<lambda>_. 65)"
  using fresh_write_hits_bitmap [of 0 "\<lparr>inodes = [sample_file\<lparr>idata := 0, iblocks := replicate NDIRECT 0\<rparr>], fsbytes = (\<lambda>_. 255)\<rparr>"
      "sample_file\<lparr>idata := 0, iblocks := replicate NDIRECT 0\<rparr>" 2 1000 "\<lambda>_. 65"]
  by (simp add: sample_fs_simps cong: if_cong)

end
