(* ===== verification/KPost.thy ===== *)
theory KPost
  imports Prelude
begin

text \<open>
  Partial correctness of kernel code: \<open>kpost m Q\<close> says that \<open>Q\<close> holds of the result of \<open>m\<close> if it has one.
  The rules of the collection \<open>kpost_rules\<close> take a piece of code apart, one for each construct and, in the theories of the
  invariant, one for each operation it calls; \<open>intro kpost_rules\<close> leaves the conditions on the states in between.
\<close>

named_theorems kpost_rules "postconditions of kernel code"

definition kpost :: "'a kres \<Rightarrow> ('a \<Rightarrow> bool) \<Rightarrow> bool" where
  "kpost m Q \<longleftrightarrow> (\<forall>x. m = Inr x \<longrightarrow> Q x)"

lemma kpostI: "(\<And>x. m = Inr x \<Longrightarrow> Q x) \<Longrightarrow> kpost m Q"
  by (simp add: kpost_def)

lemma kpostD: "kpost m Q \<Longrightarrow> m = Inr x \<Longrightarrow> Q x"
  by (simp add: kpost_def)

lemma kpost_mono: "kpost m P \<Longrightarrow> (\<And>x. P x \<Longrightarrow> Q x) \<Longrightarrow> kpost m Q"
  by (simp add: kpost_def)

lemma kpost_Inr [kpost_rules]: "Q x \<Longrightarrow> kpost (Inr x) Q"
  by (simp add: kpost_def)

lemma kpost_Inl [kpost_rules]: "kpost (Inl e) Q"
  by (simp add: kpost_def)

lemma kpost_bind [kpost_rules]: "kpost m (\<lambda>x. kpost (f x) Q) \<Longrightarrow> kpost (kbind m f) Q"
  by (auto simp: kpost_def elim!: kbindE)

lemma kpost_if [kpost_rules]: "(b \<Longrightarrow> kpost m Q) \<Longrightarrow> (\<not> b \<Longrightarrow> kpost m' Q) \<Longrightarrow> kpost (if b then m else m') Q"
  by simp

lemma kpost_Let [kpost_rules]: "kpost (f x) Q \<Longrightarrow> kpost (Let x f) Q"
  by (simp add: Let_def)

lemma kpost_prod [kpost_rules]: "(\<And>a b. p = (a, b) \<Longrightarrow> kpost (f a b) Q) \<Longrightarrow> kpost (case p of (a, b) \<Rightarrow> f a b) Q"
  by (cases p) simp

lemma kpost_option [kpost_rules]:
  "(x = None \<Longrightarrow> kpost m Q) \<Longrightarrow> (\<And>y. x = Some y \<Longrightarrow> kpost (f y) Q) \<Longrightarrow> kpost (case x of None \<Rightarrow> m | Some y \<Rightarrow> f y) Q"
  by (cases x) simp_all

lemma kpost_list [kpost_rules]:
  "(xs = [] \<Longrightarrow> kpost m Q) \<Longrightarrow> (\<And>y ys. xs = y # ys \<Longrightarrow> kpost (f y ys) Q) \<Longrightarrow> kpost (case xs of [] \<Rightarrow> m | y # ys \<Rightarrow> f y ys) Q"
  by (cases xs) simp_all

lemma kpost_kget [kpost_rules]: "(i < length xs \<Longrightarrow> Q (xs ! i)) \<Longrightarrow> kpost (kget xs i) Q"
  by (auto simp: kpost_def kres_simps)

lemma kpost_kset [kpost_rules]: "(i < length xs \<Longrightarrow> Q (xs[i := v])) \<Longrightarrow> kpost (kset xs i v) Q"
  by (auto simp: kpost_def kres_simps)

lemma kpost_kderef [kpost_rules]: "(\<And>x. p = Some x \<Longrightarrow> Q x) \<Longrightarrow> kpost (kderef p) Q"
  by (auto simp: kpost_def kres_simps)

lemma kpost_kwait [kpost_rules]: "(\<And>x. p = Some x \<Longrightarrow> Q x) \<Longrightarrow> kpost (kwait p) Q"
  by (auto simp: kpost_def kres_simps)

text \<open>A loop with an invariant.\<close>

lemma kpost_kfold:
  assumes "P s" "\<And>x t. x \<in> set xs \<Longrightarrow> P t \<Longrightarrow> kpost (f x t) P" "\<And>t. P t \<Longrightarrow> Q t"
  shows "kpost (kfold f xs s) Q"
proof (rule kpostI)
  fix t assume "kfold f xs s = Inr t"
  then have "P t" by (rule kfold_invariant) (auto intro: assms(1) dest: kpostD [OF assms(2)])
  then show "Q t" by (rule assms(3))
qed

end
