(* ===== verification/FsPrint.thy ===== *)
theory FsPrint
  imports FsModel KPost
begin

text \<open>
  The two printers of \<^verbatim>\<open>kernel/src/fs.c\<close>, \<^verbatim>\<open>tree\<close> and \<^verbatim>\<open>ls\<close>. The recursion of \<^verbatim>\<open>tree\<close> follows whatever the directories list, which
  may be a cycle, so it has fuel: \<open>Hang\<close> is a recursion deeper than that. Both keep the cursor on the screen; for a file of the greatest
  size \<^verbatim>\<open>ls\<close> reads past the block numbers.
\<close>

section \<open>Definitions\<close>

definition tree_indent :: "nat \<Rightarrow> console \<Rightarrow> console kres" where
  "tree_indent depth con =
     (if depth > 0 then
        kbind (kfold (\<lambda>_. kprintf (bytes_of ''   '') []) [0..<depth - 1] con) (kprintf (bytes_of ''|- '') [])
      else Inr con)"

fun tree_helper :: "nat \<Rightarrow> fsys \<Rightarrow> nat option \<Rightarrow> nat \<Rightarrow> console \<Rightarrow> console kres" where
  "tree_helper 0 fs base depth con = Inl Hang"
| "tree_helper (Suc n) fs None depth con = kprintf (bytes_of ''Invalid inode'' @ [10]) [] con"
| "tree_helper (Suc n) fs (Some base) depth con =
     kbind (kget (inodes fs) base) (\<lambda>x.
     kbind (tree_indent depth con) (\<lambda>con.
       if itype x = FT_FILE then kprintf (bytes_of ''%s'' @ [10]) [KStr (iname x)] con
       else
         kbind (kprintf (bytes_of ''%s/'' @ [10]) [KStr (iname x)] con)
           (kfold (\<lambda>j con. kbind (kget (iblocks x) j) (\<lambda>e. tree_helper n fs (Some (get_inode_at_idx e)) (depth + 1) con))
              [0..<unat (idata x)])))"

definition tree :: "nat \<Rightarrow> fsys \<Rightarrow> nat option \<Rightarrow> console \<Rightarrow> console kres" where
  "tree n fs base = tree_helper n fs base 0"

definition ls_entry :: "inode \<Rightarrow> console \<Rightarrow> console kres" where
  "ls_entry x con =
     (if itype x = FT_FILE then
        kbind (kprintf (bytes_of ''F (%d bytes) %s'' @ [10]) [KNum (idata x), KStr (iname x)] con)
          (kfold (\<lambda>j con. kbind (kget (iblocks x) j) (\<lambda>b. kprintf (bytes_of ''  block %d'' @ [10]) [KNum b] con))
             [0..<unat (idata x div BLOCK_SIZE + 1)])
      else kprintf (bytes_of ''D (%d entries) %s'' @ [10]) [KNum (idata x), KStr (iname x)] con)"

definition ls :: "fsys \<Rightarrow> nat \<Rightarrow> console \<Rightarrow> console kres" where
  "ls fs base con =
     kbind (kget (inodes fs) base) (\<lambda>x.
       kfold (\<lambda>j con. kbind (kget (iblocks x) j) (\<lambda>e. kbind (kget (inodes fs) (get_inode_at_idx e)) (\<lambda>y. ls_entry y con)))
         [0..<unat (idata x)] con)"

section \<open>The cursor\<close>

lemma kpost_kprintf_cursor: "cursor_ok con \<Longrightarrow> (\<And>con'. cursor_ok con' \<Longrightarrow> Q con') \<Longrightarrow> kpost (kprintf fmt args con) Q"
  using kprintf_ok by (blast intro: kpostI)

lemma tree_indent_cursor: "cursor_ok con \<Longrightarrow> (\<And>con'. cursor_ok con' \<Longrightarrow> Q con') \<Longrightarrow> kpost (tree_indent depth con) Q"
  unfolding tree_indent_def by (intro kpost_rules kpost_kfold [where P = cursor_ok] kpost_kprintf_cursor) simp_all

lemma tree_cursor: "cursor_ok con \<Longrightarrow> kpost (tree_helper n fs base depth con) cursor_ok"
proof (induction n arbitrary: base depth con)
  case (Suc n)
  show ?case
  proof (cases base)
    case None
    show ?thesis using Suc.prems unfolding None tree_helper.simps by (intro kpost_kprintf_cursor) simp_all
  next
    case (Some b)
    show ?thesis using Suc.prems unfolding Some tree_helper.simps
      by (intro kpost_rules tree_indent_cursor kpost_kprintf_cursor kpost_kfold [where P = cursor_ok] Suc.IH) simp_all
  qed
qed (simp add: kpost_Inl)

lemma ls_entry_cursor: "cursor_ok con \<Longrightarrow> kpost (ls_entry x con) cursor_ok"
  unfolding ls_entry_def by (intro kpost_rules kpost_kprintf_cursor kpost_kfold [where P = cursor_ok]) simp_all

lemma ls_cursor: "cursor_ok con \<Longrightarrow> kpost (ls fs base con) cursor_ok"
  unfolding ls_def by (intro kpost_rules kpost_kfold [where P = cursor_ok] ls_entry_cursor) simp_all

section \<open>A full file\<close>

lemma ls_entry_full_file:
  assumes "itype x = FT_FILE" "idata x = FILE_MAX_SIZE" "length (iblocks x) = NDIRECT"
  shows "ls_entry x con \<noteq> Inr con'"
proof -
  have "[0..<22] = [0..<21] @ [21 :: nat]" by (simp add: upt_rec)
  then have "kfold (\<lambda>j con. kbind (kget (iblocks x) j) (g con)) [0..<22] c \<noteq> Inr con'" for g c
    using assms(3) by (simp only: kfold_append) (auto simp: kres_simps)
  then show ?thesis using assms(1,2) by (auto simp: ls_entry_def kres_simps)
qed

end
