(* ===== verification/PgAlloc.thy ===== *)
theory PgAlloc
  imports Prelude
begin

text \<open>
  The physical page allocator of \<^verbatim>\<open>kernel/src/pgalloc.c\<close>: a bitmap of \<open>32768\<close> words in which
  a set bit marks a free page, and a pointer that makes the search next-fit. The search loop
  of \<^verbatim>\<open>alloc_page\<close> has no exit when every word is zero; one turn around the bitmap
  (\<open>32768\<close> steps) decides it, since the loop changes nothing but the pointer, so the fuel is
  exact and running out of it is \<open>Hang\<close>. The locale \<open>page_allocator\<close> states what the page
  table code relies on, and is interpreted on the definitions below.
\<close>

section \<open>Definitions\<close>

abbreviation PAGE_FREE_MAP_ENTRIES :: nat where
  "PAGE_FREE_MAP_ENTRIES \<equiv> 32768"

record pgalloc =
  page_free_map :: "nat \<Rightarrow> u32"
  page_alloc_ptr :: u32

fun scan_free_map :: "nat \<Rightarrow> (nat \<Rightarrow> u32) \<Rightarrow> u32 \<Rightarrow> u32 option" where
  "scan_free_map 0 fm ptr = None"
| "scan_free_map (Suc fuel) fm ptr =
     (if fm (unat ptr) = 0 then scan_free_map fuel fm ((ptr + 1) mod 32768) else Some ptr)"

function first_bit :: "u32 \<Rightarrow> nat \<Rightarrow> nat option" where
  "first_bit w i =
     (if i < 32 then if w AND push_bit i 1 \<noteq> 0 then Some i else first_bit w (Suc i) else None)"
  by pat_completeness auto
termination
  by (relation "measure (\<lambda>(w, i). 32 - i)") auto

declare first_bit.simps [simp del]

definition alloc_page :: "pgalloc \<Rightarrow> (u32 \<times> pgalloc) kres" where
  "alloc_page pa =
     (case scan_free_map PAGE_FREE_MAP_ENTRIES (page_free_map pa) (page_alloc_ptr pa) of
        None \<Rightarrow> Inl Hang
      | Some ptr \<Rightarrow>
          (let w = page_free_map pa (unat ptr)
           in case first_bit w 0 of
                Some i \<Rightarrow>
                  Inr (ptr * 32 + of_nat i,
                       pa\<lparr>page_free_map := (page_free_map pa)(unat ptr := w AND NOT (push_bit i 1)),
                          page_alloc_ptr := ptr\<rparr>)
              | None \<Rightarrow> Inl Panic))"

text \<open>The boot-time variant reaches the same two variables through their physical addresses.\<close>

definition alloc_page_low :: "pgalloc \<Rightarrow> (u32 \<times> pgalloc) kres" where
  "alloc_page_low pa = alloc_page pa"

definition free_page :: "u32 \<Rightarrow> pgalloc \<Rightarrow> (bool \<times> pgalloc) kres" where
  "free_page idx pa =
     (let e = unat (idx div 32); b = push_bit (unat (idx mod 32)) 1
      in if PAGE_FREE_MAP_ENTRIES \<le> e then Inl OutOfBounds
         else if page_free_map pa e AND b \<noteq> 0 then Inr (False, pa)
         else Inr (True, pa\<lparr>page_free_map := (page_free_map pa)(e := page_free_map pa e OR b)\<rparr>))"

text \<open>The allocator's state at power-on, before the boot code marks memory as free.\<close>

definition pgalloc_init :: pgalloc where
  "pgalloc_init = \<lparr>page_free_map = (\<lambda>_. 0), page_alloc_ptr = 8\<rparr>"

section \<open>Specification\<close>

definition page_free :: "pgalloc \<Rightarrow> u32 \<Rightarrow> bool" where
  "page_free pa p \<longleftrightarrow>
     unat p < 1048576 \<and> bit (page_free_map pa (unat p div 32)) (unat p mod 32)"

definition pgalloc_wf :: "pgalloc \<Rightarrow> bool" where [wf_defs]:
  "pgalloc_wf pa \<longleftrightarrow> unat (page_alloc_ptr pa) < PAGE_FREE_MAP_ENTRIES"

text \<open>
  What a client of the page allocator may assume: a page handed out was free, is free no more,
  and nothing else changed; freeing makes exactly that page free.
\<close>

locale page_allocator =
  fixes alloc :: "'s \<Rightarrow> (u32 \<times> 's) kres"
    and free :: "u32 \<Rightarrow> 's \<Rightarrow> (bool \<times> 's) kres"
    and is_free :: "'s \<Rightarrow> u32 \<Rightarrow> bool"
    and inv :: "'s \<Rightarrow> bool"
  assumes alloc_inv: "inv s \<Longrightarrow> alloc s = Inr (p, s') \<Longrightarrow> inv s'"
    and alloc_was_free: "inv s \<Longrightarrow> alloc s = Inr (p, s') \<Longrightarrow> is_free s p"
    and alloc_takes: "inv s \<Longrightarrow> alloc s = Inr (p, s') \<Longrightarrow> is_free s' q \<longleftrightarrow> is_free s q \<and> q \<noteq> p"
    and alloc_returns: "inv s \<Longrightarrow> (\<exists>r. alloc s = Inr r) \<longleftrightarrow> (\<exists>p. is_free s p)"
    and free_inv: "inv s \<Longrightarrow> free p s = Inr (b, s') \<Longrightarrow> inv s'"
    and free_gives: "inv s \<Longrightarrow> free p s = Inr (b, s') \<Longrightarrow> is_free s' q \<longleftrightarrow> is_free s q \<or> q = p"
    and free_result: "inv s \<Longrightarrow> free p s = Inr (b, s') \<Longrightarrow> b \<longleftrightarrow> \<not> is_free s p"

text \<open>A run of allocations, as the page table code makes them.\<close>

fun alloc_pages :: "('s \<Rightarrow> (u32 \<times> 's) kres) \<Rightarrow> nat \<Rightarrow> 's \<Rightarrow> (u32 list \<times> 's) kres" where
  "alloc_pages alloc 0 s = Inr ([], s)"
| "alloc_pages alloc (Suc n) s =
     kbind (alloc s) (\<lambda>(p, s'). kbind (alloc_pages alloc n s') (\<lambda>(ps, s''). Inr (p # ps, s'')))"

context page_allocator
begin

lemma alloc_pages_spec:
  assumes "inv s" "alloc_pages alloc n s = Inr (ps, s')"
  shows "inv s' \<and> distinct ps \<and> length ps = n \<and> (\<forall>p \<in> set ps. is_free s p) \<and>
    (\<forall>q. is_free s' q \<longleftrightarrow> is_free s q \<and> q \<notin> set ps)"
  using assms
proof (induction n arbitrary: s ps)
  case 0
  then show ?case by simp
next
  case (Suc n)
  then obtain p s1 qs where p: "alloc s = Inr (p, s1)" "alloc_pages alloc n s1 = Inr (qs, s')"
    and ps: "ps = p # qs"
    by (auto simp: kres_simps)
  with Suc.prems(1) have s1: "inv s1" "is_free s p" "\<And>q. is_free s1 q \<longleftrightarrow> is_free s q \<and> q \<noteq> p"
    by (simp_all add: alloc_inv [OF Suc.prems(1) p(1)] alloc_was_free [OF Suc.prems(1) p(1)]
        alloc_takes [OF Suc.prems(1) p(1)])
  from Suc.IH [OF s1(1) p(2)] s1 ps show ?case by auto
qed

lemma alloc_then_free:
  assumes "inv s" "alloc s = Inr (p, s1)" "free p s1 = Inr (b, s2)"
  shows "b" and "is_free s2 q \<longleftrightarrow> is_free s q"
proof -
  have s1: "inv s1" using assms by (blast intro: alloc_inv)
  have *: "is_free s1 r \<longleftrightarrow> is_free s r \<and> r \<noteq> p" for r
    by (rule alloc_takes [OF assms(1,2)])
  show "b" using s1 assms(3) * free_result by blast
  show "is_free s2 q \<longleftrightarrow> is_free s q"
    using free_gives [OF s1 assms(3), of q] * alloc_was_free [OF assms(1,2)] by auto
qed

end

section \<open>Bits of a bitmap word\<close>

lemmas and_shifted_1 = and_exp_eq_0_iff_not_bit

lemma first_bit_Some:
  "first_bit w i = Some j \<Longrightarrow> i \<le> j \<and> j < 32 \<and> bit w j"
proof (induction w i rule: first_bit.induct)
  case (1 w i)
  then show ?case
    by (subst (asm) (2) first_bit.simps) (auto simp: and_shifted_1 split: if_splits)
qed

lemma first_bit_None:
  "first_bit w i = None \<Longrightarrow> i \<le> j \<Longrightarrow> j < 32 \<Longrightarrow> \<not> bit w j"
proof (induction w i rule: first_bit.induct)
  case (1 w i)
  from 1(2-) have "\<not> bit w i" "first_bit w (Suc i) = None"
    by (simp_all add: first_bit.simps [of w i] and_shifted_1 split: if_splits)
  with 1 show ?case by (cases "j = i") (auto simp: and_shifted_1)
qed

lemma first_bit_nonzero: "w \<noteq> 0 \<Longrightarrow> \<exists>j. first_bit w 0 = Some j"
proof (rule ccontr)
  assume w: "w \<noteq> 0" and "\<nexists>j. first_bit w 0 = Some j"
  then have "first_bit w 0 = None" by simp
  then have "\<not> bit w j" if "j < 32" for j using that by (auto dest: first_bit_None)
  then have "w = 0" by (intro bit_word_eqI) auto
  with w show False by simp
qed

section \<open>The search\<close>

lemma unat_next_ptr: "unat ptr < 32768 \<Longrightarrow> unat ((ptr + 1 :: u32) mod 32768) = Suc (unat ptr) mod 32768"
  by (simp add: unat_mod_distrib unat_word_ariths)

lemma scan_free_map_numeral:
  "scan_free_map (numeral k) fm ptr =
     (if fm (unat ptr) = 0 then scan_free_map (pred_numeral k) fm ((ptr + 1) mod 32768) else Some ptr)"
  by (simp add: numeral_eq_Suc)

lemma scan_Some:
  "scan_free_map fuel fm ptr = Some q \<Longrightarrow> unat ptr < 32768 \<Longrightarrow> unat q < 32768 \<and> fm (unat q) \<noteq> 0"
  by (induction fuel arbitrary: ptr) (auto simp: unat_next_ptr split: if_splits)

text \<open>With every word zero the loop runs on whatever the fuel.\<close>

lemma scan_zero: "(\<And>e. e < 32768 \<Longrightarrow> fm e = 0) \<Longrightarrow> unat ptr < 32768 \<Longrightarrow> scan_free_map fuel fm ptr = None"
  by (induction fuel arbitrary: ptr) (auto simp: unat_next_ptr)

lemma scan_None:
  "scan_free_map fuel fm ptr = None \<Longrightarrow> unat ptr < 32768 \<Longrightarrow> k < fuel \<Longrightarrow>
     fm ((unat ptr + k) mod 32768) = 0"
proof (induction fuel arbitrary: ptr k)
  case 0
  then show ?case by simp
next
  case (Suc fuel)
  then have z: "fm (unat ptr) = 0" and r: "scan_free_map fuel fm ((ptr + 1) mod 32768) = None"
    by (auto split: if_splits)
  show ?case
  proof (cases k)
    case 0
    with z Suc.prems show ?thesis by simp
  next
    case (Suc j)
    with Suc.IH [OF r, of j] Suc.prems show ?thesis
      by (simp add: unat_next_ptr mod_simps)
  qed
qed

lemma scan_None_zero:
  assumes "scan_free_map 32768 fm ptr = None" "unat ptr < 32768" "e < 32768"
  shows "fm e = 0"
proof -
  have "fm ((unat ptr + (e + 32768 - unat ptr) mod 32768) mod 32768) = 0"
    using assms by (intro scan_None) auto
  moreover have "(unat ptr + (e + 32768 - unat ptr) mod 32768) mod 32768 = e"
    using assms by (simp add: mod_simps)
  ultimately show ?thesis by simp
qed

section \<open>The operations\<close>

lemma page_index_split:
  assumes "unat (ptr :: u32) < 32768" "i < 32"
  shows "unat (ptr * 32 + of_nat i) = unat ptr * 32 + i"
    and "unat (ptr * 32 + of_nat i) div 32 = unat ptr"
    and "unat (ptr * 32 + of_nat i) mod 32 = i"
  using assms by (simp_all add: unat_word_ariths)

lemma page_index_eq:
  fixes p q :: u32
  shows "p = q \<longleftrightarrow> unat p div 32 = unat q div 32 \<and> unat p mod 32 = unat q mod 32"
  by (metis div_mult_mod_eq word_unat_eq_iff)

lemma bit_clear: "j < 32 \<Longrightarrow> bit ((w :: u32) AND NOT (2 ^ i)) j \<longleftrightarrow> bit w j \<and> j \<noteq> i"
  by (auto simp: bit_simps)

lemma bit_set: "j < 32 \<Longrightarrow> bit ((w :: u32) OR 2 ^ i) j \<longleftrightarrow> bit w j \<or> j = i"
  by (auto simp: bit_simps)

lemma alloc_page_Inr:
  assumes "pgalloc_wf pa" "alloc_page pa = Inr (p, pa')"
  obtains ptr i where
    "unat ptr < 32768" "i < 32" "bit (page_free_map pa (unat ptr)) i" "p = ptr * 32 + of_nat i"
    "pa' = pa\<lparr>page_free_map := (page_free_map pa)(unat ptr := page_free_map pa (unat ptr) AND NOT (2 ^ i)),
       page_alloc_ptr := ptr\<rparr>"
proof -
  from assms obtain ptr i where
    s: "scan_free_map 32768 (page_free_map pa) (page_alloc_ptr pa) = Some ptr"
    and i: "first_bit (page_free_map pa (unat ptr)) 0 = Some i"
    and "p = ptr * 32 + of_nat i"
    "pa' = pa\<lparr>page_free_map := (page_free_map pa)(unat ptr := page_free_map pa (unat ptr) AND NOT (2 ^ i)),
       page_alloc_ptr := ptr\<rparr>"
    by (auto simp: alloc_page_def Let_def split: option.splits)
  with scan_Some [OF s] first_bit_Some [OF i] assms(1) that show thesis
    by (auto simp: wf_defs)
qed

lemma alloc_page_laws:
  assumes "pgalloc_wf pa" "alloc_page pa = Inr (p, pa')"
  shows "pgalloc_wf pa' \<and> page_free pa p \<and> (\<forall>q. page_free pa' q \<longleftrightarrow> page_free pa q \<and> q \<noteq> p)"
proof -
  from assms obtain ptr i where *:
    "unat ptr < 32768" "i < 32" "bit (page_free_map pa (unat ptr)) i" "p = ptr * 32 + of_nat i"
    "pa' = pa\<lparr>page_free_map := (page_free_map pa)(unat ptr := page_free_map pa (unat ptr) AND NOT (2 ^ i)),
       page_alloc_ptr := ptr\<rparr>"
    by (rule alloc_page_Inr)
  note split = page_index_split [OF *(1,2), folded *(4)]
  have "page_free pa' q \<longleftrightarrow> page_free pa q \<and> q \<noteq> p" for q
    using *(1-3,5) page_index_eq [of q p] split by (auto simp: page_free_def bit_clear)
  moreover have "pgalloc_wf pa'" "page_free pa p"
    using *(1-3,5) split by (simp_all add: wf_defs page_free_def)
  ultimately show ?thesis by blast
qed

lemma alloc_page_returns:
  assumes "pgalloc_wf pa"
  shows "(\<exists>r. alloc_page pa = Inr r) \<longleftrightarrow> (\<exists>p. page_free pa p)"
    and "alloc_page pa \<noteq> Inl Panic"
    and "(\<nexists>p. page_free pa p) \<Longrightarrow> alloc_page pa = Inl Hang"
proof -
  let ?scan = "scan_free_map 32768 (page_free_map pa) (page_alloc_ptr pa)"
  have ptr: "unat (page_alloc_ptr pa) < 32768" using assms by (simp add: wf_defs)
  have ret: "\<exists>r. alloc_page pa = Inr r" if "?scan = Some q" for q
  proof -
    from scan_Some [OF that ptr] obtain j where "first_bit (page_free_map pa (unat q)) 0 = Some j"
      using first_bit_nonzero by blast
    with that show ?thesis by (auto simp: alloc_page_def)
  qed
  have none: "?scan = None \<Longrightarrow> \<not> page_free pa p" for p
    using scan_None_zero [OF _ ptr, of "page_free_map pa" "unat p div 32"]
    by (auto simp: page_free_def)
  show "(\<exists>r. alloc_page pa = Inr r) \<longleftrightarrow> (\<exists>p. page_free pa p)"
    using ret none alloc_page_laws [OF assms] by (cases ?scan) (auto simp: alloc_page_def)
  show "alloc_page pa \<noteq> Inl Panic"
    using ret by (cases ?scan) (auto simp: alloc_page_def)
  show "(\<nexists>p. page_free pa p) \<Longrightarrow> alloc_page pa = Inl Hang"
    using ret alloc_page_laws [OF assms] by (cases ?scan) (auto simp: alloc_page_def)
qed

lemma free_page_laws:
  assumes "free_page p pa = Inr (b, pa')"
  shows "page_alloc_ptr pa' = page_alloc_ptr pa"
    and "page_free pa' q \<longleftrightarrow> page_free pa q \<or> q = p"
    and "b \<longleftrightarrow> \<not> page_free pa p"
proof -
  have e: "unat (p div 32) = unat p div 32" "unat (p mod 32) = unat p mod 32"
    by (simp_all add: unat_div_distrib unat_mod_distrib)
  have lt: "unat p < 1048576"
    using assms by (auto simp: free_page_def Let_def e split: if_splits)
  show "page_alloc_ptr pa' = page_alloc_ptr pa"
    using assms by (auto simp: free_page_def Let_def split: if_splits)
  show "page_free pa' q \<longleftrightarrow> page_free pa q \<or> q = p"
    using assms lt
    by (auto simp: free_page_def Let_def e page_free_def page_index_eq [of _ p] bit_set and_shifted_1
        split: if_splits)
  show "b \<longleftrightarrow> \<not> page_free pa p"
    using assms lt by (auto simp: free_page_def Let_def e page_free_def and_shifted_1 split: if_splits)
qed

interpretation pg: page_allocator alloc_page free_page page_free pgalloc_wf
proof unfold_locales
  fix s :: pgalloc and p q :: u32 and s' :: pgalloc and b
  assume wf: "pgalloc_wf s"
  show "alloc_page s = Inr (p, s') \<Longrightarrow> pgalloc_wf s'"
    and "alloc_page s = Inr (p, s') \<Longrightarrow> page_free s p"
    and "alloc_page s = Inr (p, s') \<Longrightarrow> page_free s' q \<longleftrightarrow> page_free s q \<and> q \<noteq> p"
    using alloc_page_laws [OF wf] by blast+
  show "(\<exists>r. alloc_page s = Inr r) \<longleftrightarrow> (\<exists>p. page_free s p)"
    by (rule alloc_page_returns [OF wf])
  show "free_page p s = Inr (b, s') \<Longrightarrow> pgalloc_wf s'"
    using wf free_page_laws(1) by (simp add: wf_defs)
  show "free_page p s = Inr (b, s') \<Longrightarrow> page_free s' q \<longleftrightarrow> page_free s q \<or> q = p"
    by (rule free_page_laws)
  show "free_page p s = Inr (b, s') \<Longrightarrow> b \<longleftrightarrow> \<not> page_free s p"
    by (rule free_page_laws)
qed

section \<open>Properties\<close>

text \<open>
  C18: a run of \<open>n\<close> successful allocations hands out \<open>n\<close> different pages, all of them free
  before the run; afterwards exactly those pages have become used.
\<close>

theorem alloc_page_distinct:
  assumes "pgalloc_wf pa" "alloc_pages alloc_page n pa = Inr (ps, pa')"
  shows "distinct ps \<and> length ps = n \<and> (\<forall>p \<in> set ps. page_free pa p) \<and>
    (\<forall>q. page_free pa' q \<longleftrightarrow> page_free pa q \<and> q \<notin> set ps)"
  using pg.alloc_pages_spec [OF assms] by blast

theorem alloc_page_distinct_witness:
  "let pa = pgalloc_init\<lparr>page_free_map := (\<lambda>e. if e = 8 then 6 else 0)\<rparr>
   in \<exists>pa'. alloc_pages alloc_page 2 pa = Inr ([257, 258], pa') \<and> \<not> page_free pa' 257"
proof -
  let ?pa = "pgalloc_init\<lparr>page_free_map := (\<lambda>e. if e = 8 then 6 else 0)\<rparr>"
  let ?pa1 = "?pa\<lparr>page_free_map := (page_free_map ?pa)(8 := 4), page_alloc_ptr := 8\<rparr>"
  have a: "alloc_page ?pa = Inr (257, ?pa1)" and "\<exists>pa'. alloc_page ?pa1 = Inr (258, pa')"
    by (simp_all add: pgalloc_init_def alloc_page_def scan_free_map_numeral first_bit.simps)
  then have run: "\<exists>pa'. alloc_pages alloc_page 2 ?pa = Inr ([257, 258], pa')"
    by (auto simp: numeral_2_eq_2)
  have wf: "pgalloc_wf ?pa" by (simp add: wf_defs pgalloc_init_def)
  from run alloc_page_distinct [OF wf] show ?thesis by fastforce
qed

text \<open>
  C21: \<open>alloc_page\<close> returns exactly when some page is free. When none is, the search never ends,
  whatever the number of steps, so the panic the source has for that case is unreachable.
\<close>

theorem alloc_page_liveness:
  assumes "pgalloc_wf pa"
  shows "((\<exists>r. alloc_page pa = Inr r) \<longleftrightarrow> (\<exists>p. page_free pa p)) \<and>
    ((\<nexists>p. page_free pa p) \<longrightarrow> alloc_page pa = Inl Hang \<and>
       (\<forall>fuel. scan_free_map fuel (page_free_map pa) (page_alloc_ptr pa) = None)) \<and>
    alloc_page pa \<noteq> Inl Panic"
proof -
  have "page_free_map pa e = 0" if "\<nexists>p. page_free pa p" "e < 32768" for e
  proof (rule bit_word_eqI)
    fix i assume "i < LENGTH(32)"
    then have "unat (of_nat e * 32 + of_nat i :: u32) = e * 32 + i"
      using that by (simp add: unat_word_ariths)
    with that \<open>i < _\<close> show "bit (page_free_map pa e) i = bit 0 i"
      by (auto simp: page_free_def dest: spec [of _ "of_nat e * 32 + of_nat i"])
  qed
  then have "scan_free_map fuel (page_free_map pa) (page_alloc_ptr pa) = None"
    if "\<nexists>p. page_free pa p" for fuel
    using that assms by (intro scan_zero) (auto simp: wf_defs)
  with alloc_page_returns [OF assms] show ?thesis by blast
qed

theorem alloc_page_liveness_witness:
  "alloc_page pgalloc_init = Inl Hang \<and> (\<nexists>p. page_free pgalloc_init p)"
proof -
  have wf: "pgalloc_wf pgalloc_init" and none: "\<nexists>p. page_free pgalloc_init p"
    by (simp_all add: wf_defs pgalloc_init_def page_free_def)
  from alloc_page_liveness [OF wf] none show ?thesis by simp
qed

text \<open>
  Freeing the page just allocated succeeds and restores the set of free pages; freeing a page
  that is already free reports failure and changes nothing.
\<close>

theorem alloc_free_roundtrip:
  assumes "pgalloc_wf pa" "alloc_page pa = Inr (p, pa1)"
  shows "(\<exists>pa2. free_page p pa1 = Inr (True, pa2) \<and> (\<forall>q. page_free pa2 q \<longleftrightarrow> page_free pa q)) \<and>
    free_page p pa = Inr (False, pa)"
proof -
  have p: "page_free pa p" using alloc_page_laws [OF assms] by blast
  then have in_range: "unat (p div 32) < 32768"
    by (auto simp: page_free_def unat_div_distrib)
  then have "\<exists>r. free_page p pa1 = Inr r" by (auto simp: free_page_def Let_def)
  then obtain b pa2 where f: "free_page p pa1 = Inr (b, pa2)" by auto
  have "free_page p pa = Inr (False, pa)"
    using p in_range
    by (auto simp: free_page_def Let_def page_free_def and_shifted_1 unat_div_distrib unat_mod_distrib)
  with pg.alloc_then_free [OF assms f] f show ?thesis by auto
qed

theorem alloc_free_roundtrip_witness:
  "\<exists>pa2. free_page 257 (pgalloc_init\<lparr>page_free_map := (\<lambda>_. 0)(8 := 4)\<rparr>) = Inr (True, pa2) \<and> page_free pa2 257"
proof -
  let ?pa = "pgalloc_init\<lparr>page_free_map := (\<lambda>_. 0)(8 := 6)\<rparr>"
  let ?pa1 = "pgalloc_init\<lparr>page_free_map := (\<lambda>_. 0)(8 := 4)\<rparr>"
  have a: "alloc_page ?pa = Inr (257, ?pa1)"
    by (simp add: pgalloc_init_def alloc_page_def scan_free_map_numeral first_bit.simps)
  have wf: "pgalloc_wf ?pa" and f: "page_free ?pa 257"
    by (simp_all add: wf_defs pgalloc_init_def page_free_def bit_numeral_rec)
  from alloc_free_roundtrip [OF wf a] f show ?thesis by auto
qed

end
