(* ===== verification/Paging.thy ===== *)
theory Paging
  imports PgAlloc Console
begin

text \<open>
  Page tables (\<^verbatim>\<open>kernel/src/paging.c\<close>). Physical memory is a function from the physical address of a
  32-bit word to its value; only the words that page directories and page tables occupy matter
  here. The kernel reaches a page table by mapping it at \<^verbatim>\<open>temp_page_ptr\<close>: it stores the table's
  address in the last entry of \<^verbatim>\<open>kernel_pgtbl\<close> and accesses the words of the mapped page. When
  the entry's present bit is clear the access faults above the user half, which panics. The
  function \<open>translate\<close> is the processor's walk of a page directory, against which the page-table
  operations are specified.
\<close>

abbreviation PGSIZE :: u32 where "PGSIZE \<equiv> 0x1000"
abbreviation PGDIR_LEN :: nat where "PGDIR_LEN \<equiv> 1024"
abbreviation PTE_ADDR :: u32 where "PTE_ADDR \<equiv> 0xFFFFF000"

definition PAGE_ROUND_DOWN :: "u32 \<Rightarrow> u32" where
  "PAGE_ROUND_DOWN addr = addr AND NOT (PGSIZE - 1)"

record vm =
  vpg :: pgalloc
  pmem :: "u32 \<Rightarrow> u32"
  temp_entry :: u32
  kernel_pgdir :: u32
  kernel_id_pgtbl :: u32

section \<open>The temporary mapping\<close>

definition page_word :: "u32 \<Rightarrow> u32 \<Rightarrow> u32" where
  "page_word e i = (e AND PTE_ADDR) + 4 * i"

definition temp_map :: "u32 \<Rightarrow> vm \<Rightarrow> vm" where
  "temp_map e v = v\<lparr>temp_entry := e\<rparr>"

definition temp_read :: "u32 \<Rightarrow> vm \<Rightarrow> u32 kres" where
  "temp_read i v = (if temp_entry v AND 1 = 0 then Inl Panic else Inr (pmem v (page_word (temp_entry v) i)))"

definition temp_write :: "u32 \<Rightarrow> u32 \<Rightarrow> vm \<Rightarrow> vm kres" where
  "temp_write i w v =
     (if temp_entry v AND 1 = 0 then Inl Panic
      else Inr (v\<lparr>pmem := (pmem v)(page_word (temp_entry v) i := w)\<rparr>))"

text \<open>\<^verbatim>\<open>memcpy\<close> of the mapped page to a kernel array, from one, and \<^verbatim>\<open>memset\<close> of the page to zero.\<close>

definition temp_load :: "vm \<Rightarrow> (u32 \<Rightarrow> u32) kres" where
  "temp_load v =
     (if temp_entry v AND 1 = 0 then Inl Panic else Inr (\<lambda>i. pmem v (page_word (temp_entry v) i)))"

definition temp_store :: "(u32 \<Rightarrow> u32) \<Rightarrow> vm \<Rightarrow> vm kres" where
  "temp_store f v = kfold (\<lambda>i. temp_write (of_nat i) (f (of_nat i))) [0..<PGDIR_LEN] v"

definition temp_zero :: "vm \<Rightarrow> vm kres" where
  "temp_zero = temp_store (\<lambda>_. 0)"

definition vm_alloc :: "vm \<Rightarrow> (u32 \<times> vm) kres" where
  "vm_alloc v = kbind (alloc_page (vpg v)) (\<lambda>(p, pa). Inr (p * PGSIZE, v\<lparr>vpg := pa\<rparr>))"

definition vm_free :: "u32 \<Rightarrow> vm \<Rightarrow> vm kres" where
  "vm_free p v = kbind (free_page p (vpg v)) (\<lambda>(_, pa). Inr (v\<lparr>vpg := pa\<rparr>))"

section \<open>The processor's view\<close>

definition pd_index :: "u32 \<Rightarrow> u32" where
  "pd_index addr = drop_bit 22 addr"

definition pt_index :: "u32 \<Rightarrow> u32" where
  "pt_index addr = drop_bit 12 addr AND 0x3FF"

definition translate :: "(u32 \<Rightarrow> u32) \<Rightarrow> u32 \<Rightarrow> u32 \<Rightarrow> u32 option" where
  "translate pm cr3 addr =
     (let pde = pm (page_word cr3 (pd_index addr))
      in if pde AND 1 = 0 then None
         else let pte = pm (page_word pde (pt_index addr))
              in if pte AND 1 = 0 then None else Some ((pte AND PTE_ADDR) + (addr AND 0xFFF)))"

section \<open>Boot-time page tables\<close>

text \<open>
  The kernel's page directory and its first page table lie at the physical addresses the linker
  gives them, which are part of the state. \<open>map_framebuffer\<close> is the loop over the page tables of the
  framebuffer, \<open>fill_table\<close> the loop over one table.
\<close>

definition id_table :: "u32 \<Rightarrow> (u32 \<Rightarrow> u32) \<Rightarrow> u32 \<Rightarrow> u32" where
  "id_table pgtbl pm = fold (\<lambda>i pm. pm(pgtbl + 4 * of_nat i := ((of_nat i * PGSIZE) AND PTE_ADDR) OR 0x3)) [0..<PGDIR_LEN - 1] pm"

definition fill_table :: "u32 \<Rightarrow> u32 \<Rightarrow> (u32 \<Rightarrow> u32) \<Rightarrow> (u32 \<Rightarrow> u32)" where
  "fill_table new_page addr pm =
     fold (\<lambda>j pm. pm(new_page + 4 * of_nat j := (addr + of_nat j * PGSIZE) OR 0x3)) [0..<1024] pm"

definition map_framebuffer :: "u32 \<Rightarrow> u32 \<Rightarrow> nat \<Rightarrow> vm \<Rightarrow> vm kres" where
  "map_framebuffer pgdir addr n v =
     kfold (\<lambda>i v.
       kbind (alloc_page_low (vpg v)) (\<lambda>(p, pa).
         let new_page = p * PGSIZE;
             pm = fill_table new_page (addr + of_nat i * (1024 * PGSIZE)) (pmem v)
         in Inr (v\<lparr>vpg := pa, pmem := pm(pgdir + 4 * (drop_bit 22 0xD0000000 + of_nat i) := (new_page AND PTE_ADDR) OR 0x3)\<rparr>)))
       [0..<n] v"

definition paging_setup :: "graphics_mode \<Rightarrow> vm \<Rightarrow> vm kres" where
  "paging_setup gm v =
     (let pgdir = kernel_pgdir v; pgtbl = kernel_id_pgtbl v; pm = id_table pgtbl (pmem v);
          pgdir_entry = (pgtbl AND PTE_ADDR) OR 0x3;
          pm = pm(pgdir := pgdir_entry);
          pm = pm(pgdir + 4 * drop_bit 22 0xC0000000 := pgdir_entry);
          v = v\<lparr>pmem := pm\<rparr>
      in if gm_type gm = VGA_GRAPHICS_MODE then
           let framebuffer_bytes = gm_height gm * gm_width gm * gm_depth gm div 8;
               pgtbl_alloc_size = PGSIZE * PGSIZE div 4;
               count = (framebuffer_bytes + pgtbl_alloc_size - 1) div pgtbl_alloc_size;
               addr = PAGE_ROUND_DOWN (gm_framebuffer gm)
           in if addr < 0x100000 then Inl Panic else map_framebuffer pgdir addr (unat count) v
         else Inr v)"

end
