(* ===== verification/AddrSpace.thy ===== *)
theory AddrSpace
  imports Paging
begin

text \<open>
  Address spaces: growing and shrinking the heap (\<^verbatim>\<open>sbrk_helper\<close> of \<^verbatim>\<open>kernel/src/syscall.c\<close>) and
  releasing the user pages of a process (the first half of \<^verbatim>\<open>cleanup_proc\<close> of
  \<^verbatim>\<open>kernel/src/cleanup.c\<close>), on the page tables of \<open>Paging\<close>. A page-directory copy in a kernel array
  (\<^verbatim>\<open>sbrk_temp_pgdir\<close>, \<^verbatim>\<open>cleanup_temp_pgdir\<close>) is a function from entry index to entry. The loops
  over addresses are folds over the list of the addresses they visit.
\<close>

section \<open>Heap size\<close>

text \<open>C's signed division truncates towards zero; \<^verbatim>\<open>i32\<close> values wrap around at 32 bits.\<close>

definition tdiv :: "int \<Rightarrow> int \<Rightarrow> int" where
  "tdiv x y = (if 0 \<le> x then x div y else - ((- x) div y))"

definition round_delta :: "u32 \<Rightarrow> u32" where
  "round_delta delta = of_int (tdiv (sint (delta + PGSIZE - 1)) 4096 * 4096)"

definition sbrk_grow_page :: "u32 \<Rightarrow> (u32 \<Rightarrow> u32) \<times> vm \<Rightarrow> ((u32 \<Rightarrow> u32) \<times> vm) kres" where
  "sbrk_grow_page addr = (\<lambda>(dir, v).
     let e = dir (pd_index addr)
     in kbind
          (if e AND 1 = 0 then
             kbind (vm_alloc v) (\<lambda>(pt, v). Inr (pt, dir(pd_index addr := pt OR 7), v, True))
           else Inr (e, dir, v, False))
          (\<lambda>(pt, dir, v, new).
             let v = temp_map (pt OR 3) v
             in kbind (if new then temp_zero v else Inr v) (\<lambda>v.
                kbind (vm_alloc v) (\<lambda>(p, v).
                kbind (temp_write (pt_index addr) (p OR 7) v) (\<lambda>v. Inr (dir, v))))))"

definition sbrk_shrink_page :: "u32 \<Rightarrow> (u32 \<Rightarrow> u32) \<times> vm \<Rightarrow> ((u32 \<Rightarrow> u32) \<times> vm) kres" where
  "sbrk_shrink_page addr = (\<lambda>(dir, v).
     let e = dir (pd_index addr); v = temp_map e v
     in kbind (temp_read (pt_index addr) v) (\<lambda>page.
        kbind (vm_free (page div PGSIZE) v) (\<lambda>v.
        kbind (temp_write (pt_index addr) 0 v) (\<lambda>v.
          if addr = push_bit 22 (drop_bit 22 addr) then
            kbind (vm_free (e div PGSIZE) v) (\<lambda>v. Inr (dir(pd_index addr := 0), v))
          else Inr (dir, v)))))"

definition grow_addrs :: "u32 \<Rightarrow> u32 \<Rightarrow> u32 list" where
  "grow_addrs brk delta =
     (if brk < brk + delta then map (\<lambda>k. brk + of_nat k * PGSIZE) [0..<unat ((delta + PGSIZE - 1) div PGSIZE)] else [])"

definition shrink_addrs :: "u32 \<Rightarrow> u32 \<Rightarrow> u32 list" where
  "shrink_addrs brk delta =
     (let first = brk - PGSIZE; last = brk + delta
      in if last \<le> first then map (\<lambda>k. first - of_nat k * PGSIZE) [0..<unat ((first - last) div PGSIZE) + 1] else [])"

text \<open>
  The break of the process with page directory \<open>pgdir\<close> moves by \<open>delta\<close>, rounded; the new break.
  A shrink down to address 0 has a loop condition that always holds: the addresses wrap around
  into the kernel half, which is \<open>OutOfBounds\<close>.
\<close>

definition sbrk_helper :: "u32 \<Rightarrow> u32 \<Rightarrow> u32 \<Rightarrow> vm \<Rightarrow> (u32 \<times> vm) kres" where
  "sbrk_helper pgdir brk delta v =
     (let brk_delta = round_delta delta
      in if brk_delta = 0 then Inr (brk, v)
         else
           let v = temp_map (pgdir OR 3) v
           in kbind (temp_load v) (\<lambda>dir.
              kbind
                (if brk_delta <s 0 then
                   let brk_delta = umax brk_delta (0x80000000 - brk)
                   in kbind (kfold sbrk_shrink_page (shrink_addrs brk brk_delta) (dir, v)) (\<lambda>s.
                        if brk + brk_delta = 0 then Inl OutOfBounds else Inr (brk_delta, s))
                 else
                   kbind (kfold sbrk_grow_page (grow_addrs brk brk_delta) (dir, v)) (\<lambda>s. Inr (brk_delta, s)))
                (\<lambda>(brk_delta, dir, v).
                   kbind (temp_store dir (temp_map (pgdir OR 3) v)) (\<lambda>v. Inr (brk + brk_delta, v)))))"

section \<open>Releasing user pages\<close>

definition cleanup_table :: "(u32 \<Rightarrow> u32) \<Rightarrow> u32 \<Rightarrow> vm \<Rightarrow> vm kres" where
  "cleanup_table dir i v =
     (if dir i AND PTE_ADDR = 0 then Inr v
      else
        kbind
          (kfold (\<lambda>j v. kbind (temp_read j v) (\<lambda>w.
                     if w AND PTE_ADDR = 0 then Inr v else vm_free (w div PGSIZE) v))
             (map of_nat [0..<1024]) (temp_map ((dir i AND PTE_ADDR) OR 3) v))
          (vm_free (dir i div PGSIZE)))"

definition cleanup_pages :: "u32 \<Rightarrow> vm \<Rightarrow> vm kres" where
  "cleanup_pages pgdir v =
     (let v = temp_map (pgdir OR 3) v
      in kbind (temp_load v) (\<lambda>dir.
         kbind (kfold (cleanup_table dir) (map of_nat [0..<768]) v)
           (vm_free pgdir)))"

lemma sint_of_int32: "- 2147483648 \<le> k \<Longrightarrow> k < 2147483648 \<Longrightarrow> sint (of_int k :: u32) = k"
  by (simp add: signed_of_int signed_take_bit_int_eq_self)

lemma round_delta_int:
  assumes "- 2147483648 \<le> k" "k < 2147483648 - 4095"
  shows "round_delta (of_int k) = of_int (tdiv (k + 4095) 4096 * 4096)"
proof -
  have "(of_int k :: u32) + PGSIZE - 1 = of_int (k + 4095)" by simp
  then show ?thesis unfolding round_delta_def using assms sint_of_int32 [of "k + 4095"] by (simp only:)
qed

lemma round_delta_up:
  assumes "n \<le> 0x7FFFF000"
  shows "round_delta (of_nat n) = of_nat ((n + 4095) div 4096 * 4096)"
proof -
  have "tdiv (int n + 4095) 4096 * 4096 = int ((n + 4095) div 4096 * 4096)" by (simp add: tdiv_def zdiv_int)
  then show ?thesis using round_delta_int [of "int n"] assms by simp
qed

lemma round_delta_down:
  assumes "n \<le> 0x80000000"
  shows "round_delta (- of_nat n) = - of_nat ((n - 4095) div 4096 * 4096)"
proof -
  have "tdiv (- int n + 4095) 4096 * 4096 = - int ((n - 4095) div 4096 * 4096)"
  proof (cases "n \<le> 4095")
    case True
    then have "(- int n + 4095) div 4096 = 0" by (intro div_pos_pos_trivial) simp_all
    with True show ?thesis by (simp add: tdiv_def)
  next
    case False
    then have "- (- int n + 4095) = int (n - 4095)" by simp
    with False show ?thesis by (simp only: tdiv_def zdiv_int of_nat_mult of_nat_numeral) simp
  qed
  moreover have "round_delta (of_int (- int n)) = of_int (tdiv (- int n + 4095) 4096 * 4096)"
    using assms by (intro round_delta_int) simp_all
  ultimately show ?thesis by (simp only: of_int_minus of_int_of_nat_eq)
qed

text \<open>
  The rounding of the break's shift. A positive shift is rounded up to a multiple of the page
  size, as documented. A negative shift of \<open>n\<close> bytes, which rounded up to a multiple would be \<open>n\<close> rounded down, loses 4095
  bytes first: giving back exactly one page, or any number of bytes below 8191, does what
  giving back nothing does, and giving back \<open>q\<close> whole pages releases one page less.
\<close>

theorem round_delta_correct:
  assumes "n \<le> 0x7FFFF000"
  shows "round_delta (of_nat n) = of_nat ((n + 4095) div 4096 * 4096) \<and>
    round_delta (- of_nat n) = - of_nat ((n - 4095) div 4096 * 4096)"
  using round_delta_up [OF assms] round_delta_down [of n] assms by linarith

theorem round_delta_correct_witness: "round_delta 1 = 4096 \<and> round_delta (- 4096) = 0 \<and> round_delta (- 8192) = - 4096"
  using round_delta_correct [of 1] round_delta_correct [of 4096] round_delta_correct [of 8192] by simp

end
