(* ===== verification/AddrMap.thy ===== *)
theory AddrMap
  imports AddrSpace
begin

text \<open>
  What the operations of \<open>AddrSpace\<close> do to the processor's view of an address space. Page-table words
  are compared by frame and index, the invariant \<open>space_ok\<close> says that the tables of a directory are
  allocated pages of their own, and \<open>sbrk_grows\<close> that growing the heap maps fresh pages and nothing
  else.
\<close>

section \<open>Frames and table words\<close>

definition frame :: "u32 \<Rightarrow> u32" where
  "frame e = drop_bit 12 e"

lemma unat_frame: "unat (frame e) = unat e div 4096"
  by (simp add: frame_def drop_bit_eq_div unat_div_distrib)

lemma frame_bound: "unat (frame e) < 1048576"
  using u32_bound [of e] by (simp add: unat_frame del: u32_bound)

lemma unat_PTE_ADDR: "unat (e AND PTE_ADDR) = unat (frame e) * 4096"
proof -
  have "e AND NOT (mask 12) = push_bit 12 (drop_bit 12 e)" by (intro bit_word_eqI) (auto simp: bit_simps)
  moreover have "(PTE_ADDR :: u32) = NOT (mask 12)" by (simp add: mask_eq_exp_minus_1)
  ultimately have "e AND PTE_ADDR = push_bit 12 (drop_bit 12 e)" by (simp only:)
  moreover have "unat (push_bit 12 (frame e)) = unat (frame e) * 4096"
    using frame_bound [of e] by (simp add: push_bit_eq_mult unat_word_ariths)
  ultimately show ?thesis by (simp add: frame_def)
qed

lemma unat_page_word: "unat i < 1024 \<Longrightarrow> unat (page_word e i) = unat (frame e) * 4096 + 4 * unat i"
  using frame_bound [of e] by (simp add: page_word_def unat_word_ariths unat_PTE_ADDR)

lemma page_word_eq_iff:
  assumes "unat i < 1024" "unat j < 1024"
  shows "page_word e i = page_word e' j \<longleftrightarrow> frame e = frame e' \<and> i = j"
proof
  assume "page_word e i = page_word e' j"
  then have "unat (frame e) * 4096 + 4 * unat i = unat (frame e') * 4096 + 4 * unat j"
    using unat_page_word [OF assms(1)] unat_page_word [OF assms(2)] by metis
  moreover have "(f * 4096 + 4 * n) div 4096 = f" "(f * 4096 + 4 * n) mod 4096 = 4 * n" if "n < 1024" for f n :: nat
    using that by simp_all
  ultimately have "unat (frame e) = unat (frame e') \<and> 4 * unat i = 4 * unat j" using assms by metis
  then show "frame e = frame e' \<and> i = j" by (simp add: word_unat_eq_iff)
next
  assume "frame e = frame e' \<and> i = j"
  then have "unat (page_word e i) = unat (page_word e' j)" using assms by (simp add: unat_page_word)
  then show "page_word e i = page_word e' j" by (simp add: word_unat_eq_iff)
qed

lemma frame_entry:
  assumes "unat p < 1048576"
  shows "frame (p * PGSIZE OR 7) = p" "frame (p * PGSIZE OR 3) = p" "frame (p * PGSIZE) = p"
proof -
  have p: "frame (p * PGSIZE) = p"
    using assms by (simp add: word_unat_eq_iff unat_frame unat_word_ariths)
  then show "frame (p * PGSIZE) = p" .
  show "frame (p * PGSIZE OR 7) = p" "frame (p * PGSIZE OR 3) = p"
    using p by (simp_all add: frame_def)
qed

lemma frame_or3 [simp]: "frame (e OR 3) = frame e"
  by (simp add: frame_def)

lemma present_iff: "e AND 1 = (0 :: u32) \<longleftrightarrow> \<not> bit e 0"
  by (simp add: and_one_eq bit_0 odd_iff_mod_2_eq_one)

lemma present_or [simp]: "bit (e OR 3 :: u32) 0" "bit (e OR 7 :: u32) 0"
  by (simp_all add: bit_0 even_or_iff)

lemma page_word_or3 [simp]: "page_word (e OR 3) = page_word e"
proof -
  have "unat ((e OR 3) AND PTE_ADDR) = unat (e AND PTE_ADDR)" by (simp only: unat_PTE_ADDR frame_or3)
  then have "(e OR 3) AND PTE_ADDR = e AND PTE_ADDR" by (simp only: word_unat_eq_iff)
  then show ?thesis by (intro ext) (simp only: page_word_def)
qed

lemma index_bounds [simp]: "unat (pd_index a) < 1024" "unat (pt_index a) < 1024"
proof -
  show "unat (pd_index a) < 1024"
    using u32_bound [of a] by (simp add: pd_index_def drop_bit_eq_div unat_div_distrib del: u32_bound)
  have "(0x3FF :: u32) = mask 10" by (simp add: mask_eq_exp_minus_1)
  then have "pt_index a = take_bit 10 (drop_bit 12 a)" by (simp add: pt_index_def take_bit_eq_mask)
  then show "unat (pt_index a) < 1024" by (simp add: take_bit_eq_mod unat_mod_distrib)
qed

lemma unat_index: "unat (pd_index a) = unat (frame a) div 1024" "unat (pt_index a) = unat (frame a) mod 1024"
proof -
  show "unat (pd_index a) = unat (frame a) div 1024"
    by (simp add: pd_index_def unat_frame drop_bit_eq_div unat_div_distrib div_mult2_eq [symmetric])
  have "(0x3FF :: u32) = mask 10" by (simp add: mask_eq_exp_minus_1)
  then have "pt_index a = take_bit 10 (frame a)" by (simp add: pt_index_def take_bit_eq_mask frame_def)
  then show "unat (pt_index a) = unat (frame a) mod 1024" by (simp add: take_bit_eq_mod unat_mod_distrib)
qed

lemma same_page_iff: "frame a = frame b \<longleftrightarrow> pd_index a = pd_index b \<and> pt_index a = pt_index b"
proof
  assume "pd_index a = pd_index b \<and> pt_index a = pt_index b"
  then have "unat (frame a) div 1024 = unat (frame b) div 1024" "unat (frame a) mod 1024 = unat (frame b) mod 1024"
    using unat_index [of a] unat_index [of b] by metis+
  then have "unat (frame a) = unat (frame b)" by (metis div_mult_mod_eq)
  then show "frame a = frame b" by (simp add: word_unat_eq_iff)
next
  assume "frame a = frame b"
  then show "pd_index a = pd_index b \<and> pt_index a = pt_index b" by (simp add: word_unat_eq_iff unat_index)
qed

section \<open>Storing a table\<close>

lemma temp_store_n:
  fixes f :: "u32 \<Rightarrow> u32"
  assumes "bit (temp_entry v) 0" "n \<le> 1024"
  shows "\<exists>pm. kfold (\<lambda>i. temp_write (of_nat i) (f (of_nat i))) [0..<n] v = Inr (v\<lparr>pmem := pm\<rparr>) \<and>
    (\<forall>i < n. pm (page_word (temp_entry v) (of_nat i)) = f (of_nat i)) \<and>
    (\<forall>a. (\<forall>i < n. a \<noteq> page_word (temp_entry v) (of_nat i)) \<longrightarrow> pm a = pmem v a)"
  using assms(2)
proof (induction n)
  case 0
  show ?case by (rule exI [of _ "pmem v"]) simp
next
  case (Suc n)
  then obtain pm where pm: "kfold (\<lambda>i. temp_write (of_nat i) (f (of_nat i))) [0..<n] v = Inr (v\<lparr>pmem := pm\<rparr>)"
    "\<forall>i < n. pm (page_word (temp_entry v) (of_nat i)) = f (of_nat i)"
    "\<forall>a. (\<forall>i < n. a \<noteq> page_word (temp_entry v) (of_nat i)) \<longrightarrow> pm a = pmem v a"
    by auto
  let ?a = "page_word (temp_entry v) (of_nat n)"
  have ne: "page_word (temp_entry v) (of_nat i) \<noteq> ?a" if "i < n" for i
  proof -
    have "(of_nat i :: u32) \<noteq> of_nat n" using that Suc.prems unat_of_nat32 [of i] unat_of_nat32 [of n] by force
    then show ?thesis using that Suc.prems by (simp add: page_word_eq_iff)
  qed
  have "temp_write (of_nat n) (f (of_nat n)) (v\<lparr>pmem := pm\<rparr>) = Inr (v\<lparr>pmem := pm(?a := f (of_nat n))\<rparr>)"
    using assms(1) by (simp add: temp_write_def present_iff)
  then show ?case
    using pm ne by (intro exI [of _ "pm(?a := f (of_nat n))"] conjI) (simp add: kfold_append fun_upd_def, auto simp: less_Suc_eq)
qed

lemma temp_store_spec:
  assumes "bit (temp_entry v) 0"
  shows "\<exists>pm. temp_store f v = Inr (v\<lparr>pmem := pm\<rparr>) \<and>
    (\<forall>i. unat i < 1024 \<longrightarrow> pm (page_word (temp_entry v) i) = f i) \<and>
    (\<forall>e i. frame e \<noteq> frame (temp_entry v) \<longrightarrow> unat i < 1024 \<longrightarrow> pm (page_word e i) = pmem v (page_word e i))"
proof -
  obtain pm where pm: "temp_store f v = Inr (v\<lparr>pmem := pm\<rparr>)"
    "\<forall>i < 1024. pm (page_word (temp_entry v) (of_nat i)) = f (of_nat i)"
    "\<forall>a. (\<forall>i < 1024. a \<noteq> page_word (temp_entry v) (of_nat i)) \<longrightarrow> pm a = pmem v a"
    using temp_store_n [OF assms, of 1024 f] unfolding temp_store_def by auto
  have "pm (page_word (temp_entry v) i) = f i" if "unat i < 1024" for i
    using pm(2) [rule_format, of "unat i"] that by simp
  moreover have "pm (page_word e i) = pmem v (page_word e i)" if "frame e \<noteq> frame (temp_entry v)" "unat i < 1024" for e i
    using pm(3) that by (simp add: page_word_eq_iff)
  ultimately show ?thesis using pm(1) by blast
qed

section \<open>Allocation\<close>

definition free_count :: "vm \<Rightarrow> nat" where
  "free_count v = card {p. page_free (vpg v) p}"

lemma free_count_simps [simp]:
  "free_count (v\<lparr>pmem := pm\<rparr>) = free_count v" "free_count (v\<lparr>temp_entry := e\<rparr>) = free_count v"
  by (simp_all add: free_count_def)

lemma vm_alloc_spec:
  assumes "pgalloc_wf (vpg v)" "vm_alloc v = Inr (a, v')"
  shows "\<exists>p. a = p * PGSIZE \<and> page_free (vpg v) p \<and> pgalloc_wf (vpg v') \<and> v' = v\<lparr>vpg := vpg v'\<rparr> \<and>
    (\<forall>q. page_free (vpg v') q \<longleftrightarrow> page_free (vpg v) q \<and> q \<noteq> p)"
  using assms pg.alloc_inv pg.alloc_was_free pg.alloc_takes
  by (fastforce simp: vm_alloc_def kres_simps)

lemma vm_alloc_total:
  assumes "pgalloc_wf (vpg v)" "0 < free_count v"
  shows "\<exists>a v'. vm_alloc v = Inr (a, v') \<and> free_count v' + 1 = free_count v"
proof -
  have "{p. page_free (vpg v) p} \<noteq> {}" using assms(2) unfolding free_count_def by (metis card.empty less_irrefl)
  then obtain p pa where "alloc_page (vpg v) = Inr (p, pa)" using pg.alloc_returns [OF assms(1)] by fastforce
  then have a: "vm_alloc v = Inr (p * PGSIZE, v\<lparr>vpg := pa\<rparr>)" by (simp add: vm_alloc_def)
  have "page_free (vpg v) p" "\<And>q. page_free pa q \<longleftrightarrow> page_free (vpg v) q \<and> q \<noteq> p"
    using pg.alloc_was_free [OF assms(1)] pg.alloc_takes [OF assms(1)] \<open>alloc_page (vpg v) = Inr (p, pa)\<close> by blast+
  then have "{q. page_free pa q} = {q. page_free (vpg v) q} - {p}" "p \<in> {q. page_free (vpg v) q}" by auto
  then have "card {q. page_free pa q} + 1 = card {q. page_free (vpg v) q}"
    using assms(2) by (simp add: free_count_def)
  then show ?thesis using a by (simp add: free_count_def)
qed

section \<open>Address spaces\<close>

text \<open>The processor's walk from the words of a page directory.\<close>

definition walk :: "(u32 \<Rightarrow> u32) \<Rightarrow> (u32 \<Rightarrow> u32) \<Rightarrow> u32 \<Rightarrow> u32 option" where
  "walk dir pm a =
     (if \<not> bit (dir (pd_index a)) 0 then None
      else let pte = pm (page_word (dir (pd_index a)) (pt_index a))
           in if \<not> bit pte 0 then None else Some ((pte AND PTE_ADDR) + (a AND 0xFFF)))"

lemma translate_walk: "translate pm cr a = walk (\<lambda>i. pm (page_word cr i)) pm a"
  by (simp add: translate_def walk_def present_iff Let_def)

text \<open>
  The page tables of a directory are allocated, different from each other and from the
  directory's own page.
\<close>

definition dir_ok :: "u32 \<Rightarrow> (u32 \<Rightarrow> u32) \<times> vm \<Rightarrow> bool" where [wf_defs]:
  "dir_ok pgdir = (\<lambda>(dir, v). pgalloc_wf (vpg v) \<and> \<not> page_free (vpg v) (frame pgdir) \<and>
     (\<forall>i. unat i < 1024 \<longrightarrow> bit (dir i) 0 \<longrightarrow> \<not> page_free (vpg v) (frame (dir i)) \<and> frame (dir i) \<noteq> frame pgdir) \<and>
     (\<forall>i j. unat i < 1024 \<longrightarrow> unat j < 1024 \<longrightarrow> i \<noteq> j \<longrightarrow> bit (dir i) 0 \<longrightarrow> bit (dir j) 0 \<longrightarrow> frame (dir i) \<noteq> frame (dir j)))"

text \<open>
  One step of growing: address \<open>addr\<close>'s page is mapped to a page \<open>p\<close> that was free, every other address
  keeps its translation.
\<close>

definition maps_page :: "u32 \<Rightarrow> u32 \<Rightarrow> (u32 \<Rightarrow> u32 option) \<Rightarrow> (u32 \<Rightarrow> u32 option)" where
  "maps_page addr p t = (\<lambda>a. if frame a = frame addr then Some (p * PGSIZE + (a AND 0xFFF)) else t a)"

lemma dir_okD:
  assumes "dir_ok pgdir (dir, v)"
  shows "pgalloc_wf (vpg v)" "\<not> page_free (vpg v) (frame pgdir)"
    and "unat i < 1024 \<Longrightarrow> bit (dir i) 0 \<Longrightarrow> \<not> page_free (vpg v) (frame (dir i)) \<and> frame (dir i) \<noteq> frame pgdir"
    and "unat i < 1024 \<Longrightarrow> unat j < 1024 \<Longrightarrow> i \<noteq> j \<Longrightarrow> bit (dir i) 0 \<Longrightarrow> bit (dir j) 0 \<Longrightarrow> frame (dir i) \<noteq> frame (dir j)"
  using assms by (simp_all add: dir_ok_def)

lemma page_free_bound: "page_free pa p \<Longrightarrow> unat p < 1048576"
  by (simp add: page_free_def)

lemma entry_addr: "unat p < 1048576 \<Longrightarrow> (p * PGSIZE OR 7) AND PTE_ADDR = p * PGSIZE"
  using unat_PTE_ADDR [of "p * PGSIZE OR 7"] by (simp add: word_unat_eq_iff frame_entry unat_word_ariths)

text \<open>Writing an entry of the table of directory entry \<open>pd_index addr\<close>.\<close>

lemma walk_write:
  assumes "dir_ok pgdir (dir, v)" "bit (dir (pd_index addr)) 0" "unat p < 1048576"
  shows "walk dir ((pmem v)(page_word (dir (pd_index addr)) (pt_index addr) := p * PGSIZE OR 7)) =
    maps_page addr p (walk dir (pmem v))"
proof
  fix a
  have "page_word (dir (pd_index a)) (pt_index a) = page_word (dir (pd_index addr)) (pt_index addr) \<longleftrightarrow> frame a = frame addr"
    if "bit (dir (pd_index a)) 0"
    using that dir_okD(4) [OF assms(1), of "pd_index a" "pd_index addr"] assms(2)
    by (auto simp: page_word_eq_iff same_page_iff)
  then show "walk dir ((pmem v)(page_word (dir (pd_index addr)) (pt_index addr) := p * PGSIZE OR 7)) a =
    maps_page addr p (walk dir (pmem v)) a"
    using assms(2,3) by (auto simp: walk_def maps_page_def same_page_iff Let_def entry_addr)
qed

text \<open>Entering a fresh zeroed table.\<close>

lemma walk_new_table:
  assumes "dir_ok pgdir (dir, v)" "\<not> bit (dir (pd_index addr)) 0" "page_free (vpg v) t"
    and pm: "\<And>i. unat i < 1024 \<Longrightarrow> pm (page_word (t * PGSIZE OR 3) i) = 0"
      "\<And>e i. frame e \<noteq> t \<Longrightarrow> unat i < 1024 \<Longrightarrow> pm (page_word e i) = pmem v (page_word e i)"
  shows "walk (dir(pd_index addr := t * PGSIZE OR 7)) pm = walk dir (pmem v)"
proof
  fix a
  note t = page_free_bound [OF assms(3)]
  show "walk (dir(pd_index addr := t * PGSIZE OR 7)) pm a = walk dir (pmem v) a"
  proof (cases "pd_index a = pd_index addr")
    case True
    have "page_word (t * PGSIZE OR 7) (pt_index a) = page_word (t * PGSIZE OR 3) (pt_index a)"
      using t by (simp add: page_word_eq_iff frame_entry)
    then show ?thesis using True assms(2) pm(1) [of "pt_index a"] by (simp add: walk_def)
  next
    case False
    have "frame (dir (pd_index a)) \<noteq> t" if "bit (dir (pd_index a)) 0"
      using dir_okD(3) [OF assms(1), of "pd_index a"] assms(3) that by auto
    then show ?thesis using False pm(2) [of "dir (pd_index a)" "pt_index a"] by (simp add: walk_def)
  qed
qed

definition grown :: "u32 \<Rightarrow> u32 \<Rightarrow> u32 \<Rightarrow> (u32 \<Rightarrow> u32) \<times> vm \<Rightarrow> (u32 \<Rightarrow> u32) \<times> vm \<Rightarrow> bool" where
  "grown pgdir addr p = (\<lambda>(dir, v) (dir', v'). page_free (vpg v) p \<and> \<not> page_free (vpg v') p \<and>
     (\<forall>q. page_free (vpg v') q \<longrightarrow> page_free (vpg v) q) \<and> dir_ok pgdir (dir', v') \<and>
     walk dir' (pmem v') = maps_page addr p (walk dir (pmem v)) \<and> free_count v \<le> free_count v' + 2)"

lemma grow_entry:
  assumes ok: "dir_ok pgdir (dir, v)" and e: "bit (dir (pd_index addr)) 0" "frame (temp_entry v) = frame (dir (pd_index addr))" "bit (temp_entry v) 0"
    and n: "0 < free_count v"
  shows "\<exists>p v'. kbind (vm_alloc v) (\<lambda>(p, v). kbind (temp_write (pt_index addr) (p OR 7) v) (\<lambda>v. Inr (dir, v))) = Inr (dir, v') \<and>
    grown pgdir addr p (dir, v) (dir, v') \<and> free_count v = free_count v' + 1"
proof -
  note wf = dir_okD(1) [OF ok]
  obtain a v1 where a: "vm_alloc v = Inr (a, v1)" "free_count v1 + 1 = free_count v"
    using vm_alloc_total [OF wf n] by blast
  from vm_alloc_spec [OF wf a(1)] obtain p where p: "a = p * PGSIZE" "page_free (vpg v) p" "pgalloc_wf (vpg v1)"
    "v1 = v\<lparr>vpg := vpg v1\<rparr>" "\<And>q. page_free (vpg v1) q \<longleftrightarrow> page_free (vpg v) q \<and> q \<noteq> p" by blast
  have te: "temp_entry v1 = temp_entry v" "pmem v1 = pmem v"
    using arg_cong [OF p(4), of temp_entry] arg_cong [OF p(4), of pmem] by simp_all
  then have pw: "page_word (temp_entry v1) (pt_index addr) = page_word (dir (pd_index addr)) (pt_index addr)"
    using e(2) by (simp add: page_word_eq_iff)
  let ?v = "v1\<lparr>pmem := (pmem v1)(page_word (dir (pd_index addr)) (pt_index addr) := p * PGSIZE OR 7)\<rparr>"
  have w: "temp_write (pt_index addr) (a OR 7) v1 = Inr ?v"
    using e(3) te pw by (simp add: temp_write_def present_iff p(1))
  have "dir_ok pgdir (dir, ?v)"
    using ok p(3,5) by (auto simp: dir_ok_def)
  moreover have "walk dir (pmem ?v) = maps_page addr p (walk dir (pmem v))"
    using walk_write [OF ok e(1) page_free_bound [OF p(2)]] by (simp add: te)
  ultimately have "grown pgdir addr p (dir, v) (dir, ?v)"
    using p(2,5) a(2) by (simp add: grown_def)
  then show ?thesis using a w by (intro exI [of _ p] exI [of _ ?v]) simp
qed

lemma new_table:
  assumes ok: "dir_ok pgdir (dir, v)" and e: "\<not> bit (dir (pd_index addr)) 0" and n: "0 < free_count v"
  shows "\<exists>t v'. vm_alloc v = Inr (t * PGSIZE, v') \<and>
    (\<exists>v''. temp_zero (temp_map (t * PGSIZE OR 3) v') = Inr v'' \<and> temp_entry v'' = t * PGSIZE OR 3 \<and>
      dir_ok pgdir (dir(pd_index addr := t * PGSIZE OR 7), v'') \<and>
      walk (dir(pd_index addr := t * PGSIZE OR 7)) (pmem v'') = walk dir (pmem v) \<and>
      (\<forall>q. page_free (vpg v'') q \<longrightarrow> page_free (vpg v) q) \<and> free_count v = free_count v'' + 1)"
proof -
  note wf = dir_okD(1) [OF ok]
  obtain a v1 where a: "vm_alloc v = Inr (a, v1)" "free_count v1 + 1 = free_count v"
    using vm_alloc_total [OF wf n] by blast
  from vm_alloc_spec [OF wf a(1)] obtain t where t: "a = t * PGSIZE" "page_free (vpg v) t" "pgalloc_wf (vpg v1)"
    "v1 = v\<lparr>vpg := vpg v1\<rparr>" "\<And>q. page_free (vpg v1) q \<longleftrightarrow> page_free (vpg v) q \<and> q \<noteq> t" by blast
  let ?m = "temp_map (t * PGSIZE OR 3) v1" and ?d = "dir(pd_index addr := t * PGSIZE OR 7)"
  note fr = frame_entry [OF page_free_bound [OF t(2)]]
  obtain pm where pm: "temp_zero ?m = Inr (?m\<lparr>pmem := pm\<rparr>)"
    "\<And>i. unat i < 1024 \<Longrightarrow> pm (page_word (t * PGSIZE OR 3) i) = 0"
    "\<And>e i. frame e \<noteq> t \<Longrightarrow> unat i < 1024 \<Longrightarrow> pm (page_word e i) = pmem v1 (page_word e i)"
    using temp_store_spec [of ?m "\<lambda>_. 0"] fr by (auto simp: temp_zero_def temp_map_def)
  have pv: "pmem v1 = pmem v" using arg_cong [OF t(4), of pmem] by simp
  have "dir_ok pgdir (?d, ?m\<lparr>pmem := pm\<rparr>)"
    using ok t(2,3,5) fr unfolding dir_ok_def by (auto simp: temp_map_def)
  moreover have "walk ?d pm = walk dir (pmem v)"
    using pm(2,3) by (intro walk_new_table [OF ok e t(2)]) (simp_all add: pv)
  ultimately show ?thesis
    using a t pm(1) by (intro exI [of _ t] exI [of _ v1] conjI exI [of _ "?m\<lparr>pmem := pm\<rparr>"])
      (simp_all add: temp_map_def)
qed

lemma grow_page:
  assumes ok: "dir_ok pgdir (dir, v)" and n: "2 \<le> free_count v"
  shows "\<exists>p s. sbrk_grow_page addr (dir, v) = Inr s \<and> grown pgdir addr p (dir, v) s"
proof (cases "bit (dir (pd_index addr)) 0")
  case True
  let ?v = "temp_map (dir (pd_index addr) OR 3) v"
  have "dir_ok pgdir (dir, ?v)" "free_count ?v = free_count v" using ok by (simp_all add: dir_ok_def temp_map_def)
  with grow_entry [of pgdir dir ?v addr] True n show ?thesis
    by (fastforce simp: sbrk_grow_page_def Let_def present_iff temp_map_def grown_def)
next
  case False
  then obtain t v1 v2 where t: "vm_alloc v = Inr (t * PGSIZE, v1)" "temp_zero (temp_map (t * PGSIZE OR 3) v1) = Inr v2"
    "temp_entry v2 = t * PGSIZE OR 3" "dir_ok pgdir (dir(pd_index addr := t * PGSIZE OR 7), v2)"
    "walk (dir(pd_index addr := t * PGSIZE OR 7)) (pmem v2) = walk dir (pmem v)"
    "\<forall>q. page_free (vpg v2) q \<longrightarrow> page_free (vpg v) q" "free_count v = free_count v2 + 1"
    using new_table [OF ok, of addr] n by auto
  let ?d = "dir(pd_index addr := t * PGSIZE OR 7)"
  have "frame (temp_entry v2) = frame (?d (pd_index addr))" by (simp add: t(3) frame_def)
  then obtain p v3 where p: "kbind (vm_alloc v2) (\<lambda>(p, v). kbind (temp_write (pt_index addr) (p OR 7) v) (\<lambda>v. Inr (?d, v))) = Inr (?d, v3)"
    "grown pgdir addr p (?d, v2) (?d, v3)" "free_count v2 = free_count v3 + 1"
    using grow_entry [OF t(4), of addr] t(3,7) n by auto
  then have "sbrk_grow_page addr (dir, v) = Inr (?d, v3)"
    using False t(1,2) by (simp add: sbrk_grow_page_def Let_def present_iff)
  moreover have "grown pgdir addr p (dir, v) (?d, v3)"
    using p(2,3) t(5-7) by (simp add: grown_def)
  ultimately show ?thesis by blast
qed

section \<open>Growing the heap\<close>

text \<open>Translation with the pages \<open>ps\<close> mapped from address \<open>brk\<close> on.\<close>

definition maps_pages :: "u32 \<Rightarrow> u32 list \<Rightarrow> (u32 \<Rightarrow> u32 option) \<Rightarrow> (u32 \<Rightarrow> u32 option)" where
  "maps_pages brk ps t = (\<lambda>a. if unat brk \<le> unat a \<and> unat a < unat brk + length ps * 4096
     then Some (ps ! ((unat a - unat brk) div 4096) * PGSIZE + (a AND 0xFFF)) else t a)"

lemma maps_pages_snoc:
  assumes "unat brk mod 4096 = 0" "unat brk + length ps * 4096 < 4294967296"
  shows "maps_page (brk + of_nat (length ps) * PGSIZE) p (maps_pages brk ps t) = maps_pages brk (ps @ [p]) t"
proof
  fix a :: u32
  let ?n = "length ps" and ?b = "unat brk div 4096" and ?q = "unat a div 4096"
  have b: "unat brk = ?b * 4096" using assms(1) by auto
  have addr: "unat (brk + of_nat ?n * PGSIZE) = (?b + ?n) * 4096"
  proof -
    have "unat (of_nat ?n * PGSIZE :: u32) = ?n * 4096" using assms(2) by (simp add: unat_word_ariths)
    then show ?thesis using assms(2) b by (simp add: unat_word_ariths)
  qed
  have fr: "frame a = frame (brk + of_nat ?n * PGSIZE) \<longleftrightarrow> ?q = ?b + ?n"
    by (simp add: word_unat_eq_iff unat_frame addr)
  have rng: "unat brk \<le> unat a \<and> unat a < unat brk + m * 4096 \<longleftrightarrow> ?b \<le> ?q \<and> ?q < ?b + m" for m
    using b less_eq_div_iff_mult_less_eq [of 4096 ?b "unat a"] div_less_iff_less_mult [of 4096 "unat a" "?b + m"]
    by (simp add: add_mult_distrib)
  have idx: "(unat a - unat brk) div 4096 = ?q - ?b" if "?b \<le> ?q"
  proof -
    have "?b * 4096 \<le> unat a" using that less_eq_div_iff_mult_less_eq [of 4096 ?b "unat a"] by simp
    then obtain y where y: "unat a = ?b * 4096 + y" using le_Suc_ex by blast
    then have "unat a - unat brk = y" using b by linarith
    moreover have "?q = ?b + y div 4096" using y by simp
    ultimately show ?thesis by simp
  qed
  show "maps_page (brk + of_nat ?n * PGSIZE) p (maps_pages brk ps t) a = maps_pages brk (ps @ [p]) t a"
    unfolding maps_page_def maps_pages_def fr rng by (auto simp: nth_append idx)
qed

lemma grow_pages:
  assumes "dir_ok pgdir (dir, v)" "2 * n \<le> free_count v" "unat brk mod 4096 = 0" "unat brk + n * 4096 < 4294967296"
  shows "\<exists>ps dir' v'. kfold sbrk_grow_page (map (\<lambda>k. brk + of_nat k * PGSIZE) [0..<n]) (dir, v) = Inr (dir', v') \<and>
    length ps = n \<and> distinct ps \<and> (\<forall>p \<in> set ps. page_free (vpg v) p \<and> \<not> page_free (vpg v') p) \<and>
    (\<forall>q. page_free (vpg v') q \<longrightarrow> page_free (vpg v) q) \<and> dir_ok pgdir (dir', v') \<and>
    free_count v \<le> free_count v' + 2 * n \<and> walk dir' (pmem v') = maps_pages brk ps (walk dir (pmem v))"
  using assms(2,4)
proof (induction n)
  case 0
  then show ?case using assms(1) by (auto simp: maps_pages_def fun_eq_iff)
next
  case (Suc n)
  then obtain ps d1 v1 where 1: "kfold sbrk_grow_page (map (\<lambda>k. brk + of_nat k * PGSIZE) [0..<n]) (dir, v) = Inr (d1, v1)"
    "length ps = n" "distinct ps" "\<forall>p \<in> set ps. page_free (vpg v) p \<and> \<not> page_free (vpg v1) p"
    "\<forall>q. page_free (vpg v1) q \<longrightarrow> page_free (vpg v) q" "dir_ok pgdir (d1, v1)"
    "free_count v \<le> free_count v1 + 2 * n" "walk d1 (pmem v1) = maps_pages brk ps (walk dir (pmem v))"
    by auto
  let ?a = "brk + of_nat n * PGSIZE"
  obtain p d2 v2 where 2: "sbrk_grow_page ?a (d1, v1) = Inr (d2, v2)" "grown pgdir ?a p (d1, v1) (d2, v2)"
    using grow_page [OF 1(6), of ?a] 1(7) Suc.prems(1) by auto
  have "walk d2 (pmem v2) = maps_pages brk (ps @ [p]) (walk dir (pmem v))"
    using 2(2) 1(2,8) maps_pages_snoc [OF assms(3), of ps p] Suc.prems(2) by (simp add: grown_def)
  then show ?case
    using 1 2 by (intro exI [of _ "ps @ [p]"] exI [of _ d2] exI [of _ v2]) (auto simp: kfold_append grown_def)
qed

text \<open>The address space of page directory \<open>pgdir\<close> in memory.\<close>

definition space_ok :: "u32 \<Rightarrow> vm \<Rightarrow> bool" where
  "space_ok pgdir v \<longleftrightarrow> dir_ok pgdir (\<lambda>i. pmem v (page_word pgdir i), v)"

lemma store_dir:
  assumes "dir_ok pgdir (dir, v)"
  shows "\<exists>v'. temp_store dir (temp_map (pgdir OR 3) v) = Inr v' \<and> space_ok pgdir v' \<and> vpg v' = vpg v \<and>
    translate (pmem v') pgdir = walk dir (pmem v)"
proof -
  let ?m = "temp_map (pgdir OR 3) v"
  obtain pm where pm: "temp_store dir ?m = Inr (?m\<lparr>pmem := pm\<rparr>)"
    "\<And>i. unat i < 1024 \<Longrightarrow> pm (page_word (pgdir OR 3) i) = dir i"
    "\<And>e i. frame e \<noteq> frame pgdir \<Longrightarrow> unat i < 1024 \<Longrightarrow> pm (page_word e i) = pmem v (page_word e i)"
    using temp_store_spec [of ?m dir] by (auto simp: temp_map_def)
  have dir: "pm (page_word pgdir i) = dir i" if "unat i < 1024" for i
  proof -
    have "page_word pgdir i = page_word (pgdir OR 3) i" using that by (simp add: page_word_eq_iff)
    then show ?thesis using pm(2) that by simp
  qed
  have "walk (\<lambda>i. pm (page_word pgdir i)) pm a = walk dir (pmem v) a" for a
    using dir_okD(3) [OF assms, of "pd_index a"] pm(3) [of "dir (pd_index a)" "pt_index a"] by (auto simp: walk_def dir)
  then have "translate pm pgdir = walk dir (pmem v)" by (simp add: fun_eq_iff translate_walk)
  moreover have "space_ok pgdir (?m\<lparr>pmem := pm\<rparr>)"
    using assms by (simp add: space_ok_def dir_ok_def temp_map_def dir)
  ultimately show ?thesis using pm(1) by (intro exI [of _ "?m\<lparr>pmem := pm\<rparr>"]) (simp add: temp_map_def)
qed

text \<open>
  C11: growing the heap. For a shift of \<open>n\<close> bytes, with enough free pages, \<^verbatim>\<open>sbrk_helper\<close> returns; the
  break moves up by \<open>n\<close> rounded up to whole pages, the new addresses are mapped in order to distinct pages that
  were free and are free no more, every other address of the address space translates as before, and the page tables
  stay well-formed.
\<close>

theorem sbrk_grows:
  fixes n brk pgdir v
  defines "q \<equiv> (n + 4095) div 4096"
  assumes "space_ok pgdir v" "0 < n" "n \<le> 0x7FFFF000" "unat brk mod 4096 = 0" "unat brk + q * 4096 < 4294967296"
    "2 * q \<le> free_count v"
  shows "\<exists>ps v'. sbrk_helper pgdir brk (of_nat n) v = Inr (brk + of_nat (q * 4096), v') \<and>
    length ps = q \<and> distinct ps \<and> (\<forall>p \<in> set ps. page_free (vpg v) p \<and> \<not> page_free (vpg v') p) \<and> space_ok pgdir v' \<and>
    translate (pmem v') pgdir = maps_pages brk ps (translate (pmem v) pgdir)"
proof -
  let ?v = "temp_map (pgdir OR 3) v" and ?d = "\<lambda>i. pmem v (page_word pgdir i)" and ?delta = "of_nat (q * 4096) :: u32"
  have q: "0 < q" "q * 4096 < 2147483648" using assms(3,4) by (auto simp: q_def)
  then have u: "unat ?delta = q * 4096" by (intro unat_of_nat32) simp
  have rd: "round_delta (of_nat n) = ?delta" using round_delta_up [OF assms(4)] by (simp add: q_def)
  have nz: "?delta \<noteq> 0" using u q by (metis mult_is_0 neq0_conv unat_0 zero_neq_numeral)
  have nneg: "\<not> ?delta <s 0" using sint_of_int32 [of "int (q * 4096)"] q(2) by (simp add: word_sless_alt)
  have lt: "brk < brk + ?delta" using u q(1) assms(6) by (simp add: word_less_nat_alt unat_word_ariths)
  have "unat (?delta + PGSIZE - 1) = q * 4096 + 4095"
  proof -
    have "?delta + PGSIZE - 1 = of_nat (q * 4096 + 4095)" by simp
    then show ?thesis using q(2) unat_of_nat32 [of "q * 4096 + 4095"] by (simp only:)
  qed
  then have "unat ((?delta + PGSIZE - 1) div PGSIZE) = q" by (simp add: unat_div_distrib)
  then have addrs: "grow_addrs brk ?delta = map (\<lambda>k. brk + of_nat k * PGSIZE) [0..<q]"
    using lt by (simp only: grow_addrs_def if_True)
  have ok: "dir_ok pgdir (?d, ?v)" "2 * q \<le> free_count ?v"
    using assms(2,7) by (simp_all add: space_ok_def dir_ok_def temp_map_def)
  from grow_pages [OF ok assms(5,6)] obtain ps d1 v1 where 1: "kfold sbrk_grow_page (grow_addrs brk ?delta) (?d, ?v) = Inr (d1, v1)"
    "length ps = q" "distinct ps" "\<forall>p \<in> set ps. page_free (vpg v) p \<and> \<not> page_free (vpg v1) p"
    "dir_ok pgdir (d1, v1)" "walk d1 (pmem v1) = maps_pages brk ps (walk ?d (pmem v))"
    unfolding addrs by (auto simp: temp_map_def)
  obtain v2 where 2: "temp_store d1 (temp_map (pgdir OR 3) v1) = Inr v2" "space_ok pgdir v2" "vpg v2 = vpg v1"
    "translate (pmem v2) pgdir = walk d1 (pmem v1)"
    using store_dir [OF 1(5)] by blast
  have "temp_load ?v = Inr ?d" by (simp add: temp_load_def temp_map_def present_iff)
  then have "sbrk_helper pgdir brk (of_nat n) v = Inr (brk + ?delta, v2)"
    using 1(1) 2(1) nz nneg by (simp only: sbrk_helper_def Let_def rd) simp
  then show ?thesis using 1 2 by (intro exI [of _ ps] exI [of _ v2]) (simp add: translate_walk [abs_def])
qed

definition sample_vm :: vm where
  "sample_vm = \<lparr>vpg = \<lparr>page_free_map = (\<lambda>e. if e = 33 then 6 else 0), page_alloc_ptr = 8\<rparr>, pmem = (\<lambda>_. 0), temp_entry = 0,
     kernel_pgdir = 0x110000, kernel_id_pgtbl = 0x111000\<rparr>"

theorem sbrk_grows_witness:
  "\<exists>p v'. sbrk_helper 0x400000 0x80000000 100 sample_vm = Inr (0x80001000, v') \<and> page_free (vpg sample_vm) p \<and>
    translate (pmem v') 0x400000 0x80000123 = Some (p * PGSIZE + 0x123)"
proof -
  have "space_ok 0x400000 sample_vm"
    by (simp add: space_ok_def dir_ok_def sample_vm_def pgalloc_wf_def page_free_def unat_frame)
  moreover have "2 \<le> free_count sample_vm"
  proof -
    have "{1057, 1058} \<subseteq> {p. page_free (vpg sample_vm) p}"
      by (simp add: page_free_def sample_vm_def bit_numeral_rec)
    then have "card {1057, 1058 :: u32} \<le> free_count sample_vm" unfolding free_count_def by (intro card_mono) simp_all
    then show ?thesis by simp
  qed
  ultimately obtain ps v' where "sbrk_helper 0x400000 0x80000000 100 sample_vm = Inr (0x80001000, v')" "length ps = 1"
    "\<forall>p \<in> set ps. page_free (vpg sample_vm) p"
    "translate (pmem v') 0x400000 = maps_pages 0x80000000 ps (translate (pmem sample_vm) 0x400000)"
    using sbrk_grows [of "0x400000" sample_vm 100 "0x80000000"] by auto
  then show ?thesis by (intro exI [of _ "ps ! 0"] exI [of _ v']) (simp add: maps_pages_def)
qed

end
