(* ===== verification/FsPath.thy ===== *)
theory FsPath
  imports FsModel
begin

text \<open>
  Symbolic links and path lookup (\<^verbatim>\<open>follow_symlink\<close> and \<^verbatim>\<open>get_inode_by_path\<close> of
  \<^verbatim>\<open>kernel/src/fs.c\<close>). A link chain is followed for at most ten hops and the result is
  characterised by iterating the link target; the recursive walk over the bytes of a path refines
  the left-to-right resolution of the path's components, from which its compositional behaviour
  follows.
\<close>

section \<open>Link chains\<close>

definition link_target :: "fsys \<Rightarrow> nat \<Rightarrow> nat" where
  "link_target fs i = unat (idata (inodes fs ! i))"

definition is_link :: "fsys \<Rightarrow> nat \<Rightarrow> bool" where
  "is_link fs i \<longleftrightarrow> itype (inodes fs ! i) = FT_SYMLINK"

definition links_ok :: "fsys \<Rightarrow> bool" where [wf_defs]:
  "links_ok fs \<longleftrightarrow> (\<forall>i < length (inodes fs). is_link fs i \<longrightarrow> link_target fs i < length (inodes fs))"

text \<open>\<open>j\<close> is what the chain of links from \<open>i\<close> ends in, after \<open>n\<close> hops.\<close>

definition link_end :: "fsys \<Rightarrow> nat \<Rightarrow> nat \<Rightarrow> nat \<Rightarrow> bool" where
  "link_end fs i n j \<longleftrightarrow> j = (link_target fs ^^ n) i \<and> \<not> is_link fs j \<and>
     (\<forall>k < n. is_link fs ((link_target fs ^^ k) i)) \<and> (0 < n \<longrightarrow> itype (inodes fs ! j) \<noteq> FT_UNALLOCATED)"

lemma link_end_0: "link_end fs i 0 j \<longleftrightarrow> j = i \<and> \<not> is_link fs i"
  by (auto simp: link_end_def)

lemma link_end_Suc:
  "link_end fs i (Suc n) j \<longleftrightarrow> is_link fs i \<and> link_end fs (link_target fs i) n j \<and>
     itype (inodes fs ! j) \<noteq> FT_UNALLOCATED"
  by (auto simp: link_end_def All_less_Suc2 funpow_swap1)

lemma link_end_not_link: "\<not> is_link fs i \<Longrightarrow> link_end fs i n j \<longleftrightarrow> n = 0 \<and> j = i"
  by (cases n) (auto simp: link_end_0 link_end_Suc)

lemma follow_symlink_loop_spec:
  assumes "links_ok fs" "i < length (inodes fs)" "depth \<le> 10"
  shows "\<exists>r. follow_symlink_loop fs i depth = Inr r \<and> (\<forall>j. r = Some j \<longleftrightarrow> (\<exists>n \<le> 10 - depth. link_end fs i n j))"
  using assms
proof (induction fs i depth rule: follow_symlink_loop.induct)
  case (1 fs i depth)
  show ?case
  proof (cases "is_link fs i")
    case False
    then show ?thesis using 1(3) by (subst follow_symlink_loop.simps) (auto simp: is_link_def link_end_not_link)
  next
    case True
    let ?t = "link_target fs i"
    have t: "?t < length (inodes fs)" using 1 True by (auto simp: wf_defs)
    have step: "follow_symlink_loop fs i depth =
       (if itype (inodes fs ! ?t) = FT_UNALLOCATED then Inr None
        else if depth + 1 > 10 then Inr None else follow_symlink_loop fs ?t (depth + 1))"
      using True t 1(3) by (subst follow_symlink_loop.simps) (simp add: is_link_def link_target_def get_inode_at_idx_def)
    have ends: "(\<exists>n \<le> 10 - depth. link_end fs i n j) \<longleftrightarrow>
       depth < 10 \<and> (\<exists>n \<le> 10 - (depth + 1). link_end fs ?t n j \<and> itype (inodes fs ! j) \<noteq> FT_UNALLOCATED)" for j
    proof
      assume "\<exists>n \<le> 10 - depth. link_end fs i n j"
      then obtain n where n: "n \<le> 10 - depth" "link_end fs i n j" by blast
      with True obtain k where "n = Suc k" by (cases n) (auto simp: link_end_0)
      with n show "depth < 10 \<and> (\<exists>n \<le> 10 - (depth + 1). link_end fs ?t n j \<and> itype (inodes fs ! j) \<noteq> FT_UNALLOCATED)"
        by (auto simp: link_end_Suc intro!: exI [of _ k])
    next
      assume "depth < 10 \<and> (\<exists>n \<le> 10 - (depth + 1). link_end fs ?t n j \<and> itype (inodes fs ! j) \<noteq> FT_UNALLOCATED)"
      then obtain n where "depth < 10" "n \<le> 10 - (depth + 1)" "link_end fs i (Suc n) j"
        using True by (auto simp: link_end_Suc)
      then have "Suc n \<le> 10 - depth" "link_end fs i (Suc n) j" by simp_all
      then show "\<exists>n \<le> 10 - depth. link_end fs i n j" by blast
    qed
    show ?thesis
    proof (cases "itype (inodes fs ! ?t) = FT_UNALLOCATED \<or> depth = 10")
      case True
      have "link_end fs ?t n j \<Longrightarrow> itype (inodes fs ! ?t) = FT_UNALLOCATED \<Longrightarrow> j = ?t" for n j
        by (simp add: link_end_not_link is_link_def)
      with True ends step 1(4) show ?thesis by auto
    next
      case False
      then have "\<exists>r. follow_symlink_loop fs ?t (depth + 1) = Inr r \<and>
          (\<forall>j. r = Some j \<longleftrightarrow> (\<exists>n \<le> 10 - (depth + 1). link_end fs ?t n j))"
        using 1(1) [of "inodes fs ! i" "inodes fs ! ?t"] 1(2-4) \<open>is_link fs i\<close> t
        by (simp add: link_target_def get_inode_at_idx_def is_link_def)
      moreover have "follow_symlink_loop fs i depth = follow_symlink_loop fs ?t (depth + 1)"
        using step False 1(4) by simp
      ultimately obtain r where r: "follow_symlink_loop fs i depth = Inr r"
         "\<forall>j. r = Some j \<longleftrightarrow> (\<exists>n \<le> 10 - (depth + 1). link_end fs ?t n j)"
        by metis
      moreover have "itype (inodes fs ! j) \<noteq> FT_UNALLOCATED" if "link_end fs ?t n j" for n j
        using that False by (cases n) (auto simp: link_end_0 link_end_Suc)
      ultimately show ?thesis using ends False 1(4) by auto
    qed
  qed
qed

text \<open>
  C14: \<^verbatim>\<open>follow_symlink\<close> always ends without error on a table whose links point into it, and returns
  an inode exactly when the chain of links ends in it after at most ten hops: a cycle, a longer
  chain and a chain through a freed inode all give the null pointer. The result is never a link.
\<close>

theorem follow_symlink_correct:
  assumes "links_ok fs" "i < length (inodes fs)"
  shows "\<exists>r. follow_symlink fs i = Inr r \<and>
    (\<forall>j. r = Some j \<longleftrightarrow> (\<exists>n \<le> SYMLINK_RECURSION_LIMIT. link_end fs i n j))"
  using follow_symlink_loop_spec [OF assms, of 0] by (simp add: follow_symlink_def)

theorem follow_symlink_correct_witness:
  "\<exists>r. follow_symlink \<lparr>inodes = [\<lparr>iname = [], itype = FT_SYMLINK, iparent = 0, idata = 0, iblocks = [], ivalid = 1, irefs = 0\<rparr>],
       fsbytes = (\<lambda>_. 0)\<rparr> 0 = Inr r \<and> r = None"
proof -
  let ?fs = "\<lparr>inodes = [\<lparr>iname = [], itype = FT_SYMLINK, iparent = 0, idata = 0, iblocks = [], ivalid = 1, irefs = 0\<rparr>],
       fsbytes = (\<lambda>_. 0)\<rparr>"
  have z: "(link_target ?fs ^^ n) 0 = 0" for n by (induction n) (simp_all add: link_target_def)
  have "is_link ?fs 0" by (simp add: is_link_def)
  then have "\<not> link_end ?fs 0 n j" for n j unfolding link_end_def z by blast
  moreover have "links_ok ?fs" by (simp add: wf_defs link_target_def)
  ultimately show ?thesis using follow_symlink_correct [of ?fs 0] by (metis length_Cons not_None_eq zero_less_Suc select_convs(1))
qed

section \<open>Paths as lists of components\<close>

lemma path_rest_shorter:
  assumes "dropWhile (\<lambda>ch. ch = SLASH) path \<noteq> []"
  shows "length (dropWhile (\<lambda>ch. ch \<noteq> SLASH) (dropWhile (\<lambda>ch. ch = SLASH) path)) < length path"
proof -
  let ?p = "dropWhile (\<lambda>ch. ch = SLASH) path"
  have "hd ?p \<noteq> SLASH" using hd_dropWhile [OF assms] by simp
  then have "length (dropWhile (\<lambda>ch. ch \<noteq> SLASH) ?p) < length ?p"
    using assms by (cases ?p) (simp_all add: le_imp_less_Suc length_dropWhile_le)
  moreover have "length ?p \<le> length path" by (simp add: length_dropWhile_le)
  ultimately show ?thesis by simp
qed

function path_components :: "u8 list \<Rightarrow> u8 list list" where
  "path_components path =
     (let p = dropWhile (\<lambda>ch. ch = SLASH) path
      in if p = [] then [] else takeWhile (\<lambda>ch. ch \<noteq> SLASH) p # path_components (dropWhile (\<lambda>ch. ch \<noteq> SLASH) p))"
  by pat_completeness auto
termination
  by (relation "measure length") (simp_all only: in_measure wf_measure path_rest_shorter not_False_eq_True)

declare path_components.simps [simp del]

text \<open>The specification: resolve one component after the other, from the left.\<close>

definition lookup_step :: "fsys \<Rightarrow> nat \<Rightarrow> u8 list \<Rightarrow> bool \<Rightarrow> nat option kres" where
  "lookup_step fs b c first_elem =
     kbind (follow_symlink fs b) (\<lambda>b'.
     kbind (kderef b') (\<lambda>b.
     kbind (kget (inodes fs) b) (\<lambda>x.
       if itype x = FT_FILE then Inr None
       else if length c \<ge> FILENAME_MAX_LEN then Inl OutOfBounds
       else path_step fs b x c first_elem)))"

fun lookup :: "fsys \<Rightarrow> nat option \<Rightarrow> u8 list list \<Rightarrow> bool \<Rightarrow> nat option kres" where
  "lookup fs None cs first_elem = Inr None"
| "lookup fs (Some b) [] first_elem = Inr (Some b)"
| "lookup fs (Some b) (c # cs) first_elem = kbind (lookup_step fs b c first_elem) (\<lambda>next. lookup fs next cs False)"

lemma lookup_append:
  "lookup fs base (cs @ ds) fe = kbind (lookup fs base cs fe) (\<lambda>r. lookup fs r ds (fe \<and> cs = []))"
proof (induction fs base cs fe rule: lookup.induct)
  case (3 fs b c cs fe)
  then show ?case by (cases "lookup_step fs b c fe") simp_all
qed simp_all

lemma path_components_Nil: "dropWhile (\<lambda>ch. ch = SLASH) path = [] \<Longrightarrow> path_components path = []"
  by (subst path_components.simps) (simp only: Let_def, simp)

lemma path_components_Cons:
  "dropWhile (\<lambda>ch. ch = SLASH) path = p \<Longrightarrow> p \<noteq> [] \<Longrightarrow>
   path_components path = takeWhile (\<lambda>ch. ch \<noteq> SLASH) p # path_components (dropWhile (\<lambda>ch. ch \<noteq> SLASH) p)"
  by (subst path_components.simps) (simp only: Let_def if_False)

lemma path_components_slash: "path_components (SLASH # q) = path_components q"
  by (subst (1 2) path_components.simps) simp

lemma path_components_append: "path_components (p @ SLASH # q) = path_components p @ path_components q"
proof (induction p rule: path_components.induct)
  case (1 p)
  let ?p = "dropWhile (\<lambda>ch. ch = SLASH) p"
  show ?case
  proof (cases "?p = []")
    case True
    then have "\<forall>x \<in> set p. x = SLASH" by simp
    then have "dropWhile (\<lambda>ch. ch = SLASH) (p @ SLASH # q) = dropWhile (\<lambda>ch. ch = SLASH) (SLASH # q)"
      by (intro dropWhile_append2) blast
    then have "path_components (p @ SLASH # q) = path_components (SLASH # q)"
      by (subst (1 2) path_components.simps) (simp only:)
    with path_components_Nil [OF True] show ?thesis by (simp add: path_components_slash)
  next
    case False
    let ?s = "dropWhile (\<lambda>ch. ch \<noteq> SLASH)"
    have "\<not> (\<forall>x \<in> set p. x = SLASH)" using False by simp
    then have d: "dropWhile (\<lambda>ch. ch = SLASH) (p @ SLASH # q) = ?p @ SLASH # q"
      by (simp only: dropWhile_append if_False)
    have t: "takeWhile (\<lambda>ch. ch \<noteq> SLASH) (?p @ SLASH # q) = takeWhile (\<lambda>ch. ch \<noteq> SLASH) ?p"
      by (rule takeWhile_tail) simp
    have s: "?s (?p @ SLASH # q) = ?s ?p @ SLASH # q" by (rule dropWhile_append3) simp
    have "path_components (p @ SLASH # q) = takeWhile (\<lambda>ch. ch \<noteq> SLASH) ?p # path_components (?s ?p @ SLASH # q)"
      using path_components_Cons [OF d] by (simp add: t s)
    then show ?thesis using 1 [OF refl False] path_components_Cons [OF refl False] by (simp only: append_Cons)
  qed
qed

text \<open>One step of the walk over the bytes of a path resolves its first component.\<close>

lemma helper_step:
  assumes "dropWhile (\<lambda>ch. ch = SLASH) path = p" "p \<noteq> []"
  shows "get_inode_by_path_helper fs (Some b) path fe =
    kbind (lookup_step fs b (takeWhile (\<lambda>ch. ch \<noteq> SLASH) p) fe)
      (\<lambda>next. get_inode_by_path_helper fs next (dropWhile (\<lambda>ch. ch \<noteq> SLASH) p) False)"
proof -
  let ?c = "takeWhile (\<lambda>ch. ch \<noteq> SLASH) p"
  have none: "get_inode_by_path_helper fs None q False = Inr None" for q
    by (simp add: get_inode_by_path_helper.simps)
  have c: "length (take FILENAME_MAX_LEN ?c) = FILENAME_MAX_LEN \<longleftrightarrow> length ?c \<ge> FILENAME_MAX_LEN"
    by (simp add: min_def)
  have short: "take FILENAME_MAX_LEN ?c = ?c \<and> drop (length ?c) p = dropWhile (\<lambda>ch. ch \<noteq> SLASH) p"
    if "\<not> length ?c \<ge> FILENAME_MAX_LEN"
    using that by (simp add: dropWhile_eq_drop)
  show ?thesis
    using assms short unfolding get_inode_by_path_helper.simps [of fs "Some b" path]
    by (auto simp: lookup_step_def Let_def c none split: kbind_split)
qed

lemma helper_lookup: "get_inode_by_path_helper fs base path fe = lookup fs base (path_components path) fe"
proof (induction "length path" arbitrary: base path fe rule: less_induct)
  case less
  show ?case
  proof (cases base)
    case (Some b)
    let ?p = "dropWhile (\<lambda>ch. ch = SLASH) path"
    show ?thesis
    proof (cases "?p = []")
      case True
      with Some show ?thesis
        by (subst get_inode_by_path_helper.simps) (simp only: path_components_Nil Let_def option.case lookup.simps, simp)
    next
      case False
      have "length (dropWhile (\<lambda>ch. ch \<noteq> SLASH) ?p) < length path" by (rule path_rest_shorter [OF False])
      then show ?thesis
        using Some helper_step [OF refl False, of fs b fe] path_components_Cons [OF refl False] less by simp
    qed
  qed (simp add: get_inode_by_path_helper.simps)
qed

text \<open>
  C3: The recursive walk of \<^verbatim>\<open>get_inode_by_path\<close> over the bytes of a path is the resolution of the
  path's components from left to right, for every file system and path: repeated, leading and
  trailing slashes do not matter, each step follows links, errors and missing names end the walk,
  and the path of a name inside a directory resolves in what the directory's path resolves to.
\<close>

theorem get_inode_by_path_refines:
  "get_inode_by_path fs base path = lookup fs base (path_components path) True \<and>
   (path_components p \<noteq> [] \<longrightarrow> get_inode_by_path fs base (p @ SLASH # q) =
      kbind (get_inode_by_path fs base p) (\<lambda>r. lookup fs r (path_components q) False))"
  by (simp add: get_inode_by_path_def helper_lookup path_components_append lookup_append)

text \<open>A small tree for the witnesses: the root with directory \<open>a\<close>, which holds file \<open>b\<close>.\<close>

definition sample_tree :: fsys where
  "sample_tree = \<lparr>inodes =
     [\<lparr>iname = FS_ROOT_PATH, itype = FT_DIRECTORY, iparent = 0, idata = 1, iblocks = [1], ivalid = 1, irefs = 0\<rparr>,
      \<lparr>iname = [97], itype = FT_DIRECTORY, iparent = 0, idata = 1, iblocks = [2], ivalid = 1, irefs = 0\<rparr>,
      \<lparr>iname = [98], itype = FT_FILE, iparent = 1, idata = 0, iblocks = [], ivalid = 1, irefs = 0\<rparr>,
      \<lparr>iname = [108], itype = FT_SYMLINK, iparent = 0, idata = 3, iblocks = [], ivalid = 1, irefs = 0\<rparr>],
     fsbytes = (\<lambda>_. 0)\<rparr>"

theorem get_inode_by_path_refines_witness:
  "get_inode_by_path sample_tree (Some 0) [97, 47, 98] = Inr (Some 2)"
proof -
  have "path_components [97] \<noteq> []" by (simp add: path_components.simps)
  then have "get_inode_by_path sample_tree (Some 0) ([97] @ SLASH # [98]) =
      kbind (get_inode_by_path sample_tree (Some 0) [97]) (\<lambda>r. lookup sample_tree r (path_components [98]) False)"
    using get_inode_by_path_refines [of sample_tree "Some 0" "[97]" "[97]" "[98]"] by blast
  moreover have "get_inode_by_path sample_tree (Some 0) [97] = Inr (Some 1)"
    using get_inode_by_path_refines [of sample_tree "Some 0" "[97]" "[97]" "[98]"]
    by (simp add: path_components.simps lookup_step_def path_step_def sample_tree_def follow_symlink_def
        follow_symlink_loop.simps get_inode_at_idx_def FS_ROOT_PATH_def bytes_of_def)
  moreover have "lookup sample_tree (Some 1) (path_components [98]) False = Inr (Some 2)"
    by (simp add: path_components.simps lookup_step_def path_step_def sample_tree_def follow_symlink_def
        follow_symlink_loop.simps get_inode_at_idx_def FS_ROOT_PATH_def bytes_of_def)
  ultimately show ?thesis by simp
qed

section \<open>Where lookup fails\<close>

text \<open>A table in which links, parents and the entries of directories are inodes of the table.\<close>

definition tree_ok :: "fsys \<Rightarrow> bool" where
  "tree_ok fs \<longleftrightarrow> links_ok fs \<and> inodes fs \<noteq> [] \<and>
     (\<forall>x \<in> set (inodes fs). itype x \<noteq> FT_FILE \<and> itype x \<noteq> FT_SYMLINK \<longrightarrow>
        unat (iparent x) < length (inodes fs) \<and> unat (idata x) \<le> length (iblocks x) \<and>
        (\<forall>e \<in> set (take (unat (idata x)) (iblocks x)). unat e < length (inodes fs)))"

text \<open>What goes wrong with a component \<open>c\<close> that is looked up in \<open>d\<close>.\<close>

definition faults :: "fsys \<Rightarrow> nat \<Rightarrow> u8 list \<Rightarrow> kerr \<Rightarrow> bool" where
  "faults fs d c e \<longleftrightarrow> follow_symlink fs d = Inr None \<and> e = NullDeref \<or>
     (\<exists>d'. follow_symlink fs d = Inr (Some d') \<and> itype (inodes fs ! d') \<noteq> FT_FILE \<and> FILENAME_MAX_LEN \<le> length c \<and> e = OutOfBounds)"

lemma link_end_in: "links_ok fs \<Longrightarrow> i < length (inodes fs) \<Longrightarrow> link_end fs i n j \<Longrightarrow> j < length (inodes fs) \<and> \<not> is_link fs j"
proof (induction n arbitrary: i)
  case (Suc n)
  then show ?case by (auto simp: link_end_Suc links_ok_def)
qed (simp add: link_end_0)

lemma follow_in:
  assumes "links_ok fs" "i < length (inodes fs)"
  obtains "follow_symlink fs i = Inr None" | j where "follow_symlink fs i = Inr (Some j)" "j < length (inodes fs)" "itype (inodes fs ! j) \<noteq> FT_SYMLINK"
proof -
  obtain r where r: "follow_symlink fs i = Inr r" "\<forall>j. r = Some j \<longleftrightarrow> (\<exists>n \<le> 10. link_end fs i n j)"
    using follow_symlink_loop_spec [OF assms, of 0] by (auto simp: follow_symlink_def)
  show thesis
  proof (cases r)
    case (Some j)
    then have "j < length (inodes fs) \<and> \<not> is_link fs j" using r(2) link_end_in [OF assms] by blast
    then show ?thesis using that(2) r(1) Some by (simp add: is_link_def)
  qed (use that(1) r(1) in simp)
qed

lemma dir_search_total:
  "n \<le> length es \<Longrightarrow> \<forall>e \<in> set (take n es). unat e < length (inodes fs) \<Longrightarrow>
   \<exists>r. dir_search fs c n es = Inr r \<and> (\<forall>i. r = Some i \<longrightarrow> i < length (inodes fs))"
proof (induction fs c n es rule: dir_search.induct)
  case (3 fs c n e es)
  then show ?case by (cases "iname (inodes fs ! unat e) = c") (auto simp: get_inode_at_idx_def)
qed simp_all

lemma lookup_step_cases:
  assumes "tree_ok fs" "b < length (inodes fs)"
  obtains e where "lookup_step fs b c fe = Inl e" "\<And>e'. faults fs b c e' \<longleftrightarrow> e' = e"
  | r where "lookup_step fs b c fe = Inr r" "\<And>e. \<not> faults fs b c e" "\<And>i. r = Some i \<Longrightarrow> i < length (inodes fs)"
proof -
  have "links_ok fs" using assms(1) by (simp add: tree_ok_def)
  then show thesis using assms(2)
  proof (cases rule: follow_in)
    case 1
    then show ?thesis using that(1) [of NullDeref] by (auto simp: lookup_step_def faults_def)
  next
    case (2 d)
    let ?x = "inodes fs ! d"
    show ?thesis
    proof (cases "itype ?x \<noteq> FT_FILE \<and> FILENAME_MAX_LEN \<le> length c")
      case True
      then show ?thesis using that(1) [of OutOfBounds] 2 by (auto simp: lookup_step_def faults_def)
    next
      case False
      have "\<exists>r. lookup_step fs b c fe = Inr r \<and> (\<forall>i. r = Some i \<longrightarrow> i < length (inodes fs))"
      proof (cases "itype ?x = FT_FILE")
        case no: False
        then have x: "unat (iparent ?x) < length (inodes fs)" "unat (idata ?x) \<le> length (iblocks ?x)"
          "\<forall>e \<in> set (take (unat (idata ?x)) (iblocks ?x)). unat e < length (inodes fs)" "0 < length (inodes fs)"
          using assms(1) 2 by (auto simp: tree_ok_def)
        show ?thesis using 2 no False x dir_search_total [OF x(2,3), of c]
          by (auto simp: lookup_step_def path_step_def get_root_inode_def get_inode_at_idx_def)
      qed (use 2 in \<open>simp add: lookup_step_def\<close>)
      then show ?thesis using that(2) False 2 by (auto simp: faults_def)
    qed
  qed
qed

lemma lookup_faults:
  assumes "tree_ok fs"
  shows "b < length (inodes fs) \<Longrightarrow> lookup fs (Some b) cs fe = Inl e \<longleftrightarrow>
    (\<exists>ds c es d. cs = ds @ c # es \<and> lookup fs (Some b) ds fe = Inr (Some d) \<and> faults fs d c e)"
proof (induction cs arbitrary: b fe)
  case (Cons c cs)
  have split: "(\<exists>ds c' es d. c # cs = ds @ c' # es \<and> lookup fs (Some b) ds fe = Inr (Some d) \<and> faults fs d c' e) \<longleftrightarrow>
    faults fs b c e \<or> (\<exists>ds c' es d. cs = ds @ c' # es \<and> lookup fs (Some b) (c # ds) fe = Inr (Some d) \<and> faults fs d c' e)" (is "?l \<longleftrightarrow> ?r")
  proof
    assume ?l
    then obtain ds c' es d where d: "c # cs = ds @ c' # es" "lookup fs (Some b) ds fe = Inr (Some d)" "faults fs d c' e" by blast
    then show ?r by (cases ds) auto
  next
    assume ?r
    then show ?l
    proof
      assume "faults fs b c e"
      then show ?l by (intro exI [of _ "[]"] exI [of _ c] exI [of _ cs] exI [of _ b]) simp
    next
      assume "\<exists>ds c' es d. cs = ds @ c' # es \<and> lookup fs (Some b) (c # ds) fe = Inr (Some d) \<and> faults fs d c' e"
      then obtain ds c' es d where "cs = ds @ c' # es" "lookup fs (Some b) (c # ds) fe = Inr (Some d)" "faults fs d c' e" by blast
      then show ?l by (intro exI [of _ "c # ds"] exI [of _ c'] exI [of _ es] exI [of _ d]) simp
    qed
  qed
  show ?case unfolding split using assms Cons.prems
  proof (cases rule: lookup_step_cases [where c = c and fe = fe])
    case (2 r)
    then show "lookup fs (Some b) (c # cs) fe = Inl e \<longleftrightarrow> faults fs b c e \<or>
      (\<exists>ds c' es d. cs = ds @ c' # es \<and> lookup fs (Some b) (c # ds) fe = Inr (Some d) \<and> faults fs d c' e)"
      using Cons.IH [of _ False] by (cases r) auto
  qed auto
qed simp

text \<open>
  C39: In a tree whose links, parents and directory entries name inodes of the table, a lookup leaves
  defined behaviour exactly when the walk reaches, at any position of the path, an inode from which
  the next component cannot be taken: a link whose chain does not resolve (dangling, cyclic or
  longer than ten hops), whose null result is dereferenced, or anything but a file when the component
  has 28 bytes or more, whose copy then runs past the component buffer. On every other path the lookup
  returns, with an inode or with null.
\<close>

theorem path_lookup_faults:
  assumes "tree_ok fs" "b < length (inodes fs)"
  shows "get_inode_by_path fs (Some b) path = Inl e \<longleftrightarrow>
    (\<exists>cs c ds d. path_components path = cs @ c # ds \<and> lookup fs (Some b) cs True = Inr (Some d) \<and>
      (follow_symlink fs d = Inr None \<and> e = NullDeref \<or>
       (\<exists>d'. follow_symlink fs d = Inr (Some d') \<and> itype (inodes fs ! d') \<noteq> FT_FILE \<and>
          FILENAME_MAX_LEN \<le> length c \<and> e = OutOfBounds)))"
  unfolding get_inode_by_path_def helper_lookup using lookup_faults [OF assms, of _ True e] by (simp add: faults_def)

text \<open>The small tree with the link \<open>l\<close>, which leads to itself, in the root.\<close>

definition link_tree :: fsys where
  "link_tree = sample_tree\<lparr>inodes := (inodes sample_tree)[0 := (inodes sample_tree ! 0)\<lparr>idata := 2, iblocks := [1, 3]\<rparr>]\<rparr>"

lemma dir_search_numeral: "dir_search fs c (numeral n) es = dir_search fs c (Suc (pred_numeral n)) es"
  by (simp only: numeral_eq_Suc)

theorem path_lookup_faults_witness:
  "get_inode_by_path link_tree (Some 0) [108, 47, 120] = Inl NullDeref \<and>
   get_inode_by_path link_tree (Some 0) ([97, 47] @ replicate 28 120) = Inl OutOfBounds \<and>
   get_inode_by_path link_tree (Some 0) [97] \<noteq> Inl NullDeref"
proof -
  let ?long = "replicate 28 (120 :: u8)"
  note eval = lookup_step_def path_step_def link_tree_def sample_tree_def follow_symlink_def follow_symlink_loop.simps
    get_inode_at_idx_def FS_ROOT_PATH_def bytes_of_def dir_search_numeral
  have ok: "tree_ok link_tree" "0 < length (inodes link_tree)"
    by (auto simp: tree_ok_def links_ok_def link_tree_def sample_tree_def is_link_def link_target_def less_Suc_eq)
  have link: "lookup link_tree (Some 0) [[108]] True = Inr (Some 3)" "follow_symlink link_tree 3 = Inr None"
    "path_components [108, 47, 120] = [[108]] @ [120] # []"
    by (simp_all add: eval path_components.simps)
  have n: "FILENAME_MAX_LEN \<le> length ?long" by simp
  have long: "lookup link_tree (Some 0) [[97]] True = Inr (Some 1)" "follow_symlink link_tree 1 = Inr (Some 1)"
    "itype (inodes link_tree ! 1) \<noteq> FT_FILE" "path_components ([97, 47] @ ?long) = [[97]] @ ?long # []"
    by (simp_all add: eval path_components.simps)
  have root: "follow_symlink link_tree 0 = Inr (Some 0)" "path_components [97] = [[97]]"
    by (simp_all add: eval path_components.simps)
  have "get_inode_by_path link_tree (Some 0) [108, 47, 120] = Inl NullDeref"
    unfolding path_lookup_faults [OF ok] using link by blast
  moreover have "get_inode_by_path link_tree (Some 0) ([97, 47] @ ?long) = Inl OutOfBounds"
    unfolding path_lookup_faults [OF ok] using long n by blast
  moreover have "get_inode_by_path link_tree (Some 0) [97] \<noteq> Inl NullDeref"
    unfolding path_lookup_faults [OF ok] using root by (auto simp: Cons_eq_append_conv)
  ultimately show ?thesis by blast
qed

end
