(* ===== verification/PathName.thy ===== *)
theory PathName
  imports FsPath
begin

text \<open>
  \<^verbatim>\<open>path_helper\<close> of \<^verbatim>\<open>kernel/src/syscall.c\<close>, the core of \<^verbatim>\<open>sys_pwd\<close> and \<^verbatim>\<open>sys_symlink_info\<close>: it
  walks from an inode up to the root twice, first to add up the length of the path, then to write
  the path into the user's buffer from its end. The walks are partial functions: a parent chain
  that never reaches the root makes the source loop for ever. The main result is the round trip:
  the path written, looked up again from any directory, gives the inode.
\<close>

section \<open>Definitions\<close>

abbreviation HIGHER_HALF_BASE :: u32 where "HIGHER_HALF_BASE \<equiv> 0xC0000000"

text \<open>A range of addresses in the user half of the address space.\<close>

definition user_range :: "u32 \<Rightarrow> nat \<Rightarrow> bool" where
  "user_range a n \<longleftrightarrow> unat a + n \<le> 0xC0000000"

text \<open>The bytes of a kernel object copied to user memory.\<close>

fun put_bytes :: "u8 list \<Rightarrow> u32 \<Rightarrow> mem \<Rightarrow> mem" where
  "put_bytes [] dst m = m"
| "put_bytes (c # cs) dst m = put_bytes cs (dst + 1) (m(dst := c))"

partial_function (option) path_len :: "fsys \<Rightarrow> nat \<Rightarrow> u32 \<Rightarrow> (u32 \<times> nat) kres option" where
  "path_len fs cur len =
     (if cur < length (inodes fs) then
        (let x = inodes fs ! cur
         in if str_cmp (iname x) FS_ROOT_PATH \<noteq> 0
            then path_len fs (get_inode_at_idx (iparent x)) (len + (of_nat (length (iname x)) + 1))
            else Some (Inr (len + (of_nat (length (iname x)) + 1), cur)))
      else Some (Inl OutOfBounds))"

partial_function (option) path_copy :: "fsys \<Rightarrow> u32 \<Rightarrow> nat \<Rightarrow> u32 \<Rightarrow> mem \<Rightarrow> (nat \<times> mem) kres option" where
  "path_copy fs buf cur len m =
     (if cur < length (inodes fs) then
        (let x = inodes fs ! cur
         in if str_cmp (iname x) FS_ROOT_PATH \<noteq> 0
            then
              (let len = len - of_nat (length (iname x));
                   m = put_bytes (iname x) (buf + len) m;
                   len = len - 1;
                   m = m(buf + len := SLASH)
               in path_copy fs buf (get_inode_at_idx (iparent x)) len m)
            else Some (Inr (cur, m)))
      else Some (Inl OutOfBounds))"

definition path_helper :: "fsys \<Rightarrow> nat \<Rightarrow> u32 \<Rightarrow> u32 \<Rightarrow> mem \<Rightarrow> (u32 \<times> mem) kres" where
  "path_helper fs i buf buf_len m =
     kbind (kwait (path_len fs i 0)) (\<lambda>r.
     kbind r (\<lambda>(len, _).
       if len > buf_len then Inr (-1, m)
       else if \<not> user_range buf (unat len) then Inl OutOfBounds
       else
         let len = len - 1; m = m(buf + len := 0)
         in kbind (kwait (path_copy fs buf i len m)) (\<lambda>r.
            kbind r (\<lambda>(cur, m).
            kbind (kget (inodes fs) cur) (\<lambda>x.
              Inr (0, put_bytes (iname x) buf m))))))"

section \<open>The path of an inode\<close>

text \<open>\<open>up_chain fs i ps\<close>: the parents of \<open>i\<close>, up to the root, are \<open>ps\<close>.\<close>

fun up_chain :: "fsys \<Rightarrow> nat \<Rightarrow> nat list \<Rightarrow> bool" where
  "up_chain fs i [] \<longleftrightarrow> i < length (inodes fs) \<and> iname (inodes fs ! i) = FS_ROOT_PATH"
| "up_chain fs i (p # ps) \<longleftrightarrow> i < length (inodes fs) \<and> iname (inodes fs ! i) \<noteq> FS_ROOT_PATH \<and>
     p = unat (iparent (inodes fs ! i)) \<and> up_chain fs p ps"

fun path_of :: "fsys \<Rightarrow> nat \<Rightarrow> nat list \<Rightarrow> u8 list" where
  "path_of fs i [] = iname (inodes fs ! i)"
| "path_of fs i (p # ps) = path_of fs p ps @ SLASH # iname (inodes fs ! i)"

definition chain_root :: "nat \<Rightarrow> nat list \<Rightarrow> nat" where
  "chain_root i ps = last (i # ps)"

lemma put_bytes_eq:
  "length cs \<le> 4294967296 \<Longrightarrow> put_bytes cs dst m = upd_range m dst (length cs) (\<lambda>k. cs ! k)"
proof (induction cs arbitrary: dst m)
  case (Cons c cs)
  then show ?case using upd_range_Cons [of "length cs" m dst "\<lambda>k. (c # cs) ! k"] by simp
qed simp

lemma up_chain_tail: "up_chain fs i (p # ps) \<Longrightarrow> up_chain fs p ps"
  unfolding up_chain.simps by (elim conjE)

lemma chain_root_Cons: "chain_root i (p # ps) = chain_root p ps"
  by (simp add: chain_root_def)

lemma path_len_chain:
  "up_chain fs i ps \<Longrightarrow> path_len fs i len = Some (Inr (len + of_nat (length (path_of fs i ps)) + 1, chain_root i ps))"
proof (induction ps arbitrary: i len)
  case Nil
  then show ?case by (subst path_len.simps) (simp add: chain_root_def)
next
  case (Cons p ps)
  have "path_len fs i len = path_len fs p (len + (of_nat (length (iname (inodes fs ! i))) + 1))"
    using Cons.prems by (subst path_len.simps) (simp add: get_inode_at_idx_def Let_def)
  also have "\<dots> = Some (Inr (len + (of_nat (length (iname (inodes fs ! i))) + 1) + of_nat (length (path_of fs p ps)) + 1, chain_root p ps))"
    by (rule Cons.IH) (rule up_chain_tail [OF Cons.prems])
  finally show ?case by (simp add: chain_root_Cons add_ac)
qed

lemma path_of_root:
  "up_chain fs i ps \<Longrightarrow> \<exists>q. path_of fs i ps = FS_ROOT_PATH @ q"
proof (induction ps arbitrary: i)
  case (Cons p ps)
  then obtain q where "path_of fs p ps = FS_ROOT_PATH @ q" by auto
  then show ?case by simp
qed simp

lemma root_path_len [simp]: "length FS_ROOT_PATH = 1"
  by (simp add: FS_ROOT_PATH_def bytes_of_def)

lemma path_of_pos: "up_chain fs i ps \<Longrightarrow> 0 < length (path_of fs i ps)"
  using path_of_root [of fs i ps] root_path_len by (metis append_is_Nil_conv length_greater_0_conv zero_less_one)

lemma upd_range_first:
  "n < 4294967296 \<Longrightarrow> (upd_range m (p + 1) n (\<lambda>k. cs ! k))(p := c) = upd_range m p (Suc n) (\<lambda>k. (c # cs) ! k)"
  using upd_range_Suc [of 0 "upd_range m (p + 1) n (\<lambda>k. cs ! k)" p "\<lambda>_. c" c]
    upd_range_prepend [of 1 n m p "\<lambda>k. cs ! k" "\<lambda>_. c"]
  by (auto intro!: upd_range_cong simp: nth_Cons')

lemma path_copy_chain:
  assumes "up_chain fs i ps" "length (path_of fs i ps) < 4294967296"
  shows "path_copy fs buf i (of_nat (length (path_of fs i ps))) m =
    Some (Inr (chain_root i ps,
      upd_range m (buf + 1) (length (path_of fs i ps) - 1) (\<lambda>k. path_of fs i ps ! (k + 1))))"
  using assms
proof (induction ps arbitrary: i m)
  case Nil
  then show ?case by (subst path_copy.simps) (simp add: chain_root_def)
next
  case (Cons p ps)
  let ?P = "path_of fs p ps" and ?n = "iname (inodes fs ! i)"
  let ?L = "length ?P"
  have L: "0 < ?L" "?L + Suc (length ?n) < 4294967296" using Cons.prems path_of_pos [of fs p ps] by auto
  let ?m = "upd_range m (buf + of_nat ?L) (length (SLASH # ?n)) (\<lambda>k. (SLASH # ?n) ! k)"
  have m: "(put_bytes ?n (buf + of_nat ?L + 1) m)(buf + of_nat ?L := SLASH) = ?m"
    using L upd_range_first [of "length ?n" m "buf + of_nat ?L" ?n SLASH] by (simp add: put_bytes_eq)
  have "path_copy fs buf i (of_nat (length (path_of fs i (p # ps)))) m = path_copy fs buf p (of_nat ?L) ?m"
    using Cons.prems m by (subst path_copy.simps) (simp add: get_inode_at_idx_def Let_def algebra_simps)
  also have "\<dots> = Some (Inr (chain_root p ps, upd_range ?m (buf + 1) (?L - 1) (\<lambda>k. ?P ! (k + 1))))"
    by (rule Cons.IH [OF up_chain_tail [OF Cons.prems(1)]]) (use L in linarith)
  also have "upd_range ?m (buf + 1) (?L - 1) (\<lambda>k. ?P ! (k + 1)) =
      upd_range m (buf + 1) (?L + length ?n) (\<lambda>k. path_of fs i (p # ps) ! (k + 1))"
  proof -
    have b: "buf + of_nat ?L = buf + 1 + of_nat (?L - 1)" 
      using L(1) of_nat_Suc [of "?L - 1", where 'a = "32 word"] by simp
    have len: "?L + length ?n = (?L - 1) + length (SLASH # ?n)" using L(1) by simp
    have "upd_range ?m (buf + 1) (?L - 1) (\<lambda>k. ?P ! (k + 1)) = upd_range m (buf + 1) ((?L - 1) + length (SLASH # ?n))
        (\<lambda>k. if k < ?L - 1 then ?P ! (k + 1) else (SLASH # ?n) ! (k - (?L - 1)))"
      unfolding b using L(2) by (intro upd_range_prepend) simp
    also have "\<dots> = upd_range m (buf + 1) (?L + length ?n) (\<lambda>k. path_of fs i (p # ps) ! (k + 1))"
    proof -
      have "k - (?L - 1) = Suc k - ?L" for k using L(1) by arith
      then show ?thesis unfolding len by (intro upd_range_cong) (simp add: nth_append less_diff_conv)
    qed
    finally show ?thesis .
  qed
  finally show ?case by (simp add: chain_root_Cons)
qed

lemma path_helper_chain:
  assumes c: "up_chain fs i ps" and len: "length (path_of fs i ps) < unat buf_len"
    and buf: "user_range buf (length (path_of fs i ps) + 1)"
  shows "path_helper fs i buf buf_len m =
    Inr (0, upd_range m buf (length (path_of fs i ps) + 1) (\<lambda>k. (path_of fs i ps @ [0]) ! k))"
proof -
  let ?p = "path_of fs i ps"
  let ?n = "of_nat (length ?p) :: u32"
  have b: "length ?p + 1 < 4294967296" using len u32_bound [of buf_len] by linarith
  then have u: "unat (?n + 1) = length ?p + 1" by (simp add: unat_word_ariths)
  then have le: "\<not> ?n + 1 > buf_len" using len by (simp add: word_less_nat_alt)
  have root: "chain_root i ps < length (inodes fs)" "iname (inodes fs ! chain_root i ps) = FS_ROOT_PATH"
    using c by (induction ps arbitrary: i) (simp_all add: chain_root_def)
  obtain q where q: "?p = FS_ROOT_PATH @ q" using path_of_root [OF c] ..
  let ?m1 = "upd_range (m(buf + ?n := 0)) (buf + 1) (length ?p - 1) (\<lambda>k. ?p ! (k + 1))"
  have "path_helper fs i buf buf_len m = Inr (0, put_bytes FS_ROOT_PATH buf ?m1)"
    using path_len_chain [OF c, of 0] path_copy_chain [OF c, of buf "m(buf + ?n := 0)"] le u buf b root
    by (simp add: path_helper_def Let_def)
  also have "put_bytes FS_ROOT_PATH buf ?m1 = upd_range m buf (length ?p + 1) (\<lambda>k. (?p @ [0]) ! k)"
  proof -
    have qn: "?p = 126 # q" and r: "FS_ROOT_PATH = [126]" using q by (simp_all add: FS_ROOT_PATH_def bytes_of_def)
    have "put_bytes FS_ROOT_PATH buf ?m1 = upd_range (m(buf + ?n := 0)) buf (length ?p) (\<lambda>k. ?p ! k)"
      using b upd_range_first [of "length q" "m(buf + ?n := 0)" buf q 126] unfolding qn r by simp
    also have "\<dots> = upd_range m buf (length ?p + 1) (\<lambda>k. (?p @ [0]) ! k)"
      using b upd_range_Suc [of 0 m "buf + ?n" "\<lambda>_. 0" 0] upd_range_prepend [of "length ?p" 1 m buf "\<lambda>_. 0" "\<lambda>k. ?p ! k"]
      by (auto intro!: upd_range_cong simp: nth_append less_Suc_eq)
    finally show ?thesis .
  qed
  finally show ?thesis .
qed

section \<open>Looking the path up again\<close>

definition proper_name :: "u8 list \<Rightarrow> bool" where
  "proper_name c \<longleftrightarrow> c \<noteq> [] \<and> SLASH \<notin> set c \<and> 0 \<notin> set c \<and> length c < FILENAME_MAX_LEN \<and>
     c \<notin> {bytes_of ''.'', bytes_of ''..'', FS_ROOT_PATH}"

text \<open>
  An inode that its parent directory lists under its name, and an inode that names can be looked
  up in.
\<close>

definition listed :: "fsys \<Rightarrow> nat \<Rightarrow> bool" where
  "listed fs i \<longleftrightarrow> i < length (inodes fs) \<and> proper_name (iname (inodes fs ! i)) \<and>
     (let p = unat (iparent (inodes fs ! i))
      in p < length (inodes fs) \<and> itype (inodes fs ! p) = FT_DIRECTORY \<and>
         dir_search fs (iname (inodes fs ! i)) (unat (idata (inodes fs ! p))) (iblocks (inodes fs ! p)) = Inr (Some i))"

lemma path_components_name:
  assumes "c \<noteq> []" "SLASH \<notin> set c"
  shows "path_components c = [c]"
proof -
  have d: "dropWhile (\<lambda>ch. ch = SLASH) c = c" using assms by (cases c) auto
  have t: "takeWhile (\<lambda>ch. ch \<noteq> SLASH) c = c" "dropWhile (\<lambda>ch. ch \<noteq> SLASH) c = []"
    using assms(2) by auto
  show ?thesis by (simp only: path_components_Cons [OF d assms(1)] t path_components_Nil dropWhile.simps)
qed

lemma lookup_listed:
  assumes "listed fs i" "p = unat (iparent (inodes fs ! i))"
  shows "lookup fs (Some p) [iname (inodes fs ! i)] False = Inr (Some i)"
proof -
  have p: "p < length (inodes fs)" "itype (inodes fs ! p) = FT_DIRECTORY"
    using assms by (auto simp: listed_def Let_def)
  then have "follow_symlink fs p = Inr (Some p)" by (simp add: follow_symlink_def follow_symlink_loop.simps)
  with p assms show ?thesis
    by (simp add: lookup_step_def path_step_def listed_def proper_name_def Let_def)
qed

lemma lookup_path_of:
  assumes "up_chain fs i ps" "\<forall>j \<in> set (butlast (i # ps)). listed fs j" "chain_root i ps = 0"
    and b: "follow_symlink fs b = Inr (Some d)" "d < length (inodes fs)" "itype (inodes fs ! d) \<noteq> FT_FILE"
  shows "path_components (path_of fs i ps) \<noteq> [] \<and>
    lookup fs (Some b) (path_components (path_of fs i ps)) True = Inr (Some i)"
  using assms(1-3)
proof (induction ps arbitrary: i)
  case Nil
  have r: "path_components FS_ROOT_PATH = [FS_ROOT_PATH]"
    by (rule path_components_name) (simp_all add: FS_ROOT_PATH_def bytes_of_def)
  have "path_step fs d (inodes fs ! d) FS_ROOT_PATH True = Inr (Some 0)"
    by (simp add: path_step_def FS_ROOT_PATH_def bytes_of_def get_root_inode_def get_inode_at_idx_def)
  with Nil b r show ?case by (simp add: lookup_step_def chain_root_def)
next
  case (Cons p ps)
  have c: "up_chain fs p ps" by (rule up_chain_tail [OF Cons.prems(1)])
  have IH: "path_components (path_of fs p ps) \<noteq> []"
      "lookup fs (Some b) (path_components (path_of fs p ps)) True = Inr (Some p)"
    using Cons.IH [OF c] Cons.prems(2,3) by (auto simp: chain_root_Cons)
  have l: "listed fs i" "p = unat (iparent (inodes fs ! i))" using Cons.prems(1,2) by simp_all
  then have "path_components (iname (inodes fs ! i)) = [iname (inodes fs ! i)]"
    by (intro path_components_name) (simp_all add: listed_def proper_name_def)
  with IH lookup_listed [OF l] show ?case by (simp add: path_components_append lookup_append)
qed

lemma path_of_no_NUL:
  "up_chain fs i ps \<Longrightarrow> \<forall>j \<in> set (butlast (i # ps)). listed fs j \<Longrightarrow> 0 \<notin> set (path_of fs i ps)"
proof (induction ps arbitrary: i)
  case Nil
  then show ?case by (simp add: FS_ROOT_PATH_def bytes_of_def)
next
  case (Cons p ps)
  have "0 \<notin> set (path_of fs p ps)"
    using Cons.IH [OF up_chain_tail [OF Cons.prems(1)]] Cons.prems(2) by auto
  with Cons.prems show ?case by (simp add: listed_def proper_name_def)
qed

text \<open>
  C4: For an inode under the root whose ancestors list one another under proper names,
  \<^verbatim>\<open>path_helper\<close> ends, returns 0 when the buffer is long enough and holds in user memory, and
  leaves a NUL-terminated path in the buffer, no byte outside it changed; looking that path up from
  any directory gives the inode back.
\<close>

theorem path_helper_roundtrip:
  assumes "up_chain fs i ps" "\<forall>j \<in> set (butlast (i # ps)). listed fs j" "chain_root i ps = 0"
    and "length (path_of fs i ps) < unat buf_len" "user_range buf (length (path_of fs i ps) + 1)"
    and "follow_symlink fs b = Inr (Some d)" "d < length (inodes fs)" "itype (inodes fs ! d) \<noteq> FT_FILE"
  shows "\<exists>m' path. path_helper fs i buf buf_len m = Inr (0, m') \<and> str_at m' buf path \<and>
    (\<forall>a. length path < unat (a - buf) \<longrightarrow> m' a = m a) \<and>
    get_inode_by_path fs (Some b) path = Inr (Some i)"
proof -
  let ?p = "path_of fs i ps"
  let ?m = "upd_range m buf (length ?p + 1) (\<lambda>k. (?p @ [0]) ! k)"
  have b: "length ?p + 1 < 4294967296" using assms(4) u32_bound [of buf_len] by linarith
  have "?m (buf + of_nat k) = (?p @ [0]) ! k" if "k < length ?p + 1" for k
    using that b by (intro upd_range_at) auto
  then have "str_at ?m buf ?p"
    using path_of_no_NUL [OF assms(1,2)] by (auto simp: str_at_nth nth_append dest: nth_mem)
  moreover have "get_inode_by_path fs (Some b) ?p = Inr (Some i)"
    using lookup_path_of [OF assms(1-3,6-8)] by (simp add: get_inode_by_path_def helper_lookup)
  ultimately show ?thesis
    using path_helper_chain [OF assms(1,4,5), of m] by (intro exI [of _ ?m] exI [of _ ?p]) (simp add: upd_range_notin)
qed

theorem path_helper_roundtrip_witness:
  "\<exists>m' path. path_helper sample_tree 2 1000 100 (\<lambda>_. 0) = Inr (0, m') \<and> str_at m' 1000 path \<and>
     get_inode_by_path sample_tree (Some 1) path = Inr (Some 2)"
proof -
  have t: "follow_symlink sample_tree 1 = Inr (Some 1)"
    by (simp add: sample_tree_def follow_symlink_def follow_symlink_loop.simps)
  have up: "up_chain sample_tree 2 [1, 0]"
    by (simp add: sample_tree_def FS_ROOT_PATH_def bytes_of_def)
  have "listed sample_tree 2" "listed sample_tree 1"
    by (simp_all add: listed_def proper_name_def sample_tree_def FS_ROOT_PATH_def bytes_of_def get_inode_at_idx_def)
  moreover have "length (path_of sample_tree 2 [1, 0]) = 5"
    by (simp add: sample_tree_def FS_ROOT_PATH_def bytes_of_def)
  ultimately show ?thesis
    using path_helper_roundtrip [OF up _ _ _ _ t, of 100 1000 "\<lambda>_. 0"]
    by (auto simp: chain_root_def user_range_def sample_tree_def)
qed

end
