(* ===== verification/ByteSource.thy ===== *)
theory ByteSource
  imports PathName
begin

text \<open>
  The interface between \<^verbatim>\<open>sys_read\<close> and the two byte streams it can block on, the terminal and the
  pipes. Both keep a buffer with a read and a write pointer, and the two copy loops of
  \<^verbatim>\<open>sys_read\<close> (\<^verbatim>\<open>kernel/src/syscall.c\<close>, lines 117 to 126 and 141 to 150) are the same loop over a
  different stream; it is the function \<open>read_loop\<close> here, which takes the stream's emptiness test
  and its pop operation. The locale \<open>byte_source\<close> states what the loop needs of a stream: an
  abstraction to the list of bytes that can be read and the laws of the two operations. What
  \<open>read_loop\<close> returns and leaves behind is proved in it once; the theories \<open>Tty\<close> and \<open>PipeBuf\<close>
  interpret it.
\<close>

function read_loop :: "('s \<Rightarrow> bool) \<Rightarrow> ('s \<Rightarrow> (u8 \<times> 's) kres) \<Rightarrow> u32 \<Rightarrow> u32 \<Rightarrow> u32 \<Rightarrow> 's \<times> mem \<Rightarrow> (u32 \<times> 's \<times> mem) kres"
where
  "read_loop is_empty pop buf target count sm =
     (if count < target then
        if is_empty (fst sm) then Inr (count, sm)
        else if \<not> user_range (buf + count) 1 then Inl OutOfBounds
        else kbind (pop (fst sm)) (\<lambda>(b, s). read_loop is_empty pop buf target (count + 1) (s, (snd sm)(buf + count := b)))
      else Inr (count, sm))"
  by pat_completeness auto
termination
  by (relation "measure (\<lambda>(e, p, buf, target, count, sm). unat target - unat count)") (auto, unat_arith)

declare read_loop.simps [simp del]

locale byte_source =
  fixes is_empty :: "'s \<Rightarrow> bool" and pop :: "'s \<Rightarrow> (u8 \<times> 's) kres"
    and contents :: "'s \<Rightarrow> u8 list" and inv :: "'s \<Rightarrow> bool"
  assumes empty_iff: "inv s \<Longrightarrow> is_empty s \<longleftrightarrow> contents s = []"
    and pop_law: "inv s \<Longrightarrow> contents s = b # bs \<Longrightarrow> \<exists>s'. pop s = Inr (b, s') \<and> contents s' = bs \<and> inv s'"
begin

lemma read_loop_from:
  assumes "inv s" "unat count \<le> unat target" "user_range buf (unat target) \<or> user_range buf (unat count + length (contents s))"
  shows "\<exists>s'. read_loop is_empty pop buf target count (s, m) =
      Inr (count + of_nat (min (unat target - unat count) (length (contents s))), s',
           upd_range m (buf + count) (min (unat target - unat count) (length (contents s))) (\<lambda>k. contents s ! k)) \<and>
    inv s' \<and> contents s' = drop (unat target - unat count) (contents s)"
  using assms
proof (induction "unat target - unat count" arbitrary: s count m)
  case 0
  then show ?case by (subst read_loop.simps) (simp add: word_less_nat_alt)
next
  case (Suc n)
  have lt: "count < target" using Suc(2) by (simp add: word_less_nat_alt)
  show ?case
  proof (cases "contents s")
    case Nil
    then show ?thesis using Suc.prems lt empty_iff by (subst read_loop.simps) simp
  next
    case (Cons b bs)
    then obtain s1 where s1: "pop s = Inr (b, s1)" "contents s1 = bs" "inv s1" using pop_law Suc.prems by blast
    have c1: "unat (count + 1) = unat count + 1"
      using lt u32_bound [of target] by (simp add: unat_word_ariths word_less_nat_alt del: u32_bound)
    have n: "n = unat target - unat (count + 1)" using Suc(2) c1 by simp
    have "unat buf + unat count < 0xC0000000"
      using Suc.prems(3) Cons lt by (auto simp: user_range_def word_less_nat_alt)
    then have rng: "user_range (buf + count) 1" by (simp add: user_range_def unat_word_ariths)
    let ?k = "min n (length bs)" and ?m = "m(buf + count := b)"
    obtain s' where s': "read_loop is_empty pop buf target (count + 1) (s1, ?m) =
        Inr (count + 1 + of_nat ?k, s', upd_range ?m (buf + (count + 1)) ?k (\<lambda>k. bs ! k))"
        "inv s'" "contents s' = drop n bs"
      using Suc(1) [OF n s1(3), of ?m] Suc.prems(2,3) c1 s1(2) Cons lt n
      by (auto simp: word_less_nat_alt)
    have "read_loop is_empty pop buf target count (s, m) = read_loop is_empty pop buf target (count + 1) (s1, ?m)"
      using lt s1(1) rng Cons empty_iff [OF Suc.prems(1)] by (subst read_loop.simps) simp
    moreover have "upd_range ?m (buf + (count + 1)) ?k (\<lambda>k. bs ! k) = upd_range m (buf + count) (Suc ?k) (\<lambda>k. (b # bs) ! k)"
    proof -
      have "Suc ?k \<le> 4294967296" using n u32_bound [of target] by linarith
      then show ?thesis using upd_range_Cons [of ?k m "buf + count" "\<lambda>k. (b # bs) ! k"] by (simp add: add.assoc)
    qed
    moreover have "min (unat target - unat count) (length (contents s)) = Suc ?k" using Cons Suc(2) by simp
    ultimately show ?thesis using s' Cons Suc(2) [symmetric] by (simp add: add_ac)
  qed
qed

text \<open>
  The whole loop: it returns the number of bytes asked for or available, whichever is less, puts
  exactly the oldest bytes of the stream into the buffer, in order, and leaves the rest in the
  stream.
\<close>

lemma read_loop_spec:
  assumes "inv s" "n = min (unat target) (length (contents s))" "user_range buf n"
  shows "\<exists>s'. read_loop is_empty pop buf target 0 (s, m) = Inr (of_nat n, s', upd_range m buf n (\<lambda>k. contents s ! k)) \<and>
    inv s' \<and> contents s' = drop n (contents s)"
proof -
  have "user_range buf (unat target) \<or> user_range buf (unat 0 + length (contents s))"
    using assms(2,3) by (auto simp: min_def user_range_def split: if_splits)
  moreover have "drop (unat target) (contents s) = drop n (contents s)" using assms(2) by (simp add: min_def)
  ultimately show ?thesis using read_loop_from [OF assms(1), of 0 target buf m] assms(2) by simp
qed

end

end
