(* ===== verification/PipeBuf.thy ===== *)
theory PipeBuf
  imports ByteSource
begin

text \<open>
  The pipe buffers of \<^verbatim>\<open>kernel/include/syscall.h\<close> and the parts of \<^verbatim>\<open>sys_read\<close> and \<^verbatim>\<open>sys_write\<close> in
  \<^verbatim>\<open>kernel/src/syscall.c\<close> that move bytes through them. A pipe is its \<^verbatim>\<open>struct pipe_data\<close> with its
  row of \<^verbatim>\<open>pipe_buffers\<close>. Bytes become readable a line at a time. The abstract pipe is the pair of
  the readable bytes and the unfinished line; as long as fewer than 16384 bytes have been written
  in all, writing and reading refine it. The write pointer is advanced by \<^verbatim>\<open>x + 1 % SIZE\<close>, which C
  parses as \<open>x + (1 mod SIZE)\<close>, so it never wraps around: the last section shows where that ends.
\<close>

abbreviation PIPE_BUF_SIZE :: u32 where "PIPE_BUF_SIZE \<equiv> 16384"
abbreviation NUM_PIPE_BUFS :: nat where "NUM_PIPE_BUFS \<equiv> 16"
abbreviation NEWLINE :: u8 where "NEWLINE \<equiv> 10"

record pipe_data =
  pnum_refs :: u32
  pread_ptr :: u32
  pwrite_ptr :: u32
  pinternal_write_ptr :: u32

type_synonym pipe = "pipe_data \<times> u8 list"

section \<open>Operations\<close>

definition pipe_empty :: "pipe \<Rightarrow> bool" where
  "pipe_empty p \<longleftrightarrow> pread_ptr (fst p) = pwrite_ptr (fst p)"

definition pipe_pop :: "pipe \<Rightarrow> (u8 \<times> pipe) kres" where
  "pipe_pop = (\<lambda>(d, b).
     kbind (kget b (unat (pread_ptr d))) (\<lambda>c. Inr (c, d\<lparr>pread_ptr := (pread_ptr d + 1) mod PIPE_BUF_SIZE\<rparr>, b)))"

text \<open>The write loop of \<^verbatim>\<open>sys_write\<close>: \<open>eax\<close> is the result so far, -1 when the pipe is found full.\<close>

function pipe_write_loop :: "mem \<Rightarrow> u32 \<Rightarrow> u32 \<Rightarrow> u32 \<Rightarrow> u32 \<Rightarrow> pipe \<Rightarrow> (u32 \<times> pipe) kres" where
  "pipe_write_loop m buf edx i eax p =
     (case p of (d, b) \<Rightarrow>
        if i < edx then
          if (pinternal_write_ptr d + 1) mod PIPE_BUF_SIZE = pread_ptr d mod PIPE_BUF_SIZE then Inr (-1, d, b)
          else if \<not> user_range (buf + i) 1 then Inl OutOfBounds
          else
            kbind (kset b (unat (pinternal_write_ptr d)) (m (buf + i))) (\<lambda>b.
              let d = d\<lparr>pinternal_write_ptr := pinternal_write_ptr d + 1 mod PIPE_BUF_SIZE\<rparr>;
                  d = (if m (buf + i) = NEWLINE then d\<lparr>pwrite_ptr := pinternal_write_ptr d\<rparr> else d)
              in pipe_write_loop m buf edx (i + 1) eax (d, b))
        else Inr (eax, d, b))"
  by pat_completeness auto
termination
  by (relation "measure (\<lambda>(m, buf, edx, i, eax, p). unat edx - unat i)") (auto, unat_arith+)

declare pipe_write_loop.simps [simp del]

definition pipe_reset :: pipe_data where
  "pipe_reset = \<lparr>pnum_refs = 2, pread_ptr = 0, pwrite_ptr = 0, pinternal_write_ptr = 0\<rparr>"

section \<open>Invariant and abstraction\<close>

definition pipe_wf :: "pipe \<Rightarrow> bool" where [wf_defs]:
  "pipe_wf p \<longleftrightarrow> length (snd p) = 16384 \<and> pread_ptr (fst p) \<le> pwrite_ptr (fst p) \<and>
     pwrite_ptr (fst p) \<le> pinternal_write_ptr (fst p) \<and> unat (pinternal_write_ptr (fst p)) < 16384"

definition slice :: "'a list \<Rightarrow> nat \<Rightarrow> nat \<Rightarrow> 'a list" where
  "slice xs i j = map (\<lambda>k. xs ! k) [i..<j]"

definition pipe_readable :: "pipe \<Rightarrow> u8 list" where
  "pipe_readable p = slice (snd p) (unat (pread_ptr (fst p))) (unat (pwrite_ptr (fst p)))"

definition pipe_line :: "pipe \<Rightarrow> u8 list" where
  "pipe_line p = slice (snd p) (unat (pwrite_ptr (fst p))) (unat (pinternal_write_ptr (fst p)))"

text \<open>The abstract pipe: bytes that can be read, and the line being written.\<close>

fun line_push :: "u8 \<Rightarrow> u8 list \<times> u8 list \<Rightarrow> u8 list \<times> u8 list" where
  "line_push c (q, l) = (if c = NEWLINE then (q @ l @ [c], []) else (q, l @ [c]))"

definition pipe_abs :: "pipe \<Rightarrow> u8 list \<times> u8 list" where
  "pipe_abs p = (pipe_readable p, pipe_line p)"

lemma slice_Nil [simp]: "j \<le> i \<Longrightarrow> slice xs i j = []"
  by (simp add: slice_def)

lemma slice_Cons: "i < j \<Longrightarrow> slice xs i j = xs ! i # slice xs (Suc i) j"
  by (simp add: slice_def upt_conv_Cons)

lemma slice_snoc: "i \<le> j \<Longrightarrow> slice xs i (Suc j) = slice xs i j @ [xs ! j]"
  by (simp add: slice_def)

lemma slice_append: "i \<le> j \<Longrightarrow> j \<le> k \<Longrightarrow> slice xs i j @ slice xs j k = slice xs i k"
  by (metis le_Suc_ex map_append slice_def upt_add_eq_append)

lemma slice_update [simp]: "j \<le> n \<Longrightarrow> slice (xs[n := v]) i j = slice xs i j"
  by (auto simp: slice_def)

lemma length_slice [simp]: "length (slice xs i j) = j - i"
  by (simp add: slice_def)

interpretation pipe_source: byte_source pipe_empty pipe_pop pipe_readable pipe_wf
proof (unfold_locales, goal_cases)
  case (1 p)
  then show ?case
    by (auto simp: pipe_empty_def pipe_readable_def wf_defs slice_def word_le_nat_alt word_unat_eq_iff)
next
  case (2 p c cs)
  obtain d b where p [simp]: "p = (d, b)" by fastforce
  let ?r = "unat (pread_ptr d)" and ?w = "unat (pwrite_ptr d)"
  have rw: "?r < ?w" "?w < 16384" using 2 by (auto simp: pipe_readable_def wf_defs word_le_nat_alt intro: ccontr)
  then have r1: "unat ((pread_ptr d + 1) mod PIPE_BUF_SIZE) = Suc ?r"
    by (simp add: unat_mod_distrib unat_word_ariths)
  with 2 rw show ?case
    by (auto simp: pipe_pop_def pipe_readable_def wf_defs slice_Cons word_le_nat_alt)
qed

section \<open>Writing refines pushing onto the abstract pipe\<close>

lemma pipe_push_step:
  assumes wf: "pipe_wf (d, b)" and room: "unat (pinternal_write_ptr d) + 1 < 16384"
    and d': "d' = d\<lparr>pinternal_write_ptr := pinternal_write_ptr d + 1\<rparr>"
    and d'': "d'' = (if c = NEWLINE then d'\<lparr>pwrite_ptr := pinternal_write_ptr d'\<rparr> else d')"
    and b': "b' = b[unat (pinternal_write_ptr d) := c]"
  shows "pipe_wf (d'', b') \<and> pipe_abs (d'', b') = line_push c (pipe_abs (d, b)) \<and>
    unat (pinternal_write_ptr d'') = unat (pinternal_write_ptr d) + 1"
proof -
  let ?r = "unat (pread_ptr d)" and ?w = "unat (pwrite_ptr d)" and ?i = "unat (pinternal_write_ptr d)"
  have i1: "unat (pinternal_write_ptr d + 1) = Suc ?i" using room by (simp add: unat_word_ariths)
  have ord: "?r \<le> ?w" "?w \<le> ?i" "length b = 16384" using wf by (simp_all add: wf_defs word_le_nat_alt)
  have line: "slice b' ?w (Suc ?i) = slice b ?w ?i @ [c]"
    using ord room by (simp add: b' slice_snoc)
  moreover have "slice b' ?r ?w = slice b ?r ?w" using ord by (simp add: b')
  moreover have "slice b' ?r (Suc ?i) = slice b ?r ?w @ slice b ?w ?i @ [c]"
    using ord room slice_append [of ?r ?w ?i b] by (simp add: b' slice_snoc)
  ultimately show ?thesis
    using ord room i1 wf
    by (auto simp: d'' d' b' pipe_abs_def pipe_readable_def pipe_line_def wf_defs word_le_nat_alt)
qed

lemma pipe_write_loop_refines:
  assumes "pipe_wf p" "unat i \<le> unat edx" "user_range buf (unat edx)"
    and "unat (pinternal_write_ptr (fst p)) + (unat edx - unat i) < 16384"
  shows "\<exists>p'. pipe_write_loop m buf edx i eax p = Inr (eax, p') \<and> pipe_wf p' \<and>
    pipe_abs p' = fold line_push (map (\<lambda>k. m (buf + of_nat k)) [unat i..<unat edx]) (pipe_abs p) \<and>
    unat (pinternal_write_ptr (fst p')) = unat (pinternal_write_ptr (fst p)) + (unat edx - unat i)"
  using assms
proof (induction "unat edx - unat i" arbitrary: i p)
  case 0
  then show ?case by (subst pipe_write_loop.simps) (auto simp: word_less_nat_alt split: prod.splits)
next
  case (Suc n)
  obtain d b where p: "p = (d, b)" by fastforce
  let ?c = "m (buf + i)"
  define d1 where d1: "d1 = d\<lparr>pinternal_write_ptr := pinternal_write_ptr d + 1\<rparr>"
  define d2 where d2: "d2 = (if ?c = NEWLINE then d1\<lparr>pwrite_ptr := pinternal_write_ptr d1\<rparr> else d1)"
  define b1 where b1: "b1 = b[unat (pinternal_write_ptr d) := ?c]"
  have room: "unat (pinternal_write_ptr d) + 1 < 16384" using Suc(2,6) p by simp
  have i1: "unat (i + 1) = unat i + 1" using Suc(2) u32_bound [of edx] by (simp add: unat_word_ariths del: u32_bound)
  have step: "pipe_wf (d2, b1)" "pipe_abs (d2, b1) = line_push ?c (pipe_abs p)"
      "unat (pinternal_write_ptr d2) = unat (pinternal_write_ptr d) + 1"
    using pipe_push_step [OF _ room d1 d2 b1] Suc.prems(1) p by simp_all
  have lt: "unat i < unat edx" using Suc(2) by simp
  have not_full: "(pinternal_write_ptr d + 1) mod PIPE_BUF_SIZE \<noteq> pread_ptr d mod PIPE_BUF_SIZE"
  proof -
    have "unat ((pinternal_write_ptr d + 1) mod PIPE_BUF_SIZE) = unat (pinternal_write_ptr d) + 1"
      using room by (simp add: unat_mod_distrib unat_word_ariths)
    moreover have "unat (pread_ptr d mod PIPE_BUF_SIZE) \<le> unat (pinternal_write_ptr d)"
      using Suc.prems(1) p by (simp add: wf_defs word_le_nat_alt unat_mod_distrib le_trans [OF mod_less_eq_dividend])
    ultimately show ?thesis by (metis Suc_eq_plus1 not_less_eq_eq order_refl)
  qed
  have "user_range (buf + i) 1" using lt Suc.prems(3) by (simp add: user_range_def unat_word_ariths)
  then have "pipe_write_loop m buf edx i eax p = pipe_write_loop m buf edx (i + 1) eax (d2, b1)"
    using not_full lt Suc.prems(1) p room d1 d2 b1
    by (subst pipe_write_loop.simps) (simp add: word_less_nat_alt wf_defs Let_def)
  moreover have "[unat i..<unat edx] = unat i # [unat (i + 1)..<unat edx]"
    using Suc(2) i1 by (simp add: upt_conv_Cons)
  moreover have n: "n = unat edx - unat (i + 1)" and le: "unat (i + 1) \<le> unat edx"
    and r: "unat (pinternal_write_ptr (fst (d2, b1))) + (unat edx - unat (i + 1)) < 16384"
    using Suc(2) Suc.prems(4) i1 step(3) p lt by simp_all
  moreover obtain p' where "pipe_write_loop m buf edx (i + 1) eax (d2, b1) = Inr (eax, p')" "pipe_wf p'"
      "pipe_abs p' = fold line_push (map (\<lambda>k. m (buf + of_nat k)) [unat (i + 1)..<unat edx]) (pipe_abs (d2, b1))"
      "unat (pinternal_write_ptr (fst p')) = unat (pinternal_write_ptr d2) + (unat edx - unat (i + 1))"
    using Suc(1) [OF n step(1) le Suc.prems(3) r] by auto
  ultimately show ?case using step i1 Suc(2) p by simp
qed

section \<open>Properties\<close>

text \<open>
  C7: While fewer than 16384 bytes have been written to a pipe in all, the pipe is a first-in
  first-out queue of lines: a write succeeds and appends its bytes in order, whole lines becoming
  readable; a read then returns as many readable bytes as asked for or there are, the oldest first,
  and leaves exactly the others.
\<close>

theorem pipe_refines_queue:
  assumes "pipe_wf p" "user_range wbuf (unat edx)" "unat (pinternal_write_ptr (fst p)) + unat edx < 16384"
    and "n = min (unat target) (length (fst (fold line_push (map (\<lambda>k. m (wbuf + of_nat k)) [0..<unat edx]) (pipe_abs p))))"
    and "user_range rbuf n"
  shows "\<exists>p' p'' q l. pipe_write_loop m wbuf edx 0 eax p = Inr (eax, p') \<and>
    (q, l) = fold line_push (map (\<lambda>k. m (wbuf + of_nat k)) [0..<unat edx]) (pipe_abs p) \<and>
    read_loop pipe_empty pipe_pop rbuf target 0 (p', m) = Inr (of_nat n, p'', upd_range m rbuf n (\<lambda>k. q ! k)) \<and>
    pipe_abs p' = (q, l) \<and> pipe_readable p'' = drop n q \<and> pipe_wf p''"
proof -
  let ?q = "fold line_push (map (\<lambda>k. m (wbuf + of_nat k)) [0..<unat edx]) (pipe_abs p)"
  obtain p' where p': "pipe_write_loop m wbuf edx 0 eax p = Inr (eax, p')" "pipe_wf p'" "pipe_abs p' = ?q"
    using pipe_write_loop_refines [OF assms(1), of 0 edx wbuf m eax] assms(2,3) by auto
  then have rd: "pipe_readable p' = fst ?q" by (metis fst_conv pipe_abs_def)
  obtain p'' where "read_loop pipe_empty pipe_pop rbuf target 0 (p', m) =
      Inr (of_nat n, p'', upd_range m rbuf n (\<lambda>k. fst ?q ! k))" "pipe_wf p''" "pipe_readable p'' = drop n (fst ?q)"
    using pipe_source.read_loop_spec [OF p'(2), of n target rbuf m] assms(4,5) rd by auto
  with p' show ?thesis by (intro exI [of _ p'] exI [of _ p''] exI [of _ "fst ?q"] exI [of _ "snd ?q"]) simp
qed

definition blank_buf :: "u8 list" where
  "blank_buf = replicate 16384 0"

lemma length_blank_buf [simp]: "length blank_buf = 16384"
  unfolding blank_buf_def by (rule length_replicate)

theorem pipe_refines_queue_witness:
  "\<exists>p' p''. pipe_write_loop (\<lambda>a. if a = 1001 then 10 else 65) 1000 3 0 0 (pipe_reset, blank_buf) = Inr (0, p') \<and>
     read_loop pipe_empty pipe_pop 2000 5 0 (p', \<lambda>a. if a = 1001 then 10 else 65) =
       Inr (2, p'', upd_range (\<lambda>a. if a = 1001 then 10 else 65) 2000 2 (\<lambda>k. [65, 10] ! k)) \<and> pipe_readable p'' = []"
proof -
  let ?m = "\<lambda>a. if a = (1001 :: u32) then 10 else (65 :: u8)" and ?p = "(pipe_reset, blank_buf)"
  have wf: "pipe_wf ?p" by (simp add: wf_defs pipe_reset_def)
  have abs: "pipe_abs ?p = ([], [])" by (simp add: pipe_abs_def pipe_readable_def pipe_line_def pipe_reset_def)
  have "map (\<lambda>k. ?m (1000 + of_nat k)) [0..<3] = [65, 10, 65]" by (simp add: upt_rec numeral_3_eq_3)
  then have f: "fold line_push (map (\<lambda>k. ?m (1000 + of_nat k)) [0..<unat (3 :: u32)]) (pipe_abs ?p) = ([65, 10], [65])"
    using abs by simp
  have "\<exists>p' p'' q l. pipe_write_loop ?m 1000 3 0 0 ?p = Inr (0, p') \<and> (q, l) = ([65, 10], [65]) \<and>
      read_loop pipe_empty pipe_pop 2000 5 0 (p', ?m) = Inr (of_nat 2, p'', upd_range ?m 2000 2 (\<lambda>k. q ! k)) \<and>
      pipe_abs p' = (q, l) \<and> pipe_readable p'' = drop 2 q \<and> pipe_wf p''"
    unfolding f [symmetric]
  proof (rule pipe_refines_queue [OF wf])
    show "user_range 1000 (unat (3 :: u32))" "user_range 2000 2" by (simp_all add: user_range_def)
    show "unat (pinternal_write_ptr (fst ?p)) + unat (3 :: u32) < 16384" by (simp add: pipe_reset_def)
    show "2 = min (unat (5 :: u32)) (length (fst (fold line_push (map (\<lambda>k. ?m (1000 + of_nat k)) [0..<unat (3 :: u32)]) (pipe_abs ?p))))"
      unfolding f by simp
  qed
  then show ?thesis by auto
qed

lemma pipe_read_never_empty:
  assumes "pwrite_ptr d = 16384" "unat (pread_ptr d) < 16384" "length b = 16384"
    and "unat count \<le> unat target" "user_range buf (unat target)"
  shows "\<exists>s. read_loop pipe_empty pipe_pop buf target count ((d, b), m) = Inr (target, s)"
  using assms
proof (induction "unat target - unat count" arbitrary: d count m)
  case 0
  then have "count = target" by (simp add: word_unat_eq_iff)
  then show ?case by (subst read_loop.simps) simp
next
  case (Suc n)
  have lt: "unat count < unat target" using Suc(2) by simp
  have c1: "unat (count + 1) = unat count + 1"
    using lt u32_bound [of target] by (simp add: unat_word_ariths del: u32_bound)
  have rng: "user_range (buf + count) 1" using lt Suc.prems(5) by (simp add: user_range_def unat_word_ariths)
  have ne: "pread_ptr d \<noteq> 16384" using Suc.prems(2) by auto
  have r: "unat ((pread_ptr d + 1) mod PIPE_BUF_SIZE) < 16384" by (simp add: unat_mod_distrib)
  let ?d = "d\<lparr>pread_ptr := (pread_ptr d + 1) mod PIPE_BUF_SIZE\<rparr>" and ?m = "m(buf + count := b ! unat (pread_ptr d))"
  have "read_loop pipe_empty pipe_pop buf target count ((d, b), m) =
      read_loop pipe_empty pipe_pop buf target (count + 1) ((?d, b), ?m)"
    using lt ne rng Suc.prems by (subst read_loop.simps) (simp add: word_less_nat_alt pipe_empty_def pipe_pop_def)
  then show ?case using Suc(1) [of "count + 1" ?d ?m] Suc(2) Suc.prems r c1 lt by simp
qed

text \<open>
  The write pointer of a pipe is never wrapped. Once 16383 bytes have been written, two more
  bytes are stored past the end of the pipe's buffer, although the reader has made room; and a
  readable end at 16384 is a position the read pointer, which does wrap, never reaches: the pipe
  is then never empty again and a read of any length returns that many bytes.
\<close>

theorem pipe_pointer_never_wraps:
  assumes "length b = 16384" "user_range buf (unat edx)"
  shows "(pinternal_write_ptr d = 16383 \<and> 1 < pread_ptr d \<and> pread_ptr d < 16384 \<and> 2 \<le> edx \<longrightarrow>
      pipe_write_loop m buf edx 0 eax (d, b) = Inl OutOfBounds) \<and>
    (pwrite_ptr d = 16384 \<and> pread_ptr d < 16384 \<longrightarrow>
      (\<exists>s. read_loop pipe_empty pipe_pop buf edx 0 ((d, b), m) = Inr (edx, s)))"
proof (intro conjI impI)
  assume a: "pinternal_write_ptr d = 16383 \<and> 1 < pread_ptr d \<and> pread_ptr d < 16384 \<and> 2 \<le> edx"
  have "unat (2 :: u32) \<le> unat edx" using a by (simp only: word_le_nat_alt)
  then have edx: "0 < edx" "1 < edx" and rng: "user_range buf 1" "user_range (buf + 1) 1"
    using assms(2) by (simp_all add: word_less_nat_alt user_range_def unat_word_ariths)
  have r: "pread_ptr d mod PIPE_BUF_SIZE = pread_ptr d" "pread_ptr d \<noteq> 0" "pread_ptr d \<noteq> 1"
    using a by (auto simp: word_unat_eq_iff unat_mod_distrib word_less_nat_alt)
  have next_byte: "pipe_write_loop m buf edx 1 eax (d', b') = Inl OutOfBounds"
    if "pinternal_write_ptr d' = 16384" "pread_ptr d' = pread_ptr d" "length b' = 16384" for d' b'
    using that edx r rng by (subst pipe_write_loop.simps) (simp add: kset_def)
  show "pipe_write_loop m buf edx 0 eax (d, b) = Inl OutOfBounds"
    using a edx r rng assms(1) by (subst pipe_write_loop.simps) (simp add: Let_def next_byte)
next
  assume "pwrite_ptr d = 16384 \<and> pread_ptr d < 16384"
  then show "\<exists>s. read_loop pipe_empty pipe_pop buf edx 0 ((d, b), m) = Inr (edx, s)"
    using pipe_read_never_empty [of d b 0 edx buf m] assms by (simp add: word_less_nat_alt)
qed

theorem pipe_pointer_never_wraps_witness:
  "pipe_write_loop (\<lambda>_. 65) 1000 2 0 0
     (\<lparr>pnum_refs = 2, pread_ptr = 5000, pwrite_ptr = 16000, pinternal_write_ptr = 16383\<rparr>, blank_buf) = Inl OutOfBounds"
  using pipe_pointer_never_wraps [of blank_buf 1000 2
      "\<lparr>pnum_refs = 2, pread_ptr = 5000, pwrite_ptr = 16000, pinternal_write_ptr = 16383\<rparr>" "\<lambda>_. 65" 0]
  by (simp add: user_range_def)

end
