(* ===== verification/Tty.thy ===== *)
theory Tty
  imports PipeBuf
begin

text \<open>
  The terminal: \<^verbatim>\<open>struct tty_data\<close> of \<^verbatim>\<open>kernel/include/interrupt.h\<close>, the key tables, the
  keyboard interrupt handler and the end-of-interrupt command of \<^verbatim>\<open>kernel/src/interrupt.c\<close>, and
  the terminal's side of \<^verbatim>\<open>sys_read\<close>. The input buffer is a ring of 1024 bytes; the bytes between
  the read and the write pointer can be read, those between the write pointer and the internal
  write pointer are the line being edited. The ports the handler reads are its arguments, the
  ports it writes are a list in its result.
\<close>

abbreviation INPUT_BUFFER_LEN :: u32 where "INPUT_BUFFER_LEN \<equiv> 1024"

datatype tty_mode = TTY_MODE_SCANCODE | TTY_MODE_RAW | TTY_MODE_COOKED

record tty_data =
  tmode :: tty_mode
  input_buffer :: "u8 list"
  tread_ptr :: u32
  twrite_ptr :: u32
  tinternal_write_ptr :: u32
  left_shift :: bool
  right_shift :: bool

definition tty_init :: "u8 list \<Rightarrow> tty_data" where
  "tty_init buf = \<lparr>tmode = TTY_MODE_COOKED, input_buffer = buf, tread_ptr = 0, twrite_ptr = 0,
     tinternal_write_ptr = 0, left_shift = False, right_shift = False\<rparr>"

section \<open>The keyboard interrupt\<close>

definition kbd_US :: "u8 list" where
  "kbd_US =
     [0, 27, 49, 50, 51, 52, 53, 54, 55, 56, 57, 48, 45, 61, 8, 9,
      113, 119, 101, 114, 116, 121, 117, 105, 111, 112, 91, 93, 10, 0, 97, 115,
      100, 102, 103, 104, 106, 107, 108, 59, 39, 96, 0, 92, 122, 120, 99, 118,
      98, 110, 109, 44, 46, 47, 0, 42, 0, 32, 0, 0, 0, 0, 0, 0,
      0, 0, 0, 0, 0, 0, 0, 0, 0, 0, 45, 0, 0, 0, 43] @ replicate 49 0"

definition kbd_shift_US :: "u8 list" where
  "kbd_shift_US =
     [0, 27, 33, 64, 35, 36, 37, 94, 38, 42, 40, 41, 95, 43, 8, 9,
      81, 87, 69, 82, 84, 89, 85, 73, 79, 80, 91, 93, 10, 0, 65, 83,
      68, 70, 71, 72, 74, 75, 76, 58, 34, 126, 0, 124, 90, 88, 67, 86,
      66, 78, 77, 60, 62, 63, 0, 42, 0, 32, 0, 0, 0, 0, 0, 0,
      0, 0, 0, 0, 0, 0, 0, 0, 0, 0, 45, 0, 0, 0, 43] @ replicate 49 0"

text \<open>Writes to I/O ports, in order.\<close>

type_synonym port_writes = "(u16 \<times> u8) list"

definition pic_send_eoi :: "u8 \<Rightarrow> port_writes" where
  "pic_send_eoi irq = (if irq \<ge> 8 then [(0xA0, 0x20)] else []) @ [(0x20, 0x20)]"

definition tty_push :: "u8 \<Rightarrow> tty_data \<Rightarrow> tty_data kres" where
  "tty_push c t =
     kbind (kset (input_buffer t) (unat (tinternal_write_ptr t)) c) (\<lambda>b.
       Inr (t\<lparr>input_buffer := b, tinternal_write_ptr := (tinternal_write_ptr t + 1) mod INPUT_BUFFER_LEN\<rparr>))"

definition scancode_event :: "u8 \<Rightarrow> tty_data \<Rightarrow> tty_data kres" where
  "scancode_event scancode t =
     kbind (tty_push scancode t) (\<lambda>t.
       let t = t\<lparr>twrite_ptr := tinternal_write_ptr t\<rparr>
       in Inr (if (tinternal_write_ptr t + 1) mod INPUT_BUFFER_LEN = tread_ptr t mod INPUT_BUFFER_LEN
               then t\<lparr>tread_ptr := (tread_ptr t + 1) mod INPUT_BUFFER_LEN\<rparr> else t))"

definition shift_event :: "u8 \<Rightarrow> tty_data \<Rightarrow> tty_data" where
  "shift_event scancode t =
     (if scancode = 0x2A then t\<lparr>left_shift := True\<rparr>
      else if scancode = 0x36 then t\<lparr>right_shift := True\<rparr>
      else if scancode = 0xAA then t\<lparr>left_shift := False\<rparr>
      else if scancode = 0xB6 then t\<lparr>right_shift := False\<rparr>
      else t)"

definition key_char :: "u8 \<Rightarrow> tty_data \<Rightarrow> u8 kres" where
  "key_char scancode t =
     (if left_shift t \<or> right_shift t then kget kbd_shift_US (unat scancode) else kget kbd_US (unat scancode))"

definition char_event :: "u8 \<Rightarrow> tty_data \<times> console \<Rightarrow> (tty_data \<times> console) kres" where
  "char_event c = (\<lambda>(t, con).
     if c = 0 then Inr (t, con)
     else if tmode t = TTY_MODE_COOKED \<and> c = 8 then
       if tread_ptr t \<noteq> tinternal_write_ptr t then
         kbind (kprint_char c con) (\<lambda>con.
           Inr (t\<lparr>tinternal_write_ptr := (tinternal_write_ptr t - 1) mod INPUT_BUFFER_LEN\<rparr>, con))
       else Inr (t, con)
     else
       kbind (if tmode t = TTY_MODE_COOKED then kprint_char c con else Inr con) (\<lambda>con.
       kbind (tty_push c t) (\<lambda>t.
         Inr (if tmode t = TTY_MODE_RAW \<or> c = NEWLINE then t\<lparr>twrite_ptr := tinternal_write_ptr t\<rparr> else t, con))))"

text \<open>\<open>status\<close> is the byte read from port 0x64, \<open>scancode\<close> the byte read from port 0x60.\<close>

definition keyboard_interrupt_handler_inner ::
  "u8 \<Rightarrow> u8 \<Rightarrow> tty_data \<times> console \<Rightarrow> ((tty_data \<times> console) \<times> port_writes) kres" where
  "keyboard_interrupt_handler_inner status scancode = (\<lambda>(t, con).
     kbind
       (if status AND 1 \<noteq> 0 then
          if tmode t = TTY_MODE_SCANCODE then
            kbind (scancode_event scancode t) (\<lambda>t. Inr (t, con))
          else
            let t = shift_event scancode t
            in if scancode < 128 then
                 kbind (kget kbd_US (unat scancode)) (\<lambda>k.
                   if k \<noteq> 0 then kbind (key_char scancode t) (\<lambda>c. char_event c (t, con)) else Inr (t, con))
               else Inr (t, con)
        else Inr (t, con))
       (\<lambda>s. Inr (s, pic_send_eoi 1)))"

text \<open>The terminal's side of \<^verbatim>\<open>sys_read\<close>.\<close>

definition tty_empty :: "tty_data \<Rightarrow> bool" where
  "tty_empty t \<longleftrightarrow> tread_ptr t = twrite_ptr t"

definition tty_pop :: "tty_data \<Rightarrow> (u8 \<times> tty_data) kres" where
  "tty_pop t =
     kbind (kget (input_buffer t) (unat (tread_ptr t))) (\<lambda>c.
       Inr (c, t\<lparr>tread_ptr := (tread_ptr t + 1) mod INPUT_BUFFER_LEN\<rparr>))"

section \<open>Rings\<close>

definition rdist :: "nat \<Rightarrow> nat \<Rightarrow> nat" where
  "rdist i j = (j + 1024 - i) mod 1024"

definition ring :: "'a list \<Rightarrow> nat \<Rightarrow> nat \<Rightarrow> 'a list" where
  "ring xs i n = map (\<lambda>k. xs ! ((i + k) mod 1024)) [0..<n]"

lemma ring_mod: "i < 1024 \<Longrightarrow> k < 1024 \<Longrightarrow> (i + k) mod 1024 = (if i + k < 1024 then i + k else i + k - 1024 :: nat)"
  by (auto simp: le_mod_geq)

lemma rdist_less [simp]: "rdist i j < 1024"
  by (simp add: rdist_def)

lemma rdist_add [simp]: "i < 1024 \<Longrightarrow> k < 1024 \<Longrightarrow> rdist i ((i + k) mod 1024) = k"
  by (auto simp: ring_mod rdist_def)

lemma rdist_pos [simp]: "i < 1024 \<Longrightarrow> j < 1024 \<Longrightarrow> (i + rdist i j) mod 1024 = j"
  by (simp add: rdist_def mod_add_right_eq)

lemma rdist_0: "i < 1024 \<Longrightarrow> j < 1024 \<Longrightarrow> rdist i j = 0 \<longleftrightarrow> i = j"
  by (metis add.right_neutral mod_less rdist_add rdist_pos zero_less_numeral)

lemma length_ring [simp]: "length (ring xs i n) = n"
  by (simp add: ring_def)

lemma ring_0 [simp]: "ring xs i 0 = []"
  by (simp add: ring_def)

lemma ring_Suc: "ring xs i (Suc n) = ring xs i n @ [xs ! ((i + n) mod 1024)]"
  by (simp add: ring_def)

lemma mod_ring_assoc: "((i + n) mod 1024 + k) mod 1024 = (i + (n + k)) mod (1024 :: nat)"
  by (simp only: mod_add_left_eq add.assoc)

lemma ring_add: "ring xs i (n + k) = ring xs i n @ ring xs ((i + n) mod 1024) k"
  by (induction k) (simp_all add: ring_Suc mod_ring_assoc)

lemma ring_Cons: "i < 1024 \<Longrightarrow> ring xs i (Suc n) = xs ! i # ring xs ((i + 1) mod 1024) n"
  using ring_add [of xs i 1 n] by (simp add: ring_def)

lemma ring_update:
  assumes "i < 1024" "m \<le> n" "n < 1024"
  shows "ring (xs[(i + n) mod 1024 := v]) i m = ring xs i m"
proof -
  have "(i + n) mod 1024 \<noteq> (i + k) mod 1024" if "k < m" for k
    using that assms rdist_add [of i k] rdist_add [of i n] by (metis less_le_trans less_trans nat_neq_iff)
  then show ?thesis by (auto simp: ring_def)
qed

definition tty_readable :: "tty_data \<Rightarrow> u8 list" where
  "tty_readable t = ring (input_buffer t) (unat (tread_ptr t)) (rdist (unat (tread_ptr t)) (unat (twrite_ptr t)))"

definition tty_line :: "tty_data \<Rightarrow> u8 list" where
  "tty_line t = ring (input_buffer t) (unat (twrite_ptr t)) (rdist (unat (twrite_ptr t)) (unat (tinternal_write_ptr t)))"

definition tty_wf :: "tty_data \<Rightarrow> bool" where [wf_defs]:
  "tty_wf t \<longleftrightarrow> length (input_buffer t) = 1024 \<and> unat (tread_ptr t) < 1024 \<and> unat (twrite_ptr t) < 1024 \<and>
     unat (tinternal_write_ptr t) < 1024 \<and>
     rdist (unat (tread_ptr t)) (unat (twrite_ptr t)) + rdist (unat (twrite_ptr t)) (unat (tinternal_write_ptr t)) < 1024"

lemma unat_ring_succ: "unat p < 1024 \<Longrightarrow> unat ((p + 1) mod INPUT_BUFFER_LEN) = (unat p + 1) mod 1024"
  by (simp add: unat_mod_distrib unat_word_ariths)

lemma unat_ring_pred: "unat p < 1024 \<Longrightarrow> unat ((p - 1) mod INPUT_BUFFER_LEN) = (unat p + 1023) mod 1024"
proof (cases "p = 0")
  case False
  assume "unat p < 1024"
  moreover from False have "unat (p - 1) = unat p - 1" "0 < unat p" 
    by (simp_all add: unat_sub_le unat_gt_0 Suc_le_eq)
  ultimately show ?thesis by (simp add: unat_mod_distrib le_mod_geq)
qed simp

lemma rdist_step:
  assumes "i < 1024" "j < 1024" "i \<noteq> j"
  shows "rdist i j = Suc (rdist ((i + 1) mod 1024) j)"
proof -
  obtain k where k: "rdist i j = Suc k" using assms rdist_0 [of i j] by (cases "rdist i j") auto
  then have "j = (i + Suc k) mod 1024" using rdist_pos [OF assms(1,2)] by simp
  then have "j = ((i + 1) mod 1024 + k) mod 1024" by (simp only: mod_ring_assoc) simp
  moreover have "k < 1024" using k rdist_less [of i j] by simp
  ultimately show ?thesis using k by (metis rdist_add mod_less_divisor zero_less_numeral)
qed

interpretation tty_source: byte_source tty_empty tty_pop tty_readable tty_wf
proof (unfold_locales, goal_cases)
  case (1 t)
  then show ?case
    by (auto simp: tty_empty_def tty_readable_def wf_defs rdist_0 word_unat_eq_iff length_0_conv [symmetric] simp del: length_0_conv)
next
  case (2 t c cs)
  let ?r = "unat (tread_ptr t)" and ?w = "unat (twrite_ptr t)"
  have b: "?r < 1024" "?w < 1024" using 2(1) by (simp_all add: wf_defs)
  have "rdist ?r ?w \<noteq> 0" using 2(2) by (cases "rdist ?r ?w") (simp_all add: tty_readable_def)
  then have ne: "?r \<noteq> ?w" using b by (simp add: rdist_0)
  have st: "rdist ?r ?w = Suc (rdist ((?r + 1) mod 1024) ?w)" by (rule rdist_step [OF b ne])
  have "tty_readable t = input_buffer t ! ?r # ring (input_buffer t) ((?r + 1) mod 1024) (rdist ((?r + 1) mod 1024) ?w)"
    using b by (simp only: tty_readable_def st ring_Cons)
  with 2 b st show ?case
    by (auto simp: tty_pop_def tty_readable_def wf_defs unat_ring_succ)
qed

section \<open>Line editing\<close>

lemma rdist_append:
  assumes "i < 1024" "j < 1024" "k < 1024" "rdist i j + rdist j k < 1024"
  shows "rdist i k = rdist i j + rdist j k"
proof -
  have "(i + (rdist i j + rdist j k)) mod 1024 = k"
    unfolding mod_ring_assoc [symmetric] using assms by simp
  then show ?thesis using rdist_add [OF assms(1,4)] by simp
qed

lemma tty_commit:
  assumes "tty_wf t"
  shows "tty_wf (t\<lparr>twrite_ptr := tinternal_write_ptr t\<rparr>)"
    and "tty_readable (t\<lparr>twrite_ptr := tinternal_write_ptr t\<rparr>) = tty_readable t @ tty_line t"
    and "tty_line (t\<lparr>twrite_ptr := tinternal_write_ptr t\<rparr>) = []"
proof -
  let ?r = "unat (tread_ptr t)" and ?w = "unat (twrite_ptr t)" and ?i = "unat (tinternal_write_ptr t)"
  have b: "?r < 1024" "?w < 1024" "?i < 1024" "rdist ?r ?w + rdist ?w ?i < 1024"
    using assms by (simp_all add: wf_defs)
  have d: "rdist ?r ?i = rdist ?r ?w + rdist ?w ?i" by (rule rdist_append [OF b])
  have z: "rdist ?i ?i = 0" using b by (simp add: rdist_0)
  show "tty_wf (t\<lparr>twrite_ptr := tinternal_write_ptr t\<rparr>)" using assms z b by (simp add: wf_defs)
  show "tty_readable (t\<lparr>twrite_ptr := tinternal_write_ptr t\<rparr>) = tty_readable t @ tty_line t"
    using b by (simp add: tty_readable_def tty_line_def d ring_add)
  show "tty_line (t\<lparr>twrite_ptr := tinternal_write_ptr t\<rparr>) = []" using z by (simp add: tty_line_def)
qed

lemma tty_push_ok:
  assumes wf: "tty_wf t" and room: "length (tty_readable t) + length (tty_line t) < 1023"
  shows "\<exists>t'. tty_push c t = Inr t' \<and> tty_wf t' \<and> tty_readable t' = tty_readable t \<and> tty_line t' = tty_line t @ [c] \<and>
    tmode t' = tmode t"
proof -
  let ?r = "unat (tread_ptr t)" and ?w = "unat (twrite_ptr t)" and ?i = "unat (tinternal_write_ptr t)"
  let ?b = "input_buffer t"
  have b: "?r < 1024" "?w < 1024" "?i < 1024" "length ?b = 1024" using wf by (simp_all add: wf_defs)
  have rm: "rdist ?r ?w + rdist ?w ?i < 1023" using room by (simp add: tty_readable_def tty_line_def)
  have i: "?i = (?w + rdist ?w ?i) mod 1024" "?i = (?r + (rdist ?r ?w + rdist ?w ?i)) mod 1024"
    using b rdist_append [of ?r ?w ?i] rm rdist_pos [of ?r ?i] rdist_pos [of ?w ?i] by simp_all
  have i1: "(?i + 1) mod 1024 = (?w + Suc (rdist ?w ?i)) mod 1024"
    using mod_ring_assoc [of ?w "rdist ?w ?i" 1] i(1) by simp
  have dl: "rdist ?w ((?i + 1) mod 1024) = Suc (rdist ?w ?i)"
    unfolding i1 using b rm by (intro rdist_add) auto
  have ln: "ring (?b[?i := c]) ?w (Suc (rdist ?w ?i)) = ring ?b ?w (rdist ?w ?i) @ [c]"
    using b i(1) rm ring_update [of ?w "rdist ?w ?i" "rdist ?w ?i" ?b c] by (simp add: ring_Suc)
  have rd: "ring (?b[?i := c]) ?r (rdist ?r ?w) = ring ?b ?r (rdist ?r ?w)"
    using b i(2) rm ring_update [of ?r "rdist ?r ?w" "rdist ?r ?w + rdist ?w ?i" ?b c] by simp
  show ?thesis
    using b rm dl ln rd by (simp add: tty_push_def wf_defs tty_readable_def tty_line_def unat_ring_succ)
qed


section \<open>Properties\<close>



lemma pic_send_eoi_1: "pic_send_eoi 1 = [(0x20, 0x20)]"
  by (simp add: pic_send_eoi_def word_le_nat_alt)


lemma shift_event_line [simp]:
  "tty_wf (shift_event s t) = tty_wf t" "tmode (shift_event s t) = tmode t"
  "tty_readable (shift_event s t) = tty_readable t" "tty_line (shift_event s t) = tty_line t"
  by (simp_all add: shift_event_def wf_defs tty_readable_def tty_line_def)


text \<open>
  A backspace typed on an empty line while earlier input is still unread moves the internal
  write pointer back over that input: the next character typed overwrites the last unread byte,
  and the handler now takes the line being edited to be 1023 bytes long.
\<close>

theorem backspace_erases_unread_input:
  assumes "tty_wf t" "tmode t = TTY_MODE_COOKED" "tty_line t = []" "tty_readable t \<noteq> []"
    and "gm_type (gmode con) = VGA_TEXT_MODE" "cursor_ok con" "c \<noteq> 0" "c \<noteq> 8" "c \<noteq> NEWLINE"
  shows "\<exists>t1 con1 t2 con2. char_event 8 (t, con) = Inr (t1, con1) \<and> length (tty_line t1) = 1023 \<and>
    char_event c (t1, con1) = Inr (t2, con2) \<and> tty_readable t2 = butlast (tty_readable t) @ [c]"
proof -
  let ?r = "unat (tread_ptr t)" and ?w = "unat (twrite_ptr t)" and ?i = "unat (tinternal_write_ptr t)"
  let ?b = "input_buffer t" and ?p = "(tinternal_write_ptr t - 1) mod INPUT_BUFFER_LEN"
  let ?t1 = "t\<lparr>tinternal_write_ptr := ?p\<rparr>"
  have b: "?r < 1024" "?w < 1024" "?i < 1024" "length ?b = 1024" using assms(1) by (simp_all add: wf_defs)
  have wi: "?i = ?w" "twrite_ptr t = tinternal_write_ptr t"
    using assms(3) b by (simp_all add: tty_line_def length_0_conv [symmetric] rdist_0 word_unat_eq_iff del: length_0_conv)
  obtain k where k: "rdist ?r ?w = Suc k"
    using assms(4) by (cases "rdist ?r ?w") (simp_all add: tty_readable_def)
  have k1024: "Suc k < 1024" using k rdist_less [of ?r ?w] by simp
  have w: "?w = (?r + Suc k) mod 1024" using rdist_pos [OF b(1,2)] k by simp
  have p: "unat ?p = (?w + 1023) mod 1024" by (simp only: wi(1) unat_ring_pred [OF b(3)])
  have "(?w + 1023) mod 1024 = (?r + (Suc k + 1023)) mod 1024" using w by (simp only: mod_ring_assoc)
  also have "\<dots> = (?r + k) mod 1024" using mod_add_self2 [of "?r + k" 1024] by (simp add: add.assoc add.commute [of 1024 k])
  finally have pk: "unat ?p = (?r + k) mod 1024" using p by simp
  have p1: "(?p + 1) mod INPUT_BUFFER_LEN = twrite_ptr t"
  proof -
    have "unat ((?p + 1) mod INPUT_BUFFER_LEN) = ((?r + k) mod 1024 + 1) mod 1024" using pk by (simp add: unat_ring_succ)
    then show ?thesis using w by (simp add: word_unat_eq_iff mod_Suc_eq)
  qed
  have ne: "tread_ptr t \<noteq> tinternal_write_ptr t" using k b(1,2) wi(1) rdist_0 by (metis nat.distinct(1))
  obtain con1 where con1: "kprint_char 8 con = Inr con1" "gmode con1 = gmode con"
    using kprint_char_text_total [OF assms(5)] by blast
  obtain con2 where con2: "kprint_char c con1 = Inr con2"
    using kprint_char_text_total [of con1 c] assms(5) con1(2) by auto
  have "char_event 8 (t, con) = Inr (?t1, con1)" using assms(2) ne con1 by (simp add: char_event_def)
  moreover have "length (tty_line ?t1) = 1023" using p b by (simp add: tty_line_def)
  moreover have "char_event c (?t1, con1) = Inr (?t1\<lparr>input_buffer := ?b[unat ?p := c], tinternal_write_ptr := twrite_ptr t\<rparr>, con2)"
    using assms(2,7-9) con2 b p p1 by (simp add: char_event_def tty_push_def)
  moreover have "tty_readable (?t1\<lparr>input_buffer := ?b[unat ?p := c], tinternal_write_ptr := twrite_ptr t\<rparr>) = butlast (tty_readable t) @ [c]"
    using b k k1024 pk ring_update [of ?r k k ?b c] by (simp add: tty_readable_def ring_Suc)
  ultimately show ?thesis by blast
qed

text \<open>
  In scancode mode every key event is stored and becomes readable at once; when the ring holds
  1022 unread events the oldest one is dropped, so the readable events are always the most recent
  ones in order.
\<close>

theorem scancode_mode_keeps_latest:
  assumes "tty_wf t" "tmode t = TTY_MODE_SCANCODE" "tty_line t = []" "length (tty_readable t) \<le> 1022" "status AND 1 \<noteq> 0"
  shows "\<exists>t'. keyboard_interrupt_handler_inner status scancode (t, con) = Inr ((t', con), [(0x20, 0x20)]) \<and>
    tty_wf t' \<and> tty_line t' = [] \<and> length (tty_readable t') \<le> 1022 \<and>
    tty_readable t' = (if length (tty_readable t) = 1022 then tl (tty_readable t) else tty_readable t) @ [scancode]"
proof -
  obtain t1 where t1: "tty_push scancode t = Inr t1" "tty_wf t1" "tty_readable t1 = tty_readable t" "tty_line t1 = [scancode]"
    using tty_push_ok [OF assms(1), of scancode] assms(3,4) by auto
  define t2 where t2: "t2 = t1\<lparr>twrite_ptr := tinternal_write_ptr t1\<rparr>"
  have c: "tty_wf t2" "tty_readable t2 = tty_readable t @ [scancode]" "tty_line t2 = []"
    using tty_commit [OF t1(2)] t1 by (simp_all add: t2)
  let ?r = "unat (tread_ptr t2)" and ?i = "unat (tinternal_write_ptr t2)"
  let ?t = "t2\<lparr>tread_ptr := (tread_ptr t2 + 1) mod INPUT_BUFFER_LEN\<rparr>"
  have b: "?r < 1024" "?i < 1024" using c(1) by (simp_all add: wf_defs)
  have "length (tty_readable t2) = rdist ?r ?i" by (simp add: tty_readable_def t2)
  then have d: "rdist ?r ?i = Suc (length (tty_readable t))" using c(2) by simp
  have full: "(tinternal_write_ptr t2 + 1) mod INPUT_BUFFER_LEN = tread_ptr t2 mod INPUT_BUFFER_LEN \<longleftrightarrow> length (tty_readable t) = 1022"
  proof -
    have i1: "(?i + 1) mod 1024 = (?r + Suc (rdist ?r ?i)) mod 1024"
      using mod_ring_assoc [of ?r "rdist ?r ?i" 1] rdist_pos [OF b] by simp
    have "(?r + Suc (rdist ?r ?i)) mod 1024 = ?r \<longleftrightarrow> Suc (rdist ?r ?i) = 1024"
    proof
      assume "(?r + Suc (rdist ?r ?i)) mod 1024 = ?r"
      moreover have "rdist ?r ?r = 0" using b by (simp add: rdist_0)
      ultimately show "Suc (rdist ?r ?i) = 1024"
        using rdist_add [OF b(1), of "Suc (rdist ?r ?i)"] rdist_less [of ?r ?i]
        by (metis Suc_lessI nat.distinct(1))
    qed (use b in simp)
    then have "(?i + 1) mod 1024 = ?r mod 1024 \<longleftrightarrow> length (tty_readable t) = 1022" using i1 d b by simp
    moreover have "unat (tread_ptr t2 mod INPUT_BUFFER_LEN) = ?r mod 1024" by (simp add: unat_mod_distrib)
    ultimately show ?thesis by (simp only: word_unat_eq_iff unat_ring_succ [OF b(2)])
  qed
  have pop: "tty_wf ?t \<and> tty_readable ?t = tl (tty_readable t2) \<and> tty_line ?t = []"
  proof -
    obtain x xs where x: "tty_readable t2 = x # xs" using c(2) by (metis Nil_is_append_conv list.distinct(1) list.exhaust)
    have "tty_pop t2 = Inr (input_buffer t2 ! ?r, ?t)" using c(1) by (simp add: tty_pop_def wf_defs)
    then show ?thesis
      using tty_source.pop_law [OF c(1) x] x c(3) by (auto simp: tty_line_def)
  qed
  have "keyboard_interrupt_handler_inner status scancode (t, con) =
      Inr ((if length (tty_readable t) = 1022 then ?t else t2, con), [(0x20, 0x20)])"
    using assms(2,5) t1(1) full
    by (simp add: keyboard_interrupt_handler_inner_def scancode_event_def Let_def t2 pic_send_eoi_1)
  then show ?thesis using pop c assms(4) by (cases "tty_readable t") auto
qed

section \<open>Witnesses\<close>

definition blank_tty :: tty_data where
  "blank_tty = tty_init (replicate 1024 0)"

lemma blank_tty_wf: "tty_wf blank_tty" "tty_readable blank_tty = []" "tty_line blank_tty = []"
proof -
  have "length (replicate 1024 (0 :: u8)) = 1024" by (rule length_replicate)
  then show "tty_wf blank_tty" "tty_readable blank_tty = []" "tty_line blank_tty = []"
    by (simp_all only: wf_defs tty_readable_def tty_line_def blank_tty_def tty_init_def tty_data.simps rdist_0)
      (simp_all add: rdist_def)
qed


theorem scancode_mode_keeps_latest_witness:
  "\<exists>t'. keyboard_interrupt_handler_inner 1 170 (blank_tty\<lparr>tmode := TTY_MODE_SCANCODE\<rparr>, text_console) =
     Inr ((t', text_console), [(0x20, 0x20)]) \<and> tty_readable t' = [170]"
proof -
  let ?t = "blank_tty\<lparr>tmode := TTY_MODE_SCANCODE\<rparr>"
  have "tty_wf ?t" "tty_readable ?t = []" "tty_line ?t = []"
    using blank_tty_wf by (simp_all add: wf_defs tty_readable_def tty_line_def)
  then show ?thesis
    using scancode_mode_keeps_latest [of ?t 1 170 text_console] by auto
qed

theorem backspace_erases_unread_input_witness:
  "\<exists>t t1 con1 t2 con2. tty_readable t = [10] \<and> char_event 8 (t, text_console) = Inr (t1, con1) \<and>
     char_event 65 (t1, con1) = Inr (t2, con2) \<and> tty_readable t2 = [65]"
proof -
  obtain t0 where t0: "tty_push 10 blank_tty = Inr t0" "tty_wf t0" "tty_readable t0 = []" "tty_line t0 = [10]"
      "tmode t0 = TTY_MODE_COOKED"
    using tty_push_ok [OF blank_tty_wf(1), of 10] blank_tty_wf by (auto simp: blank_tty_def tty_init_def)
  let ?t = "t0\<lparr>twrite_ptr := tinternal_write_ptr t0\<rparr>"
  have "tty_wf ?t" "tty_readable ?t = [10]" "tty_line ?t = []" using tty_commit [OF t0(2)] t0 by simp_all
  moreover have "cursor_ok text_console" by (simp add: wf_defs text_console_def)
  ultimately show ?thesis
    using backspace_erases_unread_input [of ?t text_console 65] t0(5) by (fastforce simp: text_console_def)
qed

end
