(* ===== verification/Proc.thy ===== *)
theory Proc
  imports Tty
begin

text \<open>
  The process table (\<^verbatim>\<open>kernel/include/proc.h\<close> and the table operations of
  \<^verbatim>\<open>kernel/src/proc.c\<close>): process and file-descriptor records, allocation of a table slot, and the
  lookups by position. A pointer to a process is its index in the table. The union in a file
  descriptor is a value of \<open>fd_data\<close>; reading the member that was not written last is an error,
  a null dereference when an integer or a null pointer is used as an inode pointer. The scheduler
  itself is in \<open>Sched\<close>.
\<close>

abbreviation MAX_FDS :: u32 where "MAX_FDS \<equiv> 16"
abbreviation MAX_PROCS :: nat where "MAX_PROCS \<equiv> 256"

section \<open>Records\<close>

record saved_registers =
  s_eax :: u32
  s_ebx :: u32
  s_ecx :: u32
  s_edx :: u32
  s_esi :: u32
  s_edi :: u32
  s_ebp :: u32

datatype proc_status =
  UNUSED | EMBRYO | RUNNABLE | WAITING_ON_PID | WAITING_ON_STDIN | WAITING_ON_PIPE | KILLED

datatype fd_status =
  FD_UNMAPPED | FD_STDIN | FD_STDOUT | FD_STDERR | FD_REGULAR_FILE | FD_REGULAR_DIRECTORY | FD_PIPE

datatype fd_data = DFile "nat option" | DPipe u32

record fd =
  fstatus :: fd_status
  fmode :: u32
  fdata :: fd_data
  fptr :: u32

record proc =
  present :: bool
  pid :: u32
  cr3 :: u32
  registers :: saved_registers
  entry :: u32
  eflags :: u32
  pname :: "u8 list"
  kernel_stack :: u32
  status :: proc_status
  parent_pid :: u32
  parent_idx :: u32
  waiting_on :: u32
  kernel_sp :: u32
  kernel_bp :: u32
  brk :: u32
  exit_code :: u32
  cwd :: "nat option"
  fds :: "fd list"

definition fd_file :: "fd \<Rightarrow> nat kres" where
  "fd_file f = (case fdata f of DFile p \<Rightarrow> kderef p | DPipe _ \<Rightarrow> Inl NullDeref)"

definition fd_pipe :: "fd \<Rightarrow> u32 kres" where
  "fd_pipe f = (case fdata f of DPipe i \<Rightarrow> Inr i | DFile _ \<Rightarrow> Inl OutOfBounds)"

text \<open>What C's zero initialiser makes of the records.\<close>

definition zero_fd :: fd where
  "zero_fd = \<lparr>fstatus = FD_UNMAPPED, fmode = 0, fdata = DFile None, fptr = 0\<rparr>"

definition zero_proc :: proc where
  "zero_proc = \<lparr>present = False, pid = 0, cr3 = 0,
     registers = \<lparr>s_eax = 0, s_ebx = 0, s_ecx = 0, s_edx = 0, s_esi = 0, s_edi = 0, s_ebp = 0\<rparr>,
     entry = 0, eflags = 0, pname = [], kernel_stack = 0, status = UNUSED, parent_pid = 0, parent_idx = 0,
     waiting_on = 0, kernel_sp = 0, kernel_bp = 0, brk = 0, exit_code = 0, cwd = None,
     fds = replicate 16 zero_fd\<rparr>"

record ptab =
  ptable :: "proc list"
  curr_pid :: u32
  proc_exists :: bool
  scheduler_proc_index :: u32
  sh_proc_pid :: u32

section \<open>Operations\<close>

definition alloc_proc :: "ptab \<Rightarrow> (nat \<times> ptab) kres" where
  "alloc_proc pt =
     (case find (\<lambda>i. status (ptable pt ! i) = UNUSED) [0..<length (ptable pt)] of
        Some i \<Rightarrow>
          Inr (i, pt\<lparr>proc_exists := True, ptable := (ptable pt)[i := zero_proc\<lparr>pid := curr_pid pt\<rparr>],
                     curr_pid := curr_pid pt + 1\<rparr>)
      | None \<Rightarrow> Inl Panic)"

definition release_proc :: "proc \<Rightarrow> bool \<times> proc" where
  "release_proc p = (if present p then (False, p) else (True, p\<lparr>present := False\<rparr>))"

definition proc_alive :: "proc_status \<Rightarrow> bool" where
  "proc_alive st \<longleftrightarrow> st = EMBRYO \<or> st = RUNNABLE \<or> st = WAITING_ON_PID \<or> st = WAITING_ON_PIPE \<or> st = WAITING_ON_STDIN"

definition get_current_proc :: "ptab \<Rightarrow> nat" where
  "get_current_proc pt = unat (scheduler_proc_index pt)"

definition get_proc_idx :: "nat \<Rightarrow> u32" where
  "get_proc_idx i = of_nat i"

section \<open>Invariant\<close>

text \<open>
  The table has 256 slots of 16 descriptors each, the index of the current process is a slot, and
  every process identifier handed out so far is below \<^verbatim>\<open>curr_pid\<close>, no two slots in use having the
  same one.
\<close>

definition ptab_shape :: "ptab \<Rightarrow> bool" where [wf_defs]:
  "ptab_shape pt \<longleftrightarrow> length (ptable pt) = MAX_PROCS \<and> unat (scheduler_proc_index pt) < MAX_PROCS \<and>
     (\<forall>p \<in> set (ptable pt). length (fds p) = 16)"

definition pids_ok :: "ptab \<Rightarrow> bool" where [wf_defs]:
  "pids_ok pt \<longleftrightarrow> (\<forall>i < length (ptable pt). status (ptable pt ! i) \<noteq> UNUSED \<longrightarrow> pid (ptable pt ! i) < curr_pid pt) \<and>
     (\<forall>i < length (ptable pt). \<forall>j < length (ptable pt). status (ptable pt ! i) \<noteq> UNUSED \<longrightarrow>
        status (ptable pt ! j) \<noteq> UNUSED \<longrightarrow> pid (ptable pt ! i) = pid (ptable pt ! j) \<longrightarrow> i = j)"

lemma zero_proc_fds [simp]: "length (fds zero_proc) = 16"
  by (simp add: zero_proc_def)

lemma ptab_shape_current: "ptab_shape pt \<Longrightarrow> get_current_proc pt < length (ptable pt)"
  by (simp add: wf_defs get_current_proc_def)

lemma alloc_proc_Inr:
  assumes "alloc_proc pt = Inr (i, pt')"
  shows "i < length (ptable pt) \<and> status (ptable pt ! i) = UNUSED \<and> (\<forall>j < i. status (ptable pt ! j) \<noteq> UNUSED) \<and>
    pt' = pt\<lparr>proc_exists := True, ptable := (ptable pt)[i := zero_proc\<lparr>pid := curr_pid pt\<rparr>], curr_pid := curr_pid pt + 1\<rparr>"
  using assms by (auto simp: alloc_proc_def find_Some_iff split: option.splits)

lemma alloc_proc_shape: "ptab_shape pt \<Longrightarrow> alloc_proc pt = Inr (i, pt') \<Longrightarrow> ptab_shape pt'"
  by (drule alloc_proc_Inr) (auto simp: wf_defs dest!: set_update_subset_insert [THEN subsetD])

lemma status_zero [simp]: "status zero_proc = UNUSED"
  by (simp add: zero_proc_def)

text \<open>
  C17: allocation of a process slot. With a free slot \<^verbatim>\<open>alloc_proc\<close> takes the first one, clears it and gives it the
  next identifier, which no slot in use has, the table's other slots stay as they are, and whatever the caller then fills in except
  the identifier, identifiers stay unique. This holds as long as fewer than \<open>2 ^ 32 - 1\<close> identifiers
  have been given out: after that the counter starts again. With no free slot the kernel panics; the comment in the source, which says that
  the null pointer is returned then, is wrong.
\<close>

theorem alloc_proc_fresh:
  assumes "pids_ok pt" "unat (curr_pid pt) < 4294967295"
  shows "case alloc_proc pt of
      Inr (i, pt') \<Rightarrow> i < length (ptable pt) \<and> status (ptable pt ! i) = UNUSED \<and> (\<forall>j < i. status (ptable pt ! j) \<noteq> UNUSED) \<and>
        ptable pt' ! i = zero_proc\<lparr>pid := curr_pid pt\<rparr> \<and>
        (\<forall>j < length (ptable pt). status (ptable pt ! j) \<noteq> UNUSED \<longrightarrow> pid (ptable pt ! j) \<noteq> curr_pid pt) \<and>
        (\<forall>j. j \<noteq> i \<longrightarrow> ptable pt' ! j = ptable pt ! j) \<and>
        (\<forall>p. pid p = curr_pid pt \<longrightarrow> pids_ok (pt'\<lparr>ptable := (ptable pt')[i := p]\<rparr>))
    | Inl e \<Rightarrow> e = Panic \<and> (\<forall>p \<in> set (ptable pt). status p \<noteq> UNUSED)"
proof (cases "find (\<lambda>i. status (ptable pt ! i) = UNUSED) [0..<length (ptable pt)]")
  case None
  have "alloc_proc pt = Inl Panic" unfolding alloc_proc_def None by simp
  moreover have "\<forall>p \<in> set (ptable pt). status p \<noteq> UNUSED" using None by (auto simp: find_None_iff in_set_conv_nth)
  ultimately show ?thesis by simp
next
  case (Some i)
  let ?pt = "pt\<lparr>proc_exists := True, ptable := (ptable pt)[i := zero_proc\<lparr>pid := curr_pid pt\<rparr>], curr_pid := curr_pid pt + 1\<rparr>"
  have a: "alloc_proc pt = Inr (i, ?pt)" using Some by (simp add: alloc_proc_def)
  note i = alloc_proc_Inr [OF a]
  have less: "x < curr_pid pt \<Longrightarrow> x < curr_pid pt + 1" "curr_pid pt < curr_pid pt + 1" for x
    using assms(2) by (simp_all add: word_less_nat_alt unat_word_ariths)
  have fresh: "status (ptable pt ! j) \<noteq> UNUSED \<Longrightarrow> j < length (ptable pt) \<Longrightarrow> pid (ptable pt ! j) \<noteq> curr_pid pt" for j
    using assms(1) by (auto simp: pids_ok_def)
  have "pids_ok (?pt\<lparr>ptable := (ptable ?pt)[i := p]\<rparr>)" if "pid p = curr_pid pt" for p
    using assms(1) that less fresh i unfolding pids_ok_def by (auto simp: nth_list_update)
  then show ?thesis using a i fresh by simp
qed

theorem alloc_proc_fresh_witness:
  "let pt = \<lparr>ptable = [zero_proc\<lparr>status := RUNNABLE\<rparr>, zero_proc], curr_pid = 1, proc_exists = True,
     scheduler_proc_index = 0, sh_proc_pid = 0\<rparr>
   in \<exists>pt'. alloc_proc pt = Inr (1, pt') \<and> pid (ptable pt' ! 1) = 1 \<and> pids_ok (pt'\<lparr>ptable := (ptable pt')[1 := zero_proc\<lparr>pid := 1, status := EMBRYO\<rparr>]\<rparr>)"
proof -
  let ?pt = "\<lparr>ptable = [zero_proc\<lparr>status := RUNNABLE\<rparr>, zero_proc], curr_pid = 1, proc_exists = True,
     scheduler_proc_index = 0, sh_proc_pid = 0\<rparr>"
  have "pids_ok ?pt" by (auto simp: pids_ok_def less_Suc_eq zero_proc_def)
  moreover have "alloc_proc ?pt = Inr (1, ?pt\<lparr>ptable := [zero_proc\<lparr>status := RUNNABLE\<rparr>, zero_proc\<lparr>pid := 1\<rparr>], curr_pid := 2\<rparr>)"
    by (simp add: alloc_proc_def)
  ultimately show ?thesis using alloc_proc_fresh [of ?pt] by simp
qed

end
