(* ===== verification/Kernel.thy ===== *)
theory Kernel
  imports Proc AddrSpace
begin

text \<open>
  The state of the running kernel: one record with the state of every component, and the access
  the kernel has to the memory of processes. User memory is kept per page directory, as a byte
  memory over virtual addresses: which physical page holds a user byte is not modelled, and user
  addresses a system call touches are taken to be mapped (an unmapped one makes the processor fault
  and the fault handler end the process). The kernel half of the address space is not part of a
  process's memory; a system call that would read or write past the user half through a user
  pointer is \<open>OutOfBounds\<close>. The second half of \<^verbatim>\<open>cleanup_proc\<close> is here because it touches the file
  system, the pipes and the process table.
\<close>

record kernel =
  kfs :: fsys
  kcon :: console
  kvm :: vm
  ktty :: tty_data
  kpipes :: "pipe_data list"
  kpipe_bufs :: "u8 list list"
  kpt :: ptab
  kcr3 :: u32
  kumem :: "u32 \<Rightarrow> mem"
  kelf :: mem
  kargbuf :: mem
  kargbuf_addr :: u32
  keflags :: u32
  kesp0 :: u32
  kticks :: u32
  kports :: port_writes

section \<open>The state at power-on\<close>

text \<open>
  The tables as their C initialisers leave them. The file system image, the console, the memory and
  the address of the argument buffer come from the linker and the machine.
\<close>

definition zero_table :: "proc list" where
  "zero_table = replicate MAX_PROCS zero_proc"

definition zero_pipes :: "pipe_data list" where
  "zero_pipes = replicate NUM_PIPE_BUFS \<lparr>pnum_refs = 0, pread_ptr = 0, pwrite_ptr = 0, pinternal_write_ptr = 0\<rparr>"

definition zero_pipe_bufs :: "u8 list list" where
  "zero_pipe_bufs = replicate NUM_PIPE_BUFS (replicate 16384 0)"

definition power_on :: "fsys \<Rightarrow> console \<Rightarrow> vm \<Rightarrow> u32 \<Rightarrow> kernel" where
  "power_on fs con v argbuf =
     \<lparr>kfs = fs, kcon = con, kvm = v, ktty = tty_init (replicate 1024 0), kpipes = zero_pipes, kpipe_bufs = zero_pipe_bufs,
      kpt = \<lparr>ptable = zero_table, curr_pid = 0, proc_exists = False, scheduler_proc_index = 0, sh_proc_pid = 0\<rparr>,
      kcr3 = 0, kumem = (\<lambda>_ _. 0), kelf = (\<lambda>_. 0), kargbuf = (\<lambda>_. 0), kargbuf_addr = argbuf,
      keflags = 0, kesp0 = 0, kticks = 0, kports = []\<rparr>"

lemma length_zero_table [simp]: "length zero_table = MAX_PROCS"
  unfolding zero_table_def by (rule length_replicate)

lemma nth_zero_table [simp]: "i < MAX_PROCS \<Longrightarrow> zero_table ! i = zero_proc"
  unfolding zero_table_def by (rule nth_replicate)

lemma set_zero_table [simp]: "p \<in> set zero_table \<longleftrightarrow> p = zero_proc"
  unfolding zero_table_def by simp

lemma length_zero_pipes [simp]: "length zero_pipes = NUM_PIPE_BUFS" "length zero_pipe_bufs = NUM_PIPE_BUFS"
  unfolding zero_pipes_def zero_pipe_bufs_def by simp_all

text \<open>A kernel with the sample tree and 4 MB of free memory, for the witnesses.\<close>

definition sample_kernel :: kernel where
  "sample_kernel = power_on sample_tree text_console
     \<lparr>vpg = pgalloc_init\<lparr>page_free_map := (\<lambda>e. if 32 \<le> e \<and> e < 64 then - 1 else 0)\<rparr>, pmem = (\<lambda>_. 0), temp_entry = 0,
      kernel_pgdir = 0x110000, kernel_id_pgtbl = 0x111000\<rparr> 0xC0120000"

section \<open>Access to components\<close>

definition cur_mem :: "kernel \<Rightarrow> mem" where
  "cur_mem k = kumem k (kcr3 k)"

definition set_cur_mem :: "mem \<Rightarrow> kernel \<Rightarrow> kernel" where
  "set_cur_mem m k = k\<lparr>kumem := (kumem k)(kcr3 k := m)\<rparr>"

definition get_proc :: "nat \<Rightarrow> kernel \<Rightarrow> proc kres" where
  "get_proc i k = kget (ptable (kpt k)) i"

definition upd_proc :: "nat \<Rightarrow> (proc \<Rightarrow> proc) \<Rightarrow> kernel \<Rightarrow> kernel kres" where
  "upd_proc i f k =
     kbind (kget (ptable (kpt k)) i) (\<lambda>p.
       Inr (k\<lparr>kpt := (kpt k)\<lparr>ptable := (ptable (kpt k))[i := f p]\<rparr>\<rparr>))"

definition cur_proc :: "kernel \<Rightarrow> proc kres" where
  "cur_proc k = get_proc (get_current_proc (kpt k)) k"

definition upd_cur :: "(proc \<Rightarrow> proc) \<Rightarrow> kernel \<Rightarrow> kernel kres" where
  "upd_cur f k = upd_proc (get_current_proc (kpt k)) f k"

definition upd_fd :: "nat \<Rightarrow> (fd \<Rightarrow> fd) \<Rightarrow> proc \<Rightarrow> proc" where
  "upd_fd i f p = p\<lparr>fds := (fds p)[i := f (fds p ! i)]\<rparr>"

definition upd_pipe :: "u32 \<Rightarrow> (pipe_data \<Rightarrow> pipe_data) \<Rightarrow> kernel \<Rightarrow> kernel kres" where
  "upd_pipe i f k =
     kbind (kget (kpipes k) (unat i)) (\<lambda>d. Inr (k\<lparr>kpipes := (kpipes k)[unat i := f d]\<rparr>))"

definition get_inode :: "nat \<Rightarrow> kernel \<Rightarrow> inode kres" where
  "get_inode i k = kget (inodes (kfs k)) i"

definition user_str :: "u32 \<Rightarrow> kernel \<Rightarrow> u8 list kres" where
  "user_str a k =
     kbind (kwait (cstr (cur_mem k) a)) (\<lambda>s. if user_range a (length s + 1) then Inr s else Inl OutOfBounds)"

text \<open>Little-endian words in byte memory.\<close>

definition le32 :: "mem \<Rightarrow> u32 \<Rightarrow> u32" where
  "le32 m a = ucast (m a) OR push_bit 8 (ucast (m (a + 1))) OR push_bit 16 (ucast (m (a + 2))) OR push_bit 24 (ucast (m (a + 3)))"

definition le16 :: "mem \<Rightarrow> u32 \<Rightarrow> u32" where
  "le16 m a = ucast (m a) OR push_bit 8 (ucast (m (a + 1)))"

definition put_le32 :: "u32 \<Rightarrow> u32 \<Rightarrow> mem \<Rightarrow> mem" where
  "put_le32 a w m = m(a := ucast w, a + 1 := ucast (drop_bit 8 w), a + 2 := ucast (drop_bit 16 w), a + 3 := ucast (drop_bit 24 w))"

lemma le32_put_le32 [simp]: "le32 (put_le32 a w m) a = w"
proof (rule bit_word_eqI)
  fix n :: nat
  assume n: "n < LENGTH(32)"
  consider "n < 8" | "8 \<le> n" "n < 16" | "16 \<le> n" "n < 24" | "24 \<le> n" by linarith
  then show "bit (le32 (put_le32 a w m) a) n = bit w n"
    using n by cases (auto simp: le32_def put_le32_def bit_simps)
qed

lemma le32_put_le32_above [simp]: "le32 (put_le32 (a + 4) w m) a = le32 m a"
  by (simp add: le32_def put_le32_def)

definition user_put32 :: "u32 \<Rightarrow> u32 \<Rightarrow> kernel \<Rightarrow> kernel kres" where
  "user_put32 a w k = (if user_range a 4 then Inr (set_cur_mem (put_le32 a w (cur_mem k)) k) else Inl OutOfBounds)"

section \<open>Inode references\<close>

definition k_acquire :: "nat \<Rightarrow> kernel \<Rightarrow> kernel kres" where
  "k_acquire i k = kbind (acquire_inode i (kfs k)) (\<lambda>fs. Inr (k\<lparr>kfs := fs\<rparr>))"

definition k_release :: "nat \<Rightarrow> kernel \<Rightarrow> kernel kres" where
  "k_release i k = kbind (release_inode i (kfs k, kcon k)) (\<lambda>(fs, con). Inr (k\<lparr>kfs := fs, kcon := con\<rparr>))"

section \<open>Ending a process\<close>

abbreviation FAULT_EXIT_CODE :: u32 where "FAULT_EXIT_CODE \<equiv> 128"

definition close_fd_refs :: "fd \<Rightarrow> kernel \<Rightarrow> kernel kres" where
  "close_fd_refs f k =
     (if fstatus f = FD_REGULAR_FILE \<or> fstatus f = FD_REGULAR_DIRECTORY then kbind (fd_file f) (\<lambda>i. k_release i k)
      else if fstatus f = FD_PIPE then kbind (fd_pipe f) (\<lambda>i. upd_pipe i (\<lambda>d. d\<lparr>pnum_refs := pnum_refs d - 1\<rparr>) k)
      else Inr k)"

definition cleanup_proc :: "nat \<Rightarrow> kernel \<Rightarrow> kernel kres" where
  "cleanup_proc i k =
     kbind (get_proc i k) (\<lambda>p.
     kbind (cleanup_pages (cr3 p) (kvm k)) (\<lambda>v.
     kbind (kfold close_fd_refs (fds p) (k\<lparr>kvm := v\<rparr>)) (\<lambda>k.
       upd_proc i (\<lambda>p. p\<lparr>status := KILLED, present := False, exit_code := FAULT_EXIT_CODE\<rparr>) k)))"

end
