(* ===== verification/Exec.thy ===== *)
theory Exec
  imports Kernel
begin

text \<open>
  Creating a process from an ELF file: \<^verbatim>\<open>exec_helper\<close> of \<^verbatim>\<open>kernel/src/exec.c\<close>, split at its comments.
  The global ELF header (\<open>kelf\<close>) and argument buffer (\<open>kargbuf\<close>) keep their bytes between calls, as in
  the source. A program header that the file does not hold in full is read from an uninitialised
  local variable in the source, which the model reports as \<open>OutOfBounds\<close>. The argument strings and
  the custom commands are read from the memory of the calling process.
\<close>

abbreviation ELF_MAGIC :: u32 where "ELF_MAGIC \<equiv> 0x464C457F"

record program_header =
  ph_offset :: u32
  ph_vaddr :: u32
  ph_filesz :: u32
  ph_memsz :: u32

definition elf_magic :: "mem \<Rightarrow> u32" where "elf_magic m = le32 m 0"
definition elf_entry :: "mem \<Rightarrow> u32" where "elf_entry m = le32 m 24"
definition elf_phoff :: "mem \<Rightarrow> u32" where "elf_phoff m = le32 m 28"
definition elf_phnum :: "mem \<Rightarrow> nat" where "elf_phnum m = unat (le16 m 44)"

definition read_elf_header :: "nat \<Rightarrow> kernel \<Rightarrow> kernel kres" where
  "read_elf_header prog k =
     kbind (fs_read_bytes prog 0 52 0 (kfs k, kelf k)) (\<lambda>(_, fs, m). Inr (k\<lparr>kfs := fs, kelf := m\<rparr>))"

definition read_program_header :: "nat \<Rightarrow> nat \<Rightarrow> kernel \<Rightarrow> program_header kres" where
  "read_program_header prog i k =
     kbind (fs_read_bytes prog (elf_phoff (kelf k) + of_nat i * 32) 32 0 (kfs k, \<lambda>_. 0)) (\<lambda>(n, _, m).
       if n = 32 then Inr \<lparr>ph_offset = le32 m 4, ph_vaddr = le32 m 8, ph_filesz = le32 m 16, ph_memsz = le32 m 20\<rparr>
       else Inl OutOfBounds)"

section \<open>Page tables of the new process\<close>

text \<open>The page table for directory entry \<open>i\<close>, made and zeroed when missing, becomes the mapped page.\<close>

definition ensure_table :: "u32 \<Rightarrow> (u32 \<Rightarrow> u32) \<times> vm \<Rightarrow> ((u32 \<Rightarrow> u32) \<times> vm) kres" where
  "ensure_table i = (\<lambda>(dir, v).
     if dir i = 0 then
       kbind (vm_alloc v) (\<lambda>(pt, v).
       kbind (temp_zero (temp_map (pt OR 3) v)) (\<lambda>v. Inr (dir(i := (pt AND PTE_ADDR) OR 7), v)))
     else Inr (dir, temp_map ((dir i AND PTE_ADDR) OR 3) v))"

definition map_segment_page :: "u32 \<Rightarrow> (u32 \<Rightarrow> u32) \<times> vm \<Rightarrow> ((u32 \<Rightarrow> u32) \<times> vm) kres" where
  "map_segment_page addr s =
     kbind (ensure_table (pd_index addr) s) (\<lambda>(dir, v).
     kbind (temp_read (pt_index addr) v) (\<lambda>w.
       if w = 0 then
         kbind (vm_alloc v) (\<lambda>(p, v).
         kbind (temp_write (pt_index addr) (p OR 7) v) (\<lambda>v. Inr (dir, v)))
       else Inr (dir, v)))"

definition segment_pages :: "program_header \<Rightarrow> u32 list" where
  "segment_pages ph =
     (let a = PAGE_ROUND_DOWN (ph_vaddr ph);
          lim = PAGE_ROUND_DOWN (ph_vaddr ph + ph_memsz ph) + PGSIZE
      in map (\<lambda>j. a + of_nat j * PGSIZE) [0..<(unat lim - unat a) div 4096])"

definition map_segments :: "nat \<Rightarrow> kernel \<Rightarrow> (u32 \<Rightarrow> u32) \<times> vm \<Rightarrow> ((u32 \<Rightarrow> u32) \<times> vm) kres" where
  "map_segments prog k =
     kfold (\<lambda>i s. kbind (read_program_header prog i k) (\<lambda>ph. kfold map_segment_page (segment_pages ph) s))
       [0..<elf_phnum (kelf k)]"

text \<open>User stack and kernel stack; the result includes the address of the kernel stack's top page.\<close>

definition map_stacks :: "(u32 \<Rightarrow> u32) \<times> vm \<Rightarrow> (u32 \<times> (u32 \<Rightarrow> u32) \<times> vm) kres" where
  "map_stacks = (\<lambda>(dir, v).
     kbind (vm_alloc v) (\<lambda>(stack, v).
     kbind (vm_alloc v) (\<lambda>(ktop, v).
     kbind (vm_alloc v) (\<lambda>(kbot, v).
     kbind (ensure_table (pd_index (HIGHER_HALF_BASE - PGSIZE)) (dir, v)) (\<lambda>(dir, v).
     kbind (temp_write 1023 (stack OR 7) v) (\<lambda>v.
     kbind (temp_write 1022 (ktop OR 3) v) (\<lambda>v.
     kbind (temp_write 1021 (kbot OR 3) v) (\<lambda>v. Inr (ktop, dir, v)))))))))"

definition install_pgdir :: "(u32 \<Rightarrow> u32) \<times> vm \<Rightarrow> (u32 \<times> vm) kres" where
  "install_pgdir = (\<lambda>(dir, v).
     let dir = (\<lambda>i. if 768 \<le> i then pmem v (kernel_pgdir v + 4 * i) else dir i)
     in kbind (vm_alloc v) (\<lambda>(pgdir, v).
        kbind (temp_store dir (temp_map (pgdir OR 3) v)) (\<lambda>v.
          Inr (pgdir, temp_map (kernel_id_pgtbl v OR 3) v))))"

section \<open>Arguments\<close>

definition user_arg :: "u32 \<Rightarrow> nat \<Rightarrow> kernel \<Rightarrow> u8 list kres" where
  "user_arg argv i k =
     (let a = argv + 4 * of_nat i
      in if user_range a 4 then user_str (le32 (cur_mem k) a) k else Inl OutOfBounds)"

definition total_argv_len :: "u32 \<Rightarrow> u32 \<Rightarrow> kernel \<Rightarrow> u32 kres" where
  "total_argv_len argc argv k =
     kfold (\<lambda>i n. kbind (user_arg argv i k) (\<lambda>s. Inr (n + of_nat (length s) + 1 + 4))) [0..<unat argc] 0"

text \<open>
  The copy of the arguments into the argument buffer, from argument \<open>i\<close> on, with the next string at
  \<open>dst\<close>; the number of arguments that fit. Writing outside the buffer is an error.
\<close>

function pack_args :: "u32 \<Rightarrow> u32 \<Rightarrow> nat \<Rightarrow> u32 \<Rightarrow> kernel \<Rightarrow> (u32 \<times> kernel) kres" where
  "pack_args argc argv i dst k =
     (if i < unat argc then
        kbind (user_arg argv i k) (\<lambda>s.
          let next_len = of_nat (length s) + 1; base = kargbuf_addr k
          in if dst + next_len > base + PGSIZE then Inr (of_nat i, k)
             else if unat (dst - base) + length s + 1 > 4096 \<or> 4 * i + 4 > 4096 then Inl OutOfBounds
             else
               let b = put_le32 (4 * of_nat i) (0x80000000 + (dst - base)) (kargbuf k);
                   b = put_bytes (s @ [0]) (dst - base) b
               in pack_args argc argv (i + 1) (dst + next_len) (k\<lparr>kargbuf := b\<rparr>))
      else Inr (argc, k))"
  by pat_completeness auto
termination
  by (relation "measure (\<lambda>(argc, argv, i, dst, k). unat argc - i)") auto

declare pack_args.simps [simp del]

section \<open>Filling the address space\<close>

text \<open>One segment copied into the memory \<open>m\<close> of the new process.\<close>

definition load_segment :: "nat \<Rightarrow> kernel \<Rightarrow> nat \<Rightarrow> mem \<Rightarrow> mem kres" where
  "load_segment prog k i m =
     kbind (read_program_header prog i k) (\<lambda>ph.
     kbind (fs_read_bytes prog (ph_offset ph) (ph_filesz ph) (ph_vaddr ph) (kfs k, m)) (\<lambda>(n, _, m).
       if \<not> user_range (ph_vaddr ph) (unat n) \<or>
          \<not> user_range (ph_vaddr ph + ph_filesz ph) (unat (ph_memsz ph - ph_filesz ph)) then Inl OutOfBounds
       else Inr (memset m (ph_vaddr ph + ph_filesz ph) 0 (ph_memsz ph - ph_filesz ph))))"

definition init_stack :: "u32 \<Rightarrow> mem \<Rightarrow> mem" where
  "init_stack argc m =
     put_le32 (HIGHER_HALF_BASE - 16) 0 (put_le32 (HIGHER_HALF_BASE - 12) 0
       (put_le32 (HIGHER_HALF_BASE - 8) argc (put_le32 (HIGHER_HALF_BASE - 4) 0x80000000 m)))"

definition load_image :: "nat \<Rightarrow> u32 \<Rightarrow> kernel \<Rightarrow> mem \<Rightarrow> mem kres" where
  "load_image prog argc k m =
     kbind (kfold (load_segment prog k) [0..<elf_phnum (kelf k)] m) (\<lambda>m.
       let m = (if argc > 0 then put_bytes (map (\<lambda>j. kargbuf k (of_nat j)) [0..<4096]) 0x80000000 m else m)
       in Inr (init_stack argc m))"

section \<open>File descriptors of the new process\<close>

abbreviation SYS_OPEN_FILE_MODE_READ :: u32 where "SYS_OPEN_FILE_MODE_READ \<equiv> 2"
abbreviation SYS_OPEN_FILE_MODE_WRITE :: u32 where "SYS_OPEN_FILE_MODE_WRITE \<equiv> 4"

definition std_fds :: "fd list \<Rightarrow> fd list" where
  "std_fds fs =
     (let std = (\<lambda>st md. \<lparr>fstatus = st, fmode = md, fdata = DFile None, fptr = 0\<rparr>)
      in [std FD_STDOUT SYS_OPEN_FILE_MODE_WRITE, std FD_STDIN SYS_OPEN_FILE_MODE_READ,
          std FD_STDERR SYS_OPEN_FILE_MODE_WRITE] @ map (\<lambda>f. f\<lparr>fstatus := FD_UNMAPPED\<rparr>) (drop 3 fs))"

text \<open>References a copied descriptor takes.\<close>

definition dup_fd_refs :: "fd \<Rightarrow> kernel \<Rightarrow> kernel kres" where
  "dup_fd_refs f k =
     (if fstatus f = FD_REGULAR_FILE \<or> fstatus f = FD_REGULAR_DIRECTORY then kbind (fd_file f) (\<lambda>i. k_acquire i k)
      else if fstatus f = FD_PIPE then kbind (fd_pipe f) (\<lambda>i. upd_pipe i (\<lambda>d. d\<lparr>pnum_refs := pnum_refs d + 1\<rparr>) k)
      else Inr k)"

definition custom_command :: "u32 \<Rightarrow> nat \<Rightarrow> nat \<Rightarrow> kernel \<Rightarrow> kernel kres" where
  "custom_command commands new i k =
     (let a = commands + 12 * of_nat i
      in if \<not> user_range a 12 then Inl OutOfBounds
         else if le32 (cur_mem k) a = 0 then
           kbind (cur_proc k) (\<lambda>c.
           kbind (kget (fds c) (unat (le32 (cur_mem k) (a + 4)))) (\<lambda>f.
           kbind (get_proc new k) (\<lambda>p.
           kbind (kset (fds p) (unat (le32 (cur_mem k) (a + 8))) f) (\<lambda>fs.
           kbind (upd_proc new (\<lambda>p. p\<lparr>fds := fs\<rparr>) k)
             (dup_fd_refs f)))))
         else Inr k)"

section \<open>The whole function\<close>

definition exec_helper :: "nat \<Rightarrow> u32 \<Rightarrow> u32 \<Rightarrow> u32 \<Rightarrow> u32 \<Rightarrow> kernel \<Rightarrow> (nat option \<times> kernel) kres" where
  "exec_helper prog argc argv num_custom_commands commands k =
     kbind (read_elf_header prog k) (\<lambda>k.
     kbind (get_inode prog k) (\<lambda>x.
       if elf_magic (kelf k) \<noteq> ELF_MAGIC then
         kbind (kprintf (bytes_of ''Exec %s: bad magic'' @ [10]) [KStr (iname x)] (kcon k)) (\<lambda>con.
           Inr (None, k\<lparr>kcon := con\<rparr>))
       else
         kbind (alloc_proc (kpt k)) (\<lambda>(new, pt).
         kbind (upd_proc new (\<lambda>p. p\<lparr>pname := iname x\<rparr>) (k\<lparr>kpt := pt\<rparr>)) (\<lambda>k.
         kbind (map_segments prog k (\<lambda>_. 0, kvm k)) (\<lambda>s.
         kbind (map_stacks s) (\<lambda>(ktop, dir, v).
         kbind (total_argv_len argc argv k) (\<lambda>len.
         kbind (pack_args argc argv 0 (kargbuf_addr k + argc * 4) k) (\<lambda>(global_argc, k).
         kbind (install_pgdir (dir, v)) (\<lambda>(pgdir, v).
         kbind (sbrk_helper pgdir 0x80000000 len v) (\<lambda>(new_brk, v).
         kbind (load_image prog global_argc k (kumem k pgdir)) (\<lambda>m.
         kbind (upd_proc new (\<lambda>p. p\<lparr>kernel_stack := ktop, cr3 := pgdir, brk := new_brk, eflags := keflags k OR 0x200,
                    entry := elf_entry (kelf k), status := EMBRYO, cwd := Some get_root_inode, fds := std_fds (fds p)\<rparr>)
                  (k\<lparr>kvm := v, kumem := (kumem k)(pgdir := m)\<rparr>)) (\<lambda>k.
         kbind (kfold (custom_command commands new) [0..<unat num_custom_commands] k) (\<lambda>k.
         kbind (upd_proc new (\<lambda>p. p\<lparr>present := True\<rparr>) k) (\<lambda>k.
           Inr (Some new, k)))))))))))))))"

end
