(* ===== verification/Sched.thy ===== *)
theory Sched
  imports Exec
begin

text \<open>
  The scheduler (\<^verbatim>\<open>scheduler\<close> of \<^verbatim>\<open>kernel/src/proc.c\<close>), the timer interrupt that calls it and the two
  fault handlers of \<^verbatim>\<open>kernel/src/interrupt.c\<close>. One turn of the scheduler's loop is
  \<open>sched_visit\<close>. The loop itself has fuel: the source's loop never ends when no process can run, and
  512 turns are two rounds over the table, after which a round without a choice repeats itself
  for ever. In the timer interrupt the switch of stacks is the update of the saved stack pointers
  and of \<open>kcr3\<close>; the frame built for a process that has not run yet is written to its kernel
  stack.
\<close>

section \<open>The scheduler\<close>

definition set_index :: "nat \<Rightarrow> kernel \<Rightarrow> kernel" where
  "set_index i k = k\<lparr>kpt := (kpt k)\<lparr>scheduler_proc_index := of_nat i\<rparr>\<rparr>"

definition wake :: "nat \<Rightarrow> kernel \<Rightarrow> (bool \<times> kernel) kres" where
  "wake i k = kbind (upd_proc i (\<lambda>p. p\<lparr>status := RUNNABLE\<rparr>) k) (\<lambda>k. Inr (True, set_index i k))"

definition respawn_shell :: "kernel \<Rightarrow> kernel kres" where
  "respawn_shell k =
     kbind (get_inode_by_path (kfs k) (Some get_root_inode) (bytes_of ''~/bin/sh'')) (\<lambda>sh.
       case sh of None \<Rightarrow> Inl Panic
       | Some sh \<Rightarrow>
           kbind (exec_helper sh 0 0 0 0 k) (\<lambda>(new, k).
           kbind (kderef new) (\<lambda>new.
           kbind (get_proc new k) (\<lambda>p.
             Inr (k\<lparr>kpt := (kpt k)\<lparr>sh_proc_pid := pid p\<rparr>\<rparr>)))))"

definition reap :: "nat \<Rightarrow> kernel \<Rightarrow> kernel kres" where
  "reap i k =
     kbind (get_proc i k) (\<lambda>p.
     kbind (get_proc (unat (parent_idx p)) k) (\<lambda>q.
       if proc_alive (status q) then Inr k else upd_proc i (\<lambda>p. p\<lparr>status := UNUSED\<rparr>) k))"

definition sched_visit :: "nat \<Rightarrow> kernel \<Rightarrow> (bool \<times> kernel) kres" where
  "sched_visit i k =
     kbind (get_proc i k) (\<lambda>p.
       case status p of
         EMBRYO \<Rightarrow> Inr (True, set_index i k)
       | RUNNABLE \<Rightarrow> Inr (True, set_index i k)
       | WAITING_ON_PID \<Rightarrow>
           kbind (get_proc (unat (waiting_on p)) k) (\<lambda>w.
             if status w = KILLED then
               kbind (upd_proc i (\<lambda>p. p\<lparr>exit_code := exit_code w\<rparr>) k) (wake i)
             else Inr (False, k))
       | WAITING_ON_STDIN \<Rightarrow>
           if tread_ptr (ktty k) \<noteq> twrite_ptr (ktty k) then wake i k else Inr (False, k)
       | WAITING_ON_PIPE \<Rightarrow>
           kbind (kget (kpipes k) (unat (waiting_on p))) (\<lambda>d.
             if pwrite_ptr d \<noteq> pread_ptr d then wake i k else Inr (False, k))
       | KILLED \<Rightarrow>
           kbind (if pid p = sh_proc_pid (kpt k) then respawn_shell k else Inr k) (\<lambda>k.
           kbind (reap i k) (\<lambda>k. Inr (False, k)))
       | UNUSED \<Rightarrow> Inr (False, k))"

fun sched_loop :: "nat \<Rightarrow> nat \<Rightarrow> kernel \<Rightarrow> kernel kres" where
  "sched_loop 0 i k = Inl Hang"
| "sched_loop (Suc fuel) i k =
     (let i = (i + 1) mod MAX_PROCS
      in kbind (sched_visit i k) (\<lambda>(found, k). if found then Inr k else sched_loop fuel i k))"

definition scheduler :: "kernel \<Rightarrow> kernel kres" where
  "scheduler k = sched_loop 512 (unat (scheduler_proc_index (kpt k))) k"

section \<open>The timer interrupt\<close>

abbreviation FRAME :: u32 where "FRAME \<equiv> HIGHER_HALF_BASE - PGSIZE - 52"

definition put_frame :: "proc \<Rightarrow> mem \<Rightarrow> mem" where
  "put_frame p m =
     (let r = registers p
      in fold (\<lambda>(off, w) m. put_le32 (FRAME + off) w m)
           [(44, HIGHER_HALF_BASE - 12), (32, entry p), (36, 0x1B), (48, 0x23), (40, eflags p),
            (28, s_eax r), (16, s_ebx r), (24, s_ecx r), (20, s_edx r), (4, s_esi r), (0, s_edi r), (8, s_ebp r)] m)"

text \<open>\<open>esp\<close> and \<open>ebp\<close> are the interrupted process's kernel stack registers.\<close>

definition timer_interrupt_handler_inner :: "u32 \<Rightarrow> u32 \<Rightarrow> kernel \<Rightarrow> (proc_status \<times> kernel) kres" where
  "timer_interrupt_handler_inner esp ebp k =
     kbind
       (if \<not> proc_exists (kpt k) then Inr k
        else
          kbind (upd_cur (\<lambda>p. p\<lparr>kernel_sp := esp, kernel_bp := ebp\<rparr>) k) (\<lambda>k.
          kbind (scheduler k) (\<lambda>k.
          kbind (cur_proc k) (\<lambda>p.
            let k = k\<lparr>kcr3 := cr3 p\<rparr>
            in Inr (if status p = EMBRYO
                    then (set_cur_mem (put_frame p (cur_mem k)) k)\<lparr>kesp0 := HIGHER_HALF_BASE - PGSIZE\<rparr>
                    else k)))))
       (\<lambda>k. let k = k\<lparr>kticks := kticks k + 1, kports := kports k @ pic_send_eoi 0\<rparr>
            in if proc_exists (kpt k) then kbind (cur_proc k) (\<lambda>p. Inr (status p, k)) else Inr (UNUSED, k))"

definition set_curr_proc_runnable :: "kernel \<Rightarrow> kernel kres" where
  "set_curr_proc_runnable = upd_cur (\<lambda>p. p\<lparr>status := RUNNABLE\<rparr>)"

text \<open>The assembly around the handler: a process that has not run yet becomes runnable.\<close>

definition timer_interrupt :: "u32 \<Rightarrow> u32 \<Rightarrow> kernel \<Rightarrow> kernel kres" where
  "timer_interrupt esp ebp k =
     kbind (timer_interrupt_handler_inner esp ebp k) (\<lambda>(st, k).
       if st = EMBRYO then set_curr_proc_runnable k else Inr k)"

section \<open>Faults\<close>

text \<open>
  The handlers end the process (the interrupt that gives up the processor follows) or panic.
\<close>

definition kill_current :: "u8 list \<Rightarrow> karg list \<Rightarrow> kernel \<Rightarrow> kernel kres" where
  "kill_current why args k =
     (let i = get_current_proc (kpt k)
      in kbind (cleanup_proc i k) (\<lambda>k.
         kbind (get_proc i k) (\<lambda>p.
         kbind (kprintf (bytes_of ''Killed process `%s` (PID %d): '' @ why @ [10]) ([KStr (pname p), KNum (pid p)] @ args) (kcon k)) (\<lambda>con.
           Inr (k\<lparr>kcon := con\<rparr>)))))"

definition gp_fault_handler_inner :: "u32 \<Rightarrow> kernel \<Rightarrow> kernel kres" where
  "gp_fault_handler_inner cs k =
     (if cs AND 0x3 = 3 then kill_current (bytes_of ''General Protection Fault'') [] k else Inl Panic)"

definition page_fault_handler_inner :: "u32 \<Rightarrow> u32 \<Rightarrow> u32 \<Rightarrow> kernel \<Rightarrow> kernel kres" where
  "page_fault_handler_inner error_code fault_addr ip k =
     (if error_code AND 0x4 \<noteq> 0 \<or> fault_addr < HIGHER_HALF_BASE
      then kill_current (bytes_of ''Page Fault at address 0x%x (eip=%x)'') [KNum fault_addr, KNum ip] k
      else Inl Panic)"

end
