(* ===== verification/SysFile.thy ===== *)
theory SysFile
  imports Sched
begin

text \<open>
  The system calls on file descriptors and on the file system (\<^verbatim>\<open>kernel/src/syscall.c\<close>). A handler
  takes the saved registers of the caller and the kernel; its result says whether the handler has
  given up the processor in the middle (\<^verbatim>\<open>int $0x20\<close>), with the registers and the kernel at that
  point. What a blocked handler does after the processor comes back to it is a function of its
  own, \<open>sys_read_resume\<close> here and \<open>sys_wait_resume\<close> in \<open>SysProc\<close>.
\<close>

record syscall_registers =
  edi :: u32
  esi :: u32
  ebp :: u32
  esp :: u32
  ebx :: u32
  edx :: u32
  ecx :: u32
  eax :: u32

type_synonym sysres = "(bool \<times> syscall_registers \<times> kernel) kres"

definition ret :: "u32 \<Rightarrow> syscall_registers \<Rightarrow> kernel \<Rightarrow> sysres" where
  "ret v s k = Inr (False, s\<lparr>eax := v\<rparr>, k)"

definition is_valid_user_addr :: "u32 \<Rightarrow> bool" where
  "is_valid_user_addr addr \<longleftrightarrow> addr < HIGHER_HALF_BASE"

abbreviation "SYS_BAD_BUF \<equiv> - 1 :: u32"
abbreviation "SYS_BAD_FD \<equiv> - 2 :: u32"
abbreviation "SYS_BAD_PERMS \<equiv> - 3 :: u32"
abbreviation "FAIL \<equiv> - 1 :: u32"

section \<open>Writing and reading\<close>

definition write_console :: "u32 \<Rightarrow> u32 \<Rightarrow> kernel \<Rightarrow> kernel kres" where
  "write_console buf n k =
     (if \<not> user_range buf (unat n) then Inl OutOfBounds
      else kbind (kfold (\<lambda>i. kprint_char (cur_mem k (buf + of_nat i))) [0..<unat n] (kcon k)) (\<lambda>con. Inr (k\<lparr>kcon := con\<rparr>)))"

definition get_pipe :: "u32 \<Rightarrow> kernel \<Rightarrow> pipe kres" where
  "get_pipe i k = kbind (kget (kpipes k) (unat i)) (\<lambda>d. kbind (kget (kpipe_bufs k) (unat i)) (\<lambda>b. Inr (d, b)))"

definition set_pipe :: "u32 \<Rightarrow> pipe \<Rightarrow> kernel \<Rightarrow> kernel" where
  "set_pipe i p k = k\<lparr>kpipes := (kpipes k)[unat i := fst p], kpipe_bufs := (kpipe_bufs k)[unat i := snd p]\<rparr>"

definition sys_write :: "syscall_registers \<Rightarrow> kernel \<Rightarrow> sysres" where
  "sys_write s k =
     (if \<not> is_valid_user_addr (ecx s) then ret SYS_BAD_BUF s k
      else
        kbind (cur_proc k) (\<lambda>p.
          if ebx s \<ge> MAX_FDS then ret SYS_BAD_FD s k
          else
            kbind (kget (fds p) (unat (ebx s))) (\<lambda>f.
              if fstatus f \<noteq> FD_REGULAR_FILE \<and> fstatus f \<noteq> FD_PIPE \<and> fstatus f \<noteq> FD_STDOUT \<and> fstatus f \<noteq> FD_STDERR
              then ret SYS_BAD_FD s k
              else if fmode f AND SYS_OPEN_FILE_MODE_WRITE = 0 then ret SYS_BAD_PERMS s k
              else if fstatus f = FD_STDOUT \<or> fstatus f = FD_STDERR then
                kbind (write_console (ecx s) (edx s) k) (\<lambda>k. Inr (False, s, k))
              else if fstatus f = FD_PIPE then
                kbind (fd_pipe f) (\<lambda>i.
                kbind (get_pipe i k) (\<lambda>(d, b).
                  if pnum_refs d < 2 then ret FAIL s k
                  else
                    kbind (pipe_write_loop (cur_mem k) (ecx s) (edx s) 0 (eax s) (d, b)) (\<lambda>(v, p).
                      ret v s (set_pipe i p k))))
              else
                kbind (fd_file f) (\<lambda>file.
                kbind (fs_write_bytes file (fptr f) (edx s) (ecx s) (kfs k, cur_mem k)) (\<lambda>(n, fs, _).
                  if \<not> user_range (ecx s) (unat n) then Inl OutOfBounds
                  else
                    kbind (upd_cur (upd_fd (unat (ebx s)) (\<lambda>f. f\<lparr>fptr := fptr f + n\<rparr>)) (k\<lparr>kfs := fs\<rparr>))
                      (ret n s))))))"

text \<open>The copy loops of \<^verbatim>\<open>sys_read\<close>, entered at once or when the process runs again.\<close>

definition read_stdin :: "syscall_registers \<Rightarrow> kernel \<Rightarrow> sysres" where
  "read_stdin s k =
     kbind (read_loop tty_empty tty_pop (ecx s) (edx s) 0 (ktty k, cur_mem k)) (\<lambda>(n, t, m).
       ret n s (set_cur_mem m (k\<lparr>ktty := t\<rparr>)))"

definition read_pipe :: "u32 \<Rightarrow> syscall_registers \<Rightarrow> kernel \<Rightarrow> sysres" where
  "read_pipe i s k =
     kbind (get_pipe i k) (\<lambda>p.
     kbind (read_loop pipe_empty pipe_pop (ecx s) (edx s) 0 (p, cur_mem k)) (\<lambda>(n, p, m).
       ret n s (set_cur_mem m (set_pipe i p k))))"

definition sys_read :: "syscall_registers \<Rightarrow> kernel \<Rightarrow> sysres" where
  "sys_read s k =
     (if \<not> is_valid_user_addr (ecx s) then ret SYS_BAD_BUF s k
      else
        kbind (cur_proc k) (\<lambda>p.
          if ebx s \<ge> MAX_FDS then ret SYS_BAD_FD s k
          else
            kbind (kget (fds p) (unat (ebx s))) (\<lambda>f.
              if fstatus f \<noteq> FD_REGULAR_FILE \<and> fstatus f \<noteq> FD_PIPE \<and> fstatus f \<noteq> FD_STDIN then ret SYS_BAD_FD s k
              else if fmode f AND SYS_OPEN_FILE_MODE_READ = 0 then ret SYS_BAD_PERMS s k
              else if fstatus f = FD_STDIN then
                if tty_empty (ktty k) then
                  kbind (upd_cur (\<lambda>p. p\<lparr>status := WAITING_ON_STDIN\<rparr>) k) (\<lambda>k. Inr (True, s, k))
                else read_stdin s k
              else if fstatus f = FD_PIPE then
                kbind (fd_pipe f) (\<lambda>i.
                kbind (get_pipe i k) (\<lambda>(d, b).
                  if pipe_empty (d, b) then
                    if pnum_refs d < 2 then ret FAIL s k
                    else
                      kbind (upd_cur (\<lambda>p. p\<lparr>status := WAITING_ON_PIPE, waiting_on := i\<rparr>) k) (\<lambda>k. Inr (True, s, k))
                  else read_pipe i s k))
              else
                kbind (fd_file f) (\<lambda>file.
                kbind (fs_read_bytes file (fptr f) (edx s) (ecx s) (kfs k, cur_mem k)) (\<lambda>(n, fs, m).
                  if \<not> user_range (ecx s) (unat n) then Inl OutOfBounds
                  else
                    kbind (upd_cur (upd_fd (unat (ebx s)) (\<lambda>f. f\<lparr>fptr := fptr f + n\<rparr>)) (set_cur_mem m (k\<lparr>kfs := fs\<rparr>)))
                      (ret n s))))))"

definition sys_read_resume :: "syscall_registers \<Rightarrow> kernel \<Rightarrow> sysres" where
  "sys_read_resume s k =
     kbind (cur_proc k) (\<lambda>p.
     kbind (kget (fds p) (unat (ebx s))) (\<lambda>f.
       if fstatus f = FD_STDIN then read_stdin s k else kbind (fd_pipe f) (\<lambda>i. read_pipe i s k)))"

section \<open>Descriptors\<close>

text \<open>The descriptor status for an inode; a link counts as what it resolves to.\<close>

definition open_status :: "nat \<Rightarrow> kernel \<Rightarrow> fd_status option kres" where
  "open_status i k =
     (let of_type = (\<lambda>t. if t = FT_FILE then Inr (Some FD_REGULAR_FILE)
                        else if t = FT_DIRECTORY then Inr (Some FD_REGULAR_DIRECTORY) else Inl Panic)
      in kbind (get_inode i k) (\<lambda>x.
           if itype x = FT_SYMLINK then
             kbind (follow_symlink (kfs k) i) (\<lambda>t.
               case t of None \<Rightarrow> Inr None | Some j \<Rightarrow> kbind (get_inode j k) (\<lambda>y. of_type (itype y)))
           else of_type (itype x)))"

definition lookup_user_path :: "u32 \<Rightarrow> kernel \<Rightarrow> nat option kres" where
  "lookup_user_path a k =
     kbind (cur_proc k) (\<lambda>p. kbind (user_str a k) (get_inode_by_path (kfs k) (cwd p)))"

definition sys_open :: "syscall_registers \<Rightarrow> kernel \<Rightarrow> sysres" where
  "sys_open s k =
     (if \<not> is_valid_user_addr (ebx s) then ret FAIL s k
      else
        kbind (lookup_user_path (ebx s) k) (\<lambda>target.
          case target of None \<Rightarrow> ret FAIL s k
          | Some t \<Rightarrow>
              kbind (cur_proc k) (\<lambda>p.
                case find (\<lambda>i. fstatus (fds p ! i) = FD_UNMAPPED) [0..<length (fds p)] of
                  None \<Rightarrow> ret FAIL s k
                | Some i \<Rightarrow>
                    kbind (open_status t k) (\<lambda>st.
                      case st of None \<Rightarrow> ret FAIL s k
                      | Some st \<Rightarrow>
                          kbind (k_acquire t k) (\<lambda>k.
                          kbind (upd_cur (upd_fd i (\<lambda>f. f\<lparr>fstatus := st, fdata := DFile (Some t), fmode := ecx s, fptr := 0\<rparr>)) k)
                            (ret (of_nat i) s))))))"

text \<open>
  The guard admits descriptor 16, one past the array. The old descriptor's reference is dropped
  before the new file is known to be usable, and the status is a regular file in the end, whatever
  was opened.
\<close>

definition sys_reopen :: "syscall_registers \<Rightarrow> kernel \<Rightarrow> sysres" where
  "sys_reopen s k =
     (if ebx s > MAX_FDS then ret FAIL s k
      else if \<not> is_valid_user_addr (ecx s) then ret FAIL s k
      else
        kbind (lookup_user_path (ecx s) k) (\<lambda>target.
          case target of None \<Rightarrow> ret FAIL s k
          | Some t \<Rightarrow>
              kbind (cur_proc k) (\<lambda>p.
              kbind (kget (fds p) (unat (ebx s))) (\<lambda>f.
              kbind (if fstatus f = FD_REGULAR_FILE \<or> fstatus f = FD_REGULAR_DIRECTORY
                     then kbind (fd_file f) (\<lambda>i. k_release i k) else Inr k) (\<lambda>k.
              kbind (open_status t k) (\<lambda>st.
                case st of None \<Rightarrow> ret FAIL s k
                | Some _ \<Rightarrow>
                    kbind (k_acquire t k) (\<lambda>k.
                    kbind (upd_cur (upd_fd (unat (ebx s))
                              (\<lambda>f. f\<lparr>fstatus := FD_REGULAR_FILE, fdata := DFile (Some t), fmode := edx s, fptr := 0\<rparr>)) k)
                      (ret (ebx s) s))))))))"

definition sys_close :: "syscall_registers \<Rightarrow> kernel \<Rightarrow> sysres" where
  "sys_close s k =
     (if ebx s \<ge> MAX_FDS then ret FAIL s k
      else
        kbind (cur_proc k) (\<lambda>p.
        kbind (kget (fds p) (unat (ebx s))) (\<lambda>f.
          if fstatus f = FD_UNMAPPED then ret FAIL s k
          else
            kbind (close_fd_refs f k) (\<lambda>k.
            kbind (upd_cur (upd_fd (unat (ebx s)) (\<lambda>f. f\<lparr>fstatus := FD_UNMAPPED\<rparr>)) k)
              (ret 0 s)))))"

definition sys_set_ptr :: "syscall_registers \<Rightarrow> kernel \<Rightarrow> sysres" where
  "sys_set_ptr s k =
     (if ebx s \<ge> MAX_FDS then ret FAIL s k
      else
        kbind (cur_proc k) (\<lambda>p.
        kbind (kget (fds p) (unat (ebx s))) (\<lambda>f.
          if fstatus f \<noteq> FD_REGULAR_FILE then ret FAIL s k
          else
            kbind (fd_file f) (\<lambda>i.
            kbind (get_inode i k) (\<lambda>x.
              let ptr = umin (ecx s) (idata x)
              in kbind (upd_cur (upd_fd (unat (ebx s)) (\<lambda>f. f\<lparr>fptr := ptr\<rparr>)) k) (ret ptr s))))))"

definition sys_ftype :: "syscall_registers \<Rightarrow> kernel \<Rightarrow> sysres" where
  "sys_ftype s k =
     (if ebx s \<ge> MAX_FDS then ret FAIL s k
      else
        kbind (cur_proc k) (\<lambda>p.
        kbind (kget (fds p) (unat (ebx s))) (\<lambda>f.
          if fstatus f = FD_STDIN \<or> fstatus f = FD_STDOUT \<or> fstatus f = FD_STDERR then ret 4 s k
          else if fstatus f = FD_UNMAPPED \<or> fstatus f = FD_PIPE then ret FAIL s k
          else
            kbind (fd_file f) (\<lambda>i.
            kbind (get_inode i k) (\<lambda>x.
              case itype x of FT_FILE \<Rightarrow> ret 1 s k | FT_DIRECTORY \<Rightarrow> ret 2 s k | FT_SYMLINK \<Rightarrow> ret 3 s k
              | FT_UNALLOCATED \<Rightarrow> Inl Panic)))))"

section \<open>Information\<close>

text \<open>The inode behind a descriptor, whatever the descriptor's status.\<close>

definition fd_inode :: "syscall_registers \<Rightarrow> kernel \<Rightarrow> inode kres" where
  "fd_inode s k =
     kbind (cur_proc k) (\<lambda>p.
     kbind (kget (fds p) (unat (ebx s))) (\<lambda>f.
     kbind (fd_file f) (\<lambda>i. get_inode i k)))"

definition sys_file_info :: "syscall_registers \<Rightarrow> kernel \<Rightarrow> sysres" where
  "sys_file_info s k =
     (if ebx s \<ge> MAX_FDS then ret FAIL s k
      else
        kbind (fd_inode s k) (\<lambda>x.
          if itype x \<noteq> FT_FILE then ret FAIL s k
          else if \<not> is_valid_user_addr (ecx s) then ret FAIL s k
          else kbind (user_put32 (ecx s) (idata x) k) (ret 0 s)))"

definition sys_dir_info :: "syscall_registers \<Rightarrow> kernel \<Rightarrow> sysres" where
  "sys_dir_info s k =
     (if ebx s \<ge> MAX_FDS then ret FAIL s k
      else
        kbind (fd_inode s k) (\<lambda>x.
          if itype x \<noteq> FT_DIRECTORY then ret FAIL s k
          else if \<not> is_valid_user_addr (ecx s) then ret FAIL s k
          else kbind (user_put32 (ecx s) (idata x) k) (ret 0 s)))"

definition sys_dirent_info :: "syscall_registers \<Rightarrow> kernel \<Rightarrow> sysres" where
  "sys_dirent_info s k =
     (if ebx s \<ge> MAX_FDS then ret FAIL s k
      else
        kbind (fd_inode s k) (\<lambda>dir.
          if itype dir \<noteq> FT_DIRECTORY then ret FAIL s k
          else if \<not> is_valid_user_addr (ecx s) then ret FAIL s k
          else if \<not> user_range (ecx s) 4 then Inl OutOfBounds
          else
            let offset = le32 (cur_mem k) (ecx s)
            in if offset > idata dir then ret FAIL s k
               else
                 kbind (kget (iblocks dir) (unat offset)) (\<lambda>e.
                 kbind (get_inode (get_inode_at_idx e) k) (\<lambda>x.
                   if \<not> user_range (ecx s + 4) (length (iname x) + 1) then Inl OutOfBounds
                   else
                     kbind (user_put32 (ecx s) (offset + 1) (set_cur_mem (put_bytes (iname x @ [0]) (ecx s + 4) (cur_mem k)) k))
                       (ret 0 s)))))"

definition sys_symlink_info :: "syscall_registers \<Rightarrow> kernel \<Rightarrow> sysres" where
  "sys_symlink_info s k =
     (if ebx s \<ge> MAX_FDS then ret FAIL s k
      else
        kbind (fd_inode s k) (\<lambda>x.
          if itype x \<noteq> FT_SYMLINK then ret FAIL s k
          else if \<not> is_valid_user_addr (ecx s) then ret FAIL s k
          else
            kbind (path_helper (kfs k) (get_inode_at_idx (idata x)) (ecx s) (edx s) (cur_mem k)) (\<lambda>(r, m).
              ret r s (set_cur_mem m k))))"

end
