(* ===== verification/SysFs.thy ===== *)
theory SysFs
  imports SysFile
begin

text \<open>
  The system calls that change directories and the tree (\<^verbatim>\<open>kernel/src/syscall.c\<close>): \<^verbatim>\<open>sys_cd\<close>,
  \<^verbatim>\<open>sys_pwd\<close>, \<^verbatim>\<open>sys_create\<close>, \<^verbatim>\<open>sys_delete\<close>, \<^verbatim>\<open>sys_link\<close> and \<^verbatim>\<open>sys_harden\<close>. The part of
  \<^verbatim>\<open>sys_create\<close> and \<^verbatim>\<open>sys_link\<close> that fills a new inode and enters it in its directory is
  \<open>init_inode\<close> followed by \<open>add_entry\<close>; the two nested loops of \<^verbatim>\<open>sys_delete\<close> are \<open>delete_entries\<close>
  and \<open>shift_entries\<close>.
\<close>

abbreviation SYS_CREATE_FILE :: u32 where "SYS_CREATE_FILE \<equiv> 0"
abbreviation SYS_CREATE_DIR :: u32 where "SYS_CREATE_DIR \<equiv> 1"
abbreviation DIR_MAX_ENTRIES :: u32 where "DIR_MAX_ENTRIES \<equiv> 21"

section \<open>The working directory\<close>

definition sys_cd :: "syscall_registers \<Rightarrow> kernel \<Rightarrow> sysres" where
  "sys_cd s k =
     (if \<not> is_valid_user_addr (ebx s) then ret FAIL s k
      else
        kbind (lookup_user_path (ebx s) k) (\<lambda>new_cwd.
          case new_cwd of None \<Rightarrow> ret FAIL s k
          | Some i \<Rightarrow> kbind (upd_cur (\<lambda>p. p\<lparr>cwd := Some i\<rparr>) k) (ret 0 s)))"

definition sys_pwd :: "syscall_registers \<Rightarrow> kernel \<Rightarrow> sysres" where
  "sys_pwd s k =
     (if \<not> is_valid_user_addr (ebx s) then ret FAIL s k
      else
        kbind (cur_proc k) (\<lambda>p.
        kbind (kderef (cwd p)) (\<lambda>i.
        kbind (path_helper (kfs k) i (ebx s) (ecx s) (cur_mem k)) (\<lambda>(r, m).
          ret r s (set_cur_mem m k)))))"

section \<open>New entries\<close>

text \<open>The fields that a new inode gets; its reference count and its blocks stay as they were.\<close>

definition init_inode :: "u8 list \<Rightarrow> nat \<Rightarrow> filetype \<Rightarrow> u32 \<Rightarrow> inode \<Rightarrow> inode" where
  "init_inode name parent t d x =
     x\<lparr>iname := name, iparent := get_index_from_inode parent, ivalid := 1, itype := t, idata := d\<rparr>"

definition add_entry :: "nat \<Rightarrow> nat \<Rightarrow> fsys \<Rightarrow> fsys kres" where
  "add_entry dir new fs =
     kbind (kget (inodes fs) dir) (\<lambda>d.
     kbind (kset (iblocks d) (unat (idata d)) (get_index_from_inode new)) (\<lambda>bs.
       upd_inode dir (\<lambda>d. d\<lparr>iblocks := bs, idata := idata d + 1\<rparr>) fs))"

definition sys_create :: "syscall_registers \<Rightarrow> kernel \<Rightarrow> sysres" where
  "sys_create s k =
     (if \<not> is_valid_user_addr (ebx s) \<or> \<not> is_valid_user_addr (ecx s) then ret FAIL s k
      else if edx s \<noteq> SYS_CREATE_FILE \<and> edx s \<noteq> SYS_CREATE_DIR then ret FAIL s k
      else
        kbind (lookup_user_path (ebx s) k) (\<lambda>parent.
          case parent of None \<Rightarrow> ret FAIL s k
          | Some par \<Rightarrow>
              kbind (get_inode par k) (\<lambda>x.
                if itype x \<noteq> FT_DIRECTORY then ret FAIL s k
                else if idata x \<ge> DIR_MAX_ENTRIES then ret FAIL s k
                else
                  kbind (user_str (ecx s) k) (\<lambda>new_path.
                    if length new_path > FILENAME_MAX_LEN - 1 then ret FAIL s k
                    else if SLASH \<in> set new_path then ret FAIL s k
                    else
                      kbind (get_inode_by_path (kfs k) (Some par) new_path) (\<lambda>existing.
                        if existing \<noteq> None then ret FAIL s k
                        else
                          case alloc_inode (kfs k) of None \<Rightarrow> ret FAIL s k
                          | Some new \<Rightarrow>
                              kbind (upd_inode new (init_inode new_path par
                                       (if edx s = SYS_CREATE_FILE then FT_FILE else FT_DIRECTORY) 0) (kfs k)) (\<lambda>fs.
                              kbind (add_entry par new fs) (\<lambda>fs. ret 0 s (k\<lparr>kfs := fs\<rparr>))))))))"

definition sys_link :: "syscall_registers \<Rightarrow> kernel \<Rightarrow> sysres" where
  "sys_link s k =
     (if \<not> is_valid_user_addr (ebx s) \<or> \<not> is_valid_user_addr (ecx s) \<or> \<not> is_valid_user_addr (edx s) then ret FAIL s k
      else
        kbind (lookup_user_path (ebx s) k) (\<lambda>target.
          case target of None \<Rightarrow> ret FAIL s k
          | Some tgt \<Rightarrow>
              kbind (lookup_user_path (ecx s) k) (\<lambda>link_dir.
                case link_dir of None \<Rightarrow> ret FAIL s k
                | Some dir \<Rightarrow>
                    kbind (get_inode dir k) (\<lambda>d.
                      if itype d \<noteq> FT_DIRECTORY then ret FAIL s k
                      else if idata d \<ge> DIR_MAX_ENTRIES then ret FAIL s k
                      else
                        kbind (user_str (edx s) k) (\<lambda>new_path.
                          if length new_path > FILENAME_MAX_LEN - 1 then ret FAIL s k
                          else if SLASH \<in> set new_path then ret FAIL s k
                          else
                            kbind (get_inode_by_path (kfs k) (Some dir) new_path) (\<lambda>existing.
                              case existing of
                                Some l \<Rightarrow>
                                  kbind (get_inode l k) (\<lambda>x.
                                    if itype x \<noteq> FT_SYMLINK then ret FAIL s k
                                    else
                                      kbind (upd_inode l (\<lambda>x. x\<lparr>idata := get_index_from_inode tgt\<rparr>) (kfs k)) (\<lambda>fs.
                                        ret 0 s (k\<lparr>kfs := fs\<rparr>)))
                              | None \<Rightarrow>
                                  (case alloc_inode (kfs k) of None \<Rightarrow> ret FAIL s k
                                   | Some l \<Rightarrow>
                                       kbind (upd_inode l (\<lambda>x. init_inode new_path dir FT_SYMLINK (idata x) x) (kfs k)) (\<lambda>fs.
                                       kbind (add_entry dir l fs) (\<lambda>fs.
                                       kbind (upd_inode l (\<lambda>x. x\<lparr>idata := get_index_from_inode tgt\<rparr>) fs) (\<lambda>fs.
                                         ret 0 s (k\<lparr>kfs := fs\<rparr>)))))))))))"

section \<open>Deletion\<close>

text \<open>The inner loop: entries \<open>j + 1, \<dots>, n\<close> move down by one.\<close>

function shift_entries :: "u32 list \<Rightarrow> nat \<Rightarrow> nat \<Rightarrow> u32 list kres" where
  "shift_entries es j n =
     (if j < n then
        kbind (kget es (j + 1)) (\<lambda>e. kbind (kset es j e) (\<lambda>es. shift_entries es (j + 1) n))
      else Inr es)"
  by pat_completeness auto
termination
  by (relation "measure (\<lambda>(es, j, n). n - j)") auto

declare shift_entries.simps [simp del]

text \<open>
  The outer loop over the \<open>n\<close> entries of the directory. After a removal the index is decremented and
  incremented again, so the entry that moved to position \<open>i\<close> is looked at next.
\<close>

function delete_entries :: "u32 \<Rightarrow> u32 list \<Rightarrow> nat \<Rightarrow> nat \<Rightarrow> (u32 list \<times> nat) kres" where
  "delete_entries idx es n i =
     (if i < n then
        kbind (kget es i) (\<lambda>e.
          if e = idx then
            kbind (kset es i 0) (\<lambda>es. kbind (shift_entries es i (n - 1)) (\<lambda>es. delete_entries idx es (n - 1) i))
          else delete_entries idx es n (i + 1))
      else Inr (es, n))"
  by pat_completeness auto
termination
  by (relation "measure (\<lambda>(idx, es, n, i). n - i)") auto

declare delete_entries.simps [simp del]

definition sys_delete :: "syscall_registers \<Rightarrow> kernel \<Rightarrow> sysres" where
  "sys_delete s k =
     (if \<not> is_valid_user_addr (ebx s) then ret FAIL s k
      else
        kbind (lookup_user_path (ebx s) k) (\<lambda>target.
          case target of None \<Rightarrow> ret FAIL s k
          | Some i \<Rightarrow>
              kbind (get_inode i k) (\<lambda>x.
                if itype x = FT_DIRECTORY \<and> idata x \<noteq> 0 then ret FAIL s k
                else
                  let par = get_inode_at_idx (iparent x)
                  in kbind (get_inode par k) (\<lambda>d.
                     kbind (delete_entries (get_index_from_inode i) (iblocks d) (unat (idata d)) 0) (\<lambda>(es, n).
                     kbind (upd_inode par (\<lambda>d. d\<lparr>iblocks := es, idata := of_nat n\<rparr>) (kfs k)) (\<lambda>fs.
                     kbind (if irefs x = 0 then free_inode i fs else upd_inode i (\<lambda>x. x\<lparr>ivalid := 0\<rparr>) fs) (\<lambda>fs.
                       ret 0 s (k\<lparr>kfs := fs\<rparr>))))))))"

section \<open>Hardening a link\<close>

text \<open>The link takes over all fields of its target but the name; the target becomes a link to it.\<close>

definition sys_harden :: "syscall_registers \<Rightarrow> kernel \<Rightarrow> sysres" where
  "sys_harden s k =
     (if \<not> is_valid_user_addr (ebx s) then ret FAIL s k
      else
        kbind (lookup_user_path (ebx s) k) (\<lambda>symlink.
          case symlink of None \<Rightarrow> ret FAIL s k
          | Some l \<Rightarrow>
              kbind (get_inode l k) (\<lambda>x.
                if itype x \<noteq> FT_SYMLINK then ret FAIL s k
                else
                  let t = get_inode_at_idx (idata x)
                  in kbind (get_inode t k) (\<lambda>y.
                       if itype y \<noteq> FT_FILE \<and> itype y \<noteq> FT_DIRECTORY then ret FAIL s k
                       else
                         kbind (upd_inode l (\<lambda>_. y\<lparr>iname := iname x\<rparr>) (kfs k)) (\<lambda>fs.
                         kbind (upd_inode t (\<lambda>y. y\<lparr>itype := FT_SYMLINK, idata := get_index_from_inode l\<rparr>) fs) (\<lambda>fs.
                           ret 0 s (k\<lparr>kfs := fs\<rparr>)))))))"

end
