(* ===== verification/TreeOps.thy ===== *)
theory TreeOps
  imports SysFs
begin

text \<open>
  What the calls of \<open>SysFs\<close> do to the file tree: the double loop of \<^verbatim>\<open>sys_delete\<close> is a filter, a created name can
  be looked up, a deleted inode cannot be reached from its parent any more, and hardening a link exchanges it with
  its target. The last section has a small concrete system for the witnesses.
\<close>

section \<open>Removing entries\<close>

lemma shift_entries_spec:
  assumes "j \<le> n" "n < length es"
  shows "shift_entries es j n = Inr (take j es @ take (n - j) (drop (Suc j) es) @ drop n es)"
  using assms
proof (induction es j n rule: shift_entries.induct)
  case (1 es j n)
  show ?case
  proof (cases "j < n")
    case True
    let ?es = "es[j := es ! Suc j]"
    have "shift_entries es j n = shift_entries ?es (Suc j) n"
      using True 1(3) by (subst shift_entries.simps) simp
    also have "\<dots> = Inr (take (Suc j) ?es @ take (n - Suc j) (drop (Suc (Suc j)) ?es) @ drop n ?es)"
      using 1(1) True 1(3) by simp
    also have "take (Suc j) ?es = take j es @ [es ! Suc j]"
      using True 1(3) by (simp add: take_Suc_conv_app_nth take_update_cancel)
    also have "take (n - Suc j) (drop (Suc (Suc j)) ?es) = take (n - Suc j) (drop (Suc (Suc j)) es)" by simp
    also have "drop n ?es = drop n es" using True by simp
    also have "(take j es @ [es ! Suc j]) @ take (n - Suc j) (drop (Suc (Suc j)) es) @ drop n es =
      take j es @ take (n - j) (drop (Suc j) es) @ drop n es"
    proof -
      have "drop (Suc j) es = es ! Suc j # drop (Suc (Suc j)) es" using True 1(3) by (intro Cons_nth_drop_Suc [symmetric]) simp
      moreover have "n - j = Suc (n - Suc j)" using True by simp
      ultimately show ?thesis by simp
    qed
    finally show ?thesis .
  next
    case False
    then show ?thesis using 1(2,3) by (subst shift_entries.simps) simp
  qed
qed

lemma cut_parts:
  assumes "length A = i" "length B = n - 1 - i" "i < n"
  shows "take i (A @ B @ C) = A" "drop i (take (n - 1) (A @ B @ C)) = B"
  using assms by simp_all

text \<open>The double loop from position \<open>i\<close> on filters the remaining entries.\<close>

lemma delete_entries_from:
  assumes "i \<le> n" "n \<le> length es"
  shows "\<exists>es'. delete_entries idx es n i = Inr (es', i + length (filter (\<lambda>e. e \<noteq> idx) (drop i (take n es)))) \<and>
    length es' = length es \<and>
    take (i + length (filter (\<lambda>e. e \<noteq> idx) (drop i (take n es)))) es' = take i es @ filter (\<lambda>e. e \<noteq> idx) (drop i (take n es))"
  using assms
proof (induction idx es n i rule: delete_entries.induct)
  case (1 idx es n i)
  show ?case
  proof (cases "i < n")
    case False
    then show ?thesis using 1(3) by (subst delete_entries.simps) simp
  next
    case True
    then have i: "i < length es" and nth: "drop i (take n es) = es ! i # drop (Suc i) (take n es)"
      using 1(4) Cons_nth_drop_Suc [of i "take n es"] by simp_all
    show ?thesis
    proof (cases "es ! i = idx")
      case False
      then have "delete_entries idx es n i = delete_entries idx es n (i + 1)" using True i by (subst delete_entries.simps) simp
      moreover have "take (Suc i) es = take i es @ [es ! i]" using i by (rule take_Suc_conv_app_nth)
      ultimately show ?thesis using 1(2) [OF True _ False] True i 1(4) nth False by simp
    next
      case eq: True
      define A where "A = take i es"
      define B where "B = take (n - 1 - i) (drop (Suc i) es)"
      define C where "C = drop (n - 1) (es[i := 0])"
      have l: "length A = i" "length B = n - 1 - i" "length C = length es - (n - 1)"
        using True 1(4) by (simp_all add: A_def B_def C_def)
      have B: "B = drop (Suc i) (take n es)" by (simp add: B_def drop_take)
      have s: "shift_entries (es[i := 0]) i (n - 1) = Inr (A @ B @ C)"
        using shift_entries_spec [of i "n - 1" "es[i := 0]"] True 1(4) by (simp add: A_def B_def C_def)
      note tk = cut_parts [OF l(1,2) True, of C]
      have "delete_entries idx es n i = delete_entries idx (A @ B @ C) (n - 1) i"
        using True i eq s by (subst delete_entries.simps) simp
      moreover have "i \<le> n - 1" "n - 1 \<le> length (A @ B @ C)" "length (A @ B @ C) = length es" using True 1(4) l by auto
      ultimately show ?thesis
        using 1(1) [OF True, of "es ! i" "es[i := 0]" "A @ B @ C"] i eq s nth unfolding tk B [symmetric] A_def [symmetric]
        by (simp only: kget_in kset_in filter.simps if_False not_True_eq_False simp_thms)
    qed
  qed
qed

section \<open>Searching a changed directory\<close>

lemma dir_search_result: "dir_search fs name n es = Inr (Some i) \<Longrightarrow> \<exists>e \<in> set (take n es). i = get_inode_at_idx e"
  by (induction fs name n es rule: dir_search.induct) (auto simp: kres_simps split: if_splits)

lemma dir_search_append:
  assumes "dir_search fs name n es = Inr None" "n < length es" "unat e = new" "new < length (inodes fs')"
    and "length (inodes fs') = length (inodes fs)" "iname (inodes fs' ! new) = name"
    and "\<And>i. i \<noteq> new \<Longrightarrow> iname (inodes fs' ! i) = iname (inodes fs ! i)"
  shows "dir_search fs' name (Suc n) (es[n := e]) = Inr (Some new)"
  using assms(1,2)
proof (induction n arbitrary: es)
  case 0
  then show ?case using assms(3,4,6) by (cases es) (simp_all add: get_inode_at_idx_def)
next
  case (Suc n)
  then obtain d ds where es: "es = d # ds" by (cases es) auto
  with Suc.prems have d: "unat d < length (inodes fs)" "iname (inodes fs ! unat d) \<noteq> name" "dir_search fs name n ds = Inr None"
    by (auto simp: get_inode_at_idx_def kres_simps split: if_splits)
  then show ?case
    using es Suc.IH [of ds] Suc.prems(2) assms(4-7) by (cases "unat d = new") (simp_all add: get_inode_at_idx_def)
qed

text \<open>A name looked up in a directory itself.\<close>

lemma lookup_in_dir:
  assumes "d < length (inodes fs)" "itype (inodes fs ! d) = FT_DIRECTORY" "name \<noteq> []" "SLASH \<notin> set name"
    "length name < FILENAME_MAX_LEN"
  shows "get_inode_by_path fs (Some d) name = path_step fs d (inodes fs ! d) name True"
proof -
  have "follow_symlink fs d = Inr (Some d)" using assms(1,2) by (simp add: follow_symlink_def follow_symlink_loop.simps)
  moreover have "lookup fs r [] False = Inr r" for r by (cases r) simp_all
  ultimately show ?thesis
    using assms by (simp add: get_inode_by_path_def helper_lookup path_components_name lookup_step_def)
      (cases "path_step fs d (inodes fs ! d) name True"; simp)
qed

section \<open>Creation\<close>

definition only_changed :: "nat set \<Rightarrow> kernel \<Rightarrow> kernel \<Rightarrow> bool" where
  "only_changed I k k' \<longleftrightarrow> k' = k\<lparr>kfs := kfs k'\<rparr> \<and> fsbytes (kfs k') = fsbytes (kfs k) \<and>
     length (inodes (kfs k')) = length (inodes (kfs k)) \<and> (\<forall>i. i \<notin> I \<longrightarrow> inodes (kfs k') ! i = inodes (kfs k) ! i)"

lemma alloc_inodeD:
  "alloc_inode fs = Some i \<Longrightarrow> i < length (inodes fs) \<and> itype (inodes fs ! i) = FT_UNALLOCATED"
  by (auto simp: alloc_inode_def find_Some_iff)

text \<open>
  C6: creation of a file or directory. When the parent path resolves to a directory with room, the
  name is legal and not taken, and an inode is free, \<^verbatim>\<open>sys_create\<close> returns 0; looking the name up in the
  directory then gives the new inode, which is empty, has the requested type and the directory as its
  parent, and no inode but the directory and the new one has changed.
\<close>

theorem create_then_lookup:
  assumes "is_valid_user_addr (ebx s)" "is_valid_user_addr (ecx s)" "edx s = SYS_CREATE_FILE \<or> edx s = SYS_CREATE_DIR"
    and par: "lookup_user_path (ebx s) k = Inr (Some d)" "d < length (inodes (kfs k))" "itype (inodes (kfs k) ! d) = FT_DIRECTORY"
      "idata (inodes (kfs k) ! d) < DIR_MAX_ENTRIES" "length (iblocks (inodes (kfs k) ! d)) = NDIRECT"
    and name: "user_str (ecx s) k = Inr name" "length name < FILENAME_MAX_LEN" "SLASH \<notin> set name"
      "get_inode_by_path (kfs k) (Some d) name = Inr None"
    and new: "alloc_inode (kfs k) = Some new" "length (inodes (kfs k)) \<le> NUM_INODES"
  shows "\<exists>k'. sys_create s k = Inr (False, s\<lparr>eax := 0\<rparr>, k') \<and> get_inode_by_path (kfs k') (Some d) name = Inr (Some new) \<and>
    itype (inodes (kfs k') ! new) = (if edx s = SYS_CREATE_FILE then FT_FILE else FT_DIRECTORY) \<and>
    idata (inodes (kfs k') ! new) = 0 \<and> get_inode_at_idx (iparent (inodes (kfs k') ! new)) = d \<and> only_changed {d, new} k k'"
proof -
  let ?fs = "kfs k" and ?x = "inodes (kfs k) ! d"
  let ?t = "if edx s = SYS_CREATE_FILE then FT_FILE else FT_DIRECTORY"
  let ?y = "init_inode name d ?t 0 (inodes ?fs ! new)"
  let ?z = "?x\<lparr>iblocks := (iblocks ?x)[unat (idata ?x) := of_nat new], idata := idata ?x + 1\<rparr>"
  let ?fs' = "?fs\<lparr>inodes := (inodes ?fs)[new := ?y, d := ?z]\<rparr>"
  note n = alloc_inodeD [OF new(1)]
  have ne: "new \<noteq> d" using n par(3) by auto
  have u: "unat (idata ?x) < NDIRECT" "unat (idata ?x + 1) = Suc (unat (idata ?x))"
    using par(4) by (simp_all add: word_less_nat_alt unat_word_ariths)
  have idx: "unat (of_nat new :: u32) = new" "unat (of_nat d :: u32) = d" using n new(2) par(2) by simp_all
  have name': "name \<noteq> []"
    using name(4) by (auto simp: get_inode_by_path_def get_inode_by_path_helper.simps)
  have step: "path_step ?fs d ?x name True = Inr None"
    using name(4) lookup_in_dir [OF par(2,3) name' name(3,2)] by simp
  then have proper: "name \<noteq> bytes_of ''.''" "name \<noteq> bytes_of ''..''" "name \<noteq> FS_ROOT_PATH"
    and none: "dir_search ?fs name (unat (idata ?x)) (iblocks ?x) = Inr None"
    by (auto simp: path_step_def split: if_splits)
  have "sys_create s k = Inr (False, s\<lparr>eax := 0\<rparr>, k\<lparr>kfs := ?fs'\<rparr>)"
    using assms ne n u(1) by (auto simp: sys_create_def ret_def get_inode_def upd_inode_def add_entry_def get_index_from_inode_def)
  moreover have "dir_search ?fs' name (unat (idata ?x + 1)) ((iblocks ?x)[unat (idata ?x) := of_nat new]) = Inr (Some new)"
    unfolding u(2) using none n ne u(1) idx par(2,5)
    by (intro dir_search_append [OF none]) (auto simp: nth_list_update init_inode_def)
  then have "path_step ?fs' d ?z name True = Inr (Some new)" using proper by (simp add: path_step_def)
  then have "get_inode_by_path ?fs' (Some d) name = Inr (Some new)"
    using lookup_in_dir [of d ?fs' name] name' name(2,3) par(2,3) by simp
  ultimately show ?thesis
    using n ne par(2) idx by (intro exI [of _ "k\<lparr>kfs := ?fs'\<rparr>"])
      (auto simp: only_changed_def init_inode_def nth_list_update get_index_from_inode_def get_inode_at_idx_def)
qed

section \<open>Deletion\<close>

lemma and_not_disjoint: "w AND b = 0 \<Longrightarrow> w AND NOT b = (w :: 'a :: len word)"
  by (metis bit.conj_cancel_right bit.conj_disj_distrib bit.disj_cancel_right bit.conj_one_right or.comm_neutral or_eq_0_iff
      bit.compl_zero bit.double_compl word_bw_lcs(1) and.right_neutral or.left_neutral)

lemma kfold_idle: "(\<And>x t. x \<in> set xs \<Longrightarrow> f x t = Inr t) \<Longrightarrow> kfold f xs s = Inr s"
  by (induction xs arbitrary: s) simp_all

lemma free_block_same: "unat b < 32768 \<Longrightarrow> \<exists>r. free_block b fs = Inr (r, fs)"
proof -
  assume "unat b < 32768"
  then have "unat b div 8 < 4096" by (intro less_mult_imp_div_less) simp
  then have "fs_range (unat (b div 8)) 1" by (simp add: fs_range_def unat_div_distrib)
  then show ?thesis by (auto simp: free_block_def Let_def and_not_disjoint)
qed

definition blocks_ok :: "inode \<Rightarrow> bool" where
  "blocks_ok x \<longleftrightarrow> idata x \<le> FILE_MAX_SIZE \<and> length (iblocks x) = NDIRECT \<and> (\<forall>b \<in> set (iblocks x). unat b < 32768)"

lemma free_inode_spec:
  assumes "i < length (inodes fs)" "itype (inodes fs ! i) = FT_FILE \<longrightarrow> blocks_ok (inodes fs ! i)"
  shows "free_inode i fs = Inr (fs\<lparr>inodes := (inodes fs)[i := (inodes fs ! i)\<lparr>itype := FT_UNALLOCATED\<rparr>]\<rparr>)"
proof -
  let ?x = "inodes fs ! i"
  let ?n = "unat ((idata ?x + BLOCK_SIZE - 1) div BLOCK_SIZE)"
  have "kfold (\<lambda>k fs. kbind (kget (iblocks ?x) k) (\<lambda>b. kbind (free_block b fs) (\<lambda>(_, fs). Inr fs))) [0..<?n] fs = Inr fs"
    if "itype ?x = FT_FILE"
  proof -
    have ok: "blocks_ok ?x" using assms(2) that by blast
    have "unat (idata ?x) \<le> 86016" using ok by (simp add: blocks_ok_def word_le_nat_alt)
    then have "?n \<le> 21" by (simp add: unat_div_distrib unat_word_ariths unat_sub word_le_nat_alt)
    then have "kbind (kget (iblocks ?x) k) (\<lambda>b. kbind (free_block b t) (\<lambda>(_, fs). Inr fs)) = Inr t" if "k \<in> set [0..<?n]" for k t
      using ok that free_block_same [of "iblocks ?x ! k" t] by (auto simp: blocks_ok_def)
    then show ?thesis by (intro kfold_idle)
  qed
  then show ?thesis using assms(1) by (simp add: free_inode_def upd_inode_def)
qed

text \<open>
  C12: deletion. When the path resolves to a file, a link or an empty directory, \<^verbatim>\<open>sys_delete\<close> returns 0;
  the parent's entries are the old ones without the deleted inode, in the same order, so that no
  name in the parent leads to it any more; the inode is given back, or kept and marked invalid when it
  is still open; nothing else changes, the blocks of the file included, which stay marked as used.
\<close>

theorem delete_unlinks:
  fixes k s i
  defines "x \<equiv> inodes (kfs k) ! i"
  defines "d \<equiv> unat (iparent x)"
  assumes "is_valid_user_addr (ebx s)" "lookup_user_path (ebx s) k = Inr (Some i)" "i < length (inodes (kfs k))"
    and "\<not> (itype x = FT_DIRECTORY \<and> idata x \<noteq> 0)" "itype x = FT_FILE \<longrightarrow> blocks_ok x"
    and "d < length (inodes (kfs k))" "d \<noteq> i" "idata (inodes (kfs k) ! d) \<le> DIR_MAX_ENTRIES"
      "length (iblocks (inodes (kfs k) ! d)) = NDIRECT" "length (inodes (kfs k)) \<le> NUM_INODES"
  shows "\<exists>k' D. sys_delete s k = Inr (False, s\<lparr>eax := 0\<rparr>, k') \<and> only_changed {i, d} k k' \<and> D = inodes (kfs k') ! d \<and>
    take (unat (idata D)) (iblocks D) =
      filter (\<lambda>e. unat e \<noteq> i) (take (unat (idata (inodes (kfs k) ! d))) (iblocks (inodes (kfs k) ! d))) \<and>
    (\<forall>name. dir_search (kfs k') name (unat (idata D)) (iblocks D) \<noteq> Inr (Some i)) \<and>
    inodes (kfs k') ! i = (if irefs x = 0 then x\<lparr>itype := FT_UNALLOCATED\<rparr> else x\<lparr>ivalid := 0\<rparr>)"
proof -
  let ?fs = "kfs k" and ?D = "inodes (kfs k) ! d"
  let ?n = "unat (idata ?D)" and ?f = "filter (\<lambda>e. e \<noteq> of_nat i) (take (unat (idata ?D)) (iblocks ?D))"
  have n: "?n \<le> NDIRECT" using assms(10) by (simp add: word_le_nat_alt)
  obtain es where es: "delete_entries (of_nat i) (iblocks ?D) ?n 0 = Inr (es, length ?f)" "length es = NDIRECT" "take (length ?f) es = ?f"
    using delete_entries_from [of 0 ?n "iblocks ?D" "of_nat i"] n assms(11) by auto
  have "length ?f \<le> NDIRECT" using n assms(11) by (metis es(2,3) length_take min.cobounded1)
  then have u: "unat (of_nat (length ?f) :: u32) = length ?f" by (intro unat_of_nat32) simp
  have idx: "e = of_nat i \<longleftrightarrow> unat e = i" for e :: u32 using assms(5,12) by (auto simp: word_unat_eq_iff)
  define D' where "D' = ?D\<lparr>iblocks := es, idata := of_nat (length ?f)\<rparr>"
  define y where "y = (if irefs x = 0 then x\<lparr>itype := FT_UNALLOCATED\<rparr> else x\<lparr>ivalid := 0\<rparr>)"
  let ?fs1 = "?fs\<lparr>inodes := (inodes ?fs)[d := D']\<rparr>" and ?fs2 = "?fs\<lparr>inodes := (inodes ?fs)[d := D', i := y]\<rparr>"
  have "(if irefs x = 0 then free_inode i ?fs1 else upd_inode i (\<lambda>x. x\<lparr>ivalid := 0\<rparr>) ?fs1) = Inr ?fs2"
    using free_inode_spec [of i ?fs1] assms(5,7,9) by (simp add: upd_inode_def y_def x_def)
  then have "sys_delete s k = Inr (False, s\<lparr>eax := 0\<rparr>, k\<lparr>kfs := ?fs2\<rparr>)"
    using assms(3-6,8) es(1)
    by (auto simp: sys_delete_def ret_def get_inode_def upd_inode_def get_index_from_inode_def get_inode_at_idx_def
        Let_def x_def [symmetric] d_def [symmetric] D'_def)
  moreover have tk: "take (unat (idata D')) (iblocks D') = filter (\<lambda>e. unat e \<noteq> i) (take ?n (iblocks ?D))"
    using es(3) u by (simp add: D'_def idx)
  moreover have "dir_search fs name (unat (idata D')) (iblocks D') \<noteq> Inr (Some i)" for fs name
    using dir_search_result [of fs name "unat (idata D')" "iblocks D'" i] unfolding tk by (auto simp: get_inode_at_idx_def)
  ultimately show ?thesis
    using assms(5,8,9) by (intro exI [of _ "k\<lparr>kfs := ?fs2\<rparr>"] exI [of _ D']) (auto simp: only_changed_def nth_list_update y_def)
qed

section \<open>Hardening\<close>

text \<open>
  C19: hardening. For a link whose target is a file or directory \<^verbatim>\<open>sys_harden\<close> returns 0 and exchanges the two: the
  link's inode takes over the target's type, data and blocks under its own name, and the target
  becomes a link to it, so both names lead to the same data as before, now through the former link. Everything but the name
  is copied, the parent index included: the hardened inode's parent is then the target's directory.
\<close>

theorem harden_swaps:
  fixes k s l
  defines "x \<equiv> inodes (kfs k) ! l"
  defines "t \<equiv> unat (idata x)"
  defines "y \<equiv> inodes (kfs k) ! t"
  assumes "is_valid_user_addr (ebx s)" "lookup_user_path (ebx s) k = Inr (Some l)" "l < length (inodes (kfs k))"
    "itype x = FT_SYMLINK" "t < length (inodes (kfs k))" "itype y = FT_FILE \<or> itype y = FT_DIRECTORY"
    "length (inodes (kfs k)) \<le> NUM_INODES"
  shows "\<exists>k'. sys_harden s k = Inr (False, s\<lparr>eax := 0\<rparr>, k') \<and> only_changed {l, t} k k' \<and>
    inodes (kfs k') ! l = y\<lparr>iname := iname x\<rparr> \<and>
    inodes (kfs k') ! t = y\<lparr>itype := FT_SYMLINK, idata := of_nat l\<rparr> \<and>
    follow_symlink (kfs k) l = Inr (Some t) \<and> follow_symlink (kfs k') t = Inr (Some l) \<and> follow_symlink (kfs k') l = Inr (Some l) \<and>
    iparent (inodes (kfs k') ! l) = iparent y"
proof -
  let ?fs = "(kfs k)\<lparr>inodes := (inodes (kfs k))[l := y\<lparr>iname := iname x\<rparr>, t := y\<lparr>itype := FT_SYMLINK, idata := of_nat l\<rparr>]\<rparr>"
  have ne: "t \<noteq> l" using assms(7,9) by (auto simp: x_def y_def)
  have idx: "unat (of_nat l :: u32) = l" using assms(6,10) by simp
  have "sys_harden s k = Inr (False, s\<lparr>eax := 0\<rparr>, k\<lparr>kfs := ?fs\<rparr>)"
    using assms(4-9) ne by (auto simp: sys_harden_def ret_def get_inode_def upd_inode_def get_inode_at_idx_def
        get_index_from_inode_def Let_def x_def [symmetric] t_def [symmetric] y_def [symmetric])
  moreover have "follow_symlink (kfs k) l = Inr (Some t)" "follow_symlink ?fs t = Inr (Some l)" "follow_symlink ?fs l = Inr (Some l)"
    using assms(6-9) ne idx
    by (auto simp: follow_symlink_def follow_symlink_loop.simps [of _ _ 0] follow_symlink_loop.simps [of _ _ "Suc 0"]
        get_inode_at_idx_def x_def [symmetric] t_def [symmetric] y_def [symmetric])
  ultimately show ?thesis
    using assms(6,8) ne by (intro exI [of _ "k\<lparr>kfs := ?fs\<rparr>"]) (simp add: only_changed_def)
qed

section \<open>A small system\<close>

text \<open>
  The root with file \<open>f\<close>, link \<open>l\<close> to it and a free inode; the current process is in the root, its memory holds the
  strings \<open>~\<close> at 1000, \<open>f\<close> at 2000, \<open>l\<close> at 3000 and \<open>g\<close> at 4000. For the witnesses.
\<close>

definition blank_inode :: inode where
  "blank_inode = \<lparr>iname = [], itype = FT_UNALLOCATED, iparent = 0, idata = 0, iblocks = replicate 21 0, ivalid = 0, irefs = 0\<rparr>"

definition work_tree :: fsys where
  "work_tree = \<lparr>inodes =
     [blank_inode\<lparr>iname := FS_ROOT_PATH, itype := FT_DIRECTORY, idata := 2, iblocks := [1, 2] @ replicate 19 0, ivalid := 1\<rparr>,
      blank_inode\<lparr>iname := [102], itype := FT_FILE, ivalid := 1\<rparr>,
      blank_inode\<lparr>iname := [108], itype := FT_SYMLINK, idata := 1, ivalid := 1\<rparr>,
      blank_inode], fsbytes = (\<lambda>_. 0)\<rparr>"

definition work_kernel :: kernel where
  "work_kernel = sample_kernel\<lparr>kfs := work_tree, kumem := (\<lambda>_. (\<lambda>_. 0)(1000 := 126, 2000 := 102, 3000 := 108, 4000 := 103)),
     kpt := (kpt sample_kernel)\<lparr>ptable := zero_table[0 := zero_proc\<lparr>status := RUNNABLE, cwd := Some 0\<rparr>]\<rparr>\<rparr>"

definition regs :: "u32 \<Rightarrow> u32 \<Rightarrow> u32 \<Rightarrow> syscall_registers" where
  "regs b c d = \<lparr>edi = 0, esi = 0, ebp = 0, esp = 0, ebx = b, edx = d, ecx = c, eax = 0\<rparr>"

lemma work_proc: "cur_proc work_kernel = Inr (zero_proc\<lparr>status := RUNNABLE, cwd := Some 0\<rparr>)"
  by (simp add: cur_proc_def get_proc_def work_kernel_def sample_kernel_def power_on_def get_current_proc_def)

lemma work_fs [simp]: "kfs work_kernel = work_tree"
  by (simp add: work_kernel_def)

lemma work_str:
  "user_str 1000 work_kernel = Inr [126]" "user_str 2000 work_kernel = Inr [102]"
  "user_str 3000 work_kernel = Inr [108]" "user_str 4000 work_kernel = Inr [103]"
  by (simp_all add: user_str_def cur_mem_def work_kernel_def cstr.simps user_range_def)

lemma work_inodes [simp]:
  "length (inodes work_tree) = 4"
  "inodes work_tree ! 0 = blank_inode\<lparr>iname := FS_ROOT_PATH, itype := FT_DIRECTORY, idata := 2, iblocks := [1, 2] @ replicate 19 0, ivalid := 1\<rparr>"
  "inodes work_tree ! Suc 0 = blank_inode\<lparr>iname := [102], itype := FT_FILE, ivalid := 1\<rparr>"
  "inodes work_tree ! 2 = blank_inode\<lparr>iname := [108], itype := FT_SYMLINK, idata := 1, ivalid := 1\<rparr>"
  "inodes work_tree ! 3 = blank_inode"
  by (simp_all add: work_tree_def numeral_2_eq_2 numeral_3_eq_3)

lemma dir_search_2: "dir_search fs name 2 es = dir_search fs name (Suc (Suc 0)) es"
  by (simp only: numeral_2_eq_2)

lemma work_lookup:
  "get_inode_by_path work_tree (Some 0) [126] = Inr (Some 0)" "get_inode_by_path work_tree (Some 0) [102] = Inr (Some 1)"
  "get_inode_by_path work_tree (Some 0) [108] = Inr (Some 2)" "get_inode_by_path work_tree (Some 0) [103] = Inr None"
  by (subst lookup_in_dir; simp add: path_step_def FS_ROOT_PATH_def bytes_of_def get_root_inode_def get_inode_at_idx_def dir_search_2)+

lemma work_path:
  "lookup_user_path 1000 work_kernel = Inr (Some 0)" "lookup_user_path 2000 work_kernel = Inr (Some 1)"
  "lookup_user_path 3000 work_kernel = Inr (Some 2)"
  by (simp_all add: lookup_user_path_def work_proc work_str work_lookup)

theorem create_then_lookup_witness:
  "\<exists>k'. sys_create (regs 1000 4000 0) work_kernel = Inr (False, (regs 1000 4000 0)\<lparr>eax := 0\<rparr>, k') \<and>
    get_inode_by_path (kfs k') (Some 0) [103] = Inr (Some 3)"
proof -
  have "alloc_inode work_tree = Some 3"
    by (simp add: alloc_inode_def work_tree_def blank_inode_def upt_rec)
  then show ?thesis
    using create_then_lookup [of "regs 1000 4000 0" work_kernel 0 "[103]" 3]
    by (simp add: regs_def is_valid_user_addr_def work_path work_str work_lookup) blast
qed

theorem delete_unlinks_witness:
  "\<exists>k'. sys_delete (regs 2000 0 0) work_kernel = Inr (False, (regs 2000 0 0)\<lparr>eax := 0\<rparr>, k') \<and>
    dir_search (kfs k') [102] (unat (idata (inodes (kfs k') ! 0))) (iblocks (inodes (kfs k') ! 0)) \<noteq> Inr (Some 1)"
  using delete_unlinks [of "regs 2000 0 0" work_kernel 1]
  by (simp add: regs_def is_valid_user_addr_def work_path blocks_ok_def blank_inode_def) blast

theorem harden_swaps_witness:
  "\<exists>k'. sys_harden (regs 3000 0 0) work_kernel = Inr (False, (regs 3000 0 0)\<lparr>eax := 0\<rparr>, k') \<and>
    itype (inodes (kfs k') ! 2) = FT_FILE \<and> follow_symlink (kfs k') 1 = Inr (Some 2)"
  using harden_swaps [of "regs 3000 0 0" work_kernel 2]
  by (simp add: regs_def is_valid_user_addr_def work_path blank_inode_def) auto

end
