(* ===== verification/SysProc.thy ===== *)
theory SysProc
  imports SysFs
begin

text \<open>
  The system calls on processes, pipes and the terminal, and the dispatcher
  \<^verbatim>\<open>syscall_interrupt_handler_inner\<close> (\<^verbatim>\<open>kernel/src/syscall.c\<close>). What \<^verbatim>\<open>sys_wait\<close> does when the
  waiting process runs again is \<open>sys_wait_resume\<close>; \<^verbatim>\<open>sys_exit\<close> never runs again.
\<close>

section \<open>Processes\<close>

definition sys_spawn_proc :: "syscall_registers \<Rightarrow> kernel \<Rightarrow> sysres" where
  "sys_spawn_proc s k =
     (if \<not> is_valid_user_addr (ebx s) \<or> \<not> is_valid_user_addr (edx s) then ret FAIL s k
      else
        kbind (lookup_user_path (ebx s) k) (\<lambda>prog.
          case prog of None \<Rightarrow> ret FAIL s k
          | Some prog \<Rightarrow>
              kbind (follow_symlink (kfs k) prog) (\<lambda>prog.
              kbind (kderef prog) (\<lambda>prog.
              kbind (get_inode prog k) (\<lambda>x.
                if itype x \<noteq> FT_FILE then ret FAIL s k
                else
                  kbind (exec_helper prog (ecx s) (edx s) (esi s) (edi s) k) (\<lambda>(new_proc, k).
                    case new_proc of None \<Rightarrow> ret FAIL s k
                    | Some new \<Rightarrow>
                        kbind (cur_proc k) (\<lambda>c.
                        kbind (upd_proc new (\<lambda>p. p\<lparr>parent_pid := pid c,
                                  parent_idx := get_proc_idx (get_current_proc (kpt k)), cwd := cwd c\<rparr>) k) (\<lambda>k.
                        kbind (get_proc new k) (\<lambda>p. ret (pid p) s k)))))))))"

definition sys_getpid :: "syscall_registers \<Rightarrow> kernel \<Rightarrow> sysres" where
  "sys_getpid s k = kbind (cur_proc k) (\<lambda>p. ret (pid p) s k)"

definition sys_exit :: "syscall_registers \<Rightarrow> kernel \<Rightarrow> sysres" where
  "sys_exit s k =
     kbind (cleanup_proc (get_current_proc (kpt k)) k) (\<lambda>k.
     kbind (upd_cur (\<lambda>p. p\<lparr>exit_code := ebx s\<rparr>) k) (\<lambda>k. Inr (True, s, k)))"

definition sys_wait :: "syscall_registers \<Rightarrow> kernel \<Rightarrow> sysres" where
  "sys_wait s k =
     kbind (cur_proc k) (\<lambda>c.
       case find (\<lambda>i. pid (ptable (kpt k) ! i) = ebx s) [0..<length (ptable (kpt k))] of
         None \<Rightarrow> ret FAIL s k
       | Some i \<Rightarrow>
           if parent_pid (ptable (kpt k) ! i) = pid c then
             kbind (upd_cur (\<lambda>p. p\<lparr>status := WAITING_ON_PID, waiting_on := of_nat i\<rparr>) k) (\<lambda>k. Inr (True, s, k))
           else ret FAIL s k)"

definition sys_wait_resume :: "syscall_registers \<Rightarrow> kernel \<Rightarrow> sysres" where
  "sys_wait_resume s k = kbind (cur_proc k) (\<lambda>p. ret (exit_code p) s k)"

definition sys_sbrk :: "syscall_registers \<Rightarrow> kernel \<Rightarrow> sysres" where
  "sys_sbrk s k =
     kbind (cur_proc k) (\<lambda>p.
     kbind (sbrk_helper (cr3 p) (brk p) (ebx s) (kvm k)) (\<lambda>(b, v).
     kbind (upd_cur (\<lambda>p. p\<lparr>brk := b\<rparr>) (k\<lparr>kvm := v\<rparr>))
       (ret (brk p) s)))"

section \<open>Pipes and the terminal\<close>

definition pipe_fd :: "u32 \<Rightarrow> u32 \<Rightarrow> fd" where
  "pipe_fd md i = \<lparr>fstatus = FD_PIPE, fmode = md, fdata = DPipe i, fptr = 0\<rparr>"

definition sys_pipe :: "syscall_registers \<Rightarrow> kernel \<Rightarrow> sysres" where
  "sys_pipe s k =
     (if \<not> is_valid_user_addr (ebx s) then ret FAIL s k
      else
        kbind (cur_proc k) (\<lambda>p.
          case filter (\<lambda>i. fstatus (fds p ! i) = FD_UNMAPPED) [0..<length (fds p)] of
            r # w # _ \<Rightarrow>
              (case find (\<lambda>i. pnum_refs (kpipes k ! i) = 0) [0..<length (kpipes k)] of
                 None \<Rightarrow> ret FAIL s k
               | Some i \<Rightarrow>
                   kbind (upd_cur (\<lambda>p. upd_fd w (\<lambda>_. pipe_fd SYS_OPEN_FILE_MODE_WRITE (of_nat i))
                                          (upd_fd r (\<lambda>_. pipe_fd SYS_OPEN_FILE_MODE_READ (of_nat i)) p))
                            (k\<lparr>kpipes := (kpipes k)[i := pipe_reset]\<rparr>)) (\<lambda>k.
                   kbind (user_put32 (ebx s) (of_nat r) k) (\<lambda>k.
                   kbind (user_put32 (ebx s + 4) (of_nat w) k)
                     (ret 0 s))))
          | _ \<Rightarrow> ret FAIL s k))"

definition tty_mode_of :: "u32 \<Rightarrow> tty_mode" where
  "tty_mode_of n = (if n = 0 then TTY_MODE_SCANCODE else if n = 1 then TTY_MODE_RAW else TTY_MODE_COOKED)"

definition tty_mode_num :: "tty_mode \<Rightarrow> u32" where
  "tty_mode_num m = (case m of TTY_MODE_SCANCODE \<Rightarrow> 0 | TTY_MODE_RAW \<Rightarrow> 1 | TTY_MODE_COOKED \<Rightarrow> 2)"

definition sys_set_tty_mode :: "syscall_registers \<Rightarrow> kernel \<Rightarrow> sysres" where
  "sys_set_tty_mode s k =
     (if ebx s \<ge> 3 then ret FAIL s k
      else ret 0 s (k\<lparr>ktty := (ktty k)\<lparr>tmode := tty_mode_of (ebx s)\<rparr>\<rparr>))"

definition sys_get_tty_mode :: "syscall_registers \<Rightarrow> kernel \<Rightarrow> sysres" where
  "sys_get_tty_mode s k = ret (tty_mode_num (tmode (ktty k))) s k"

section \<open>The dispatcher\<close>

datatype syscall_code =
  SYS_WRITE | SYS_READ | SYS_SPAWN_PROC | SYS_GETPID | SYS_EXIT | SYS_WAIT | SYS_SBRK | SYS_CD | SYS_PWD
  | SYS_OPEN | SYS_REOPEN | SYS_CLOSE | SYS_SET_PTR | SYS_FTYPE | SYS_FILE_INFO | SYS_DIR_INFO | SYS_DIRENT_INFO
  | SYS_SYMLINK_INFO | SYS_CREATE | SYS_DELETE | SYS_LINK | SYS_HARDEN | SYS_PIPE | SYS_SET_TTY_MODE | SYS_GET_TTY_MODE

text \<open>The codes in the order of the enumeration: the number of a code is its position.\<close>

definition syscall_codes :: "syscall_code list" where
  "syscall_codes =
     [SYS_WRITE, SYS_READ, SYS_SPAWN_PROC, SYS_GETPID, SYS_EXIT, SYS_WAIT, SYS_SBRK, SYS_CD, SYS_PWD,
      SYS_OPEN, SYS_REOPEN, SYS_CLOSE, SYS_SET_PTR, SYS_FTYPE, SYS_FILE_INFO, SYS_DIR_INFO, SYS_DIRENT_INFO,
      SYS_SYMLINK_INFO, SYS_CREATE, SYS_DELETE, SYS_LINK, SYS_HARDEN, SYS_PIPE, SYS_SET_TTY_MODE, SYS_GET_TTY_MODE]"

definition syscall_code_of :: "u32 \<Rightarrow> syscall_code option" where
  "syscall_code_of n = (if unat n < length syscall_codes then Some (syscall_codes ! unat n) else None)"

fun syscall_handler :: "syscall_code \<Rightarrow> syscall_registers \<Rightarrow> kernel \<Rightarrow> sysres" where
  "syscall_handler SYS_WRITE = sys_write"
| "syscall_handler SYS_READ = sys_read"
| "syscall_handler SYS_SPAWN_PROC = sys_spawn_proc"
| "syscall_handler SYS_GETPID = sys_getpid"
| "syscall_handler SYS_EXIT = sys_exit"
| "syscall_handler SYS_WAIT = sys_wait"
| "syscall_handler SYS_SBRK = sys_sbrk"
| "syscall_handler SYS_CD = sys_cd"
| "syscall_handler SYS_PWD = sys_pwd"
| "syscall_handler SYS_OPEN = sys_open"
| "syscall_handler SYS_REOPEN = sys_reopen"
| "syscall_handler SYS_CLOSE = sys_close"
| "syscall_handler SYS_SET_PTR = sys_set_ptr"
| "syscall_handler SYS_FTYPE = sys_ftype"
| "syscall_handler SYS_FILE_INFO = sys_file_info"
| "syscall_handler SYS_DIR_INFO = sys_dir_info"
| "syscall_handler SYS_DIRENT_INFO = sys_dirent_info"
| "syscall_handler SYS_SYMLINK_INFO = sys_symlink_info"
| "syscall_handler SYS_CREATE = sys_create"
| "syscall_handler SYS_DELETE = sys_delete"
| "syscall_handler SYS_LINK = sys_link"
| "syscall_handler SYS_HARDEN = sys_harden"
| "syscall_handler SYS_PIPE = sys_pipe"
| "syscall_handler SYS_SET_TTY_MODE = sys_set_tty_mode"
| "syscall_handler SYS_GET_TTY_MODE = sys_set_tty_mode"

definition syscall_interrupt_handler_inner :: "syscall_registers \<Rightarrow> kernel \<Rightarrow> sysres" where
  "syscall_interrupt_handler_inner s k =
     (case syscall_code_of (eax s) of
        Some c \<Rightarrow> syscall_handler c s k
      | None \<Rightarrow>
          kbind (kprintf (bytes_of ''Invalid syscall code: %d'' @ [10]) [KNum (eax s)] (kcon k)) (\<lambda>con.
            Inr (False, s, k\<lparr>kcon := con\<rparr>)))"

end
