(* ===== verification/SchedSpec.thy ===== *)
theory SchedSpec
  imports Sched
begin

text \<open>
  What the scheduler of \<open>Sched\<close> chooses: the first ready slot in cyclic order, hence bounded waiting for
  every process that stays ready, and an endless search when no process is ready.
\<close>

section \<open>What the scheduler chooses\<close>

text \<open>A process that can run now: it has not started, was interrupted, or what it waits for has happened.\<close>

definition ready :: "kernel \<Rightarrow> nat \<Rightarrow> bool" where
  "ready k i \<longleftrightarrow>
     (let p = ptable (kpt k) ! i
      in case status p of
           EMBRYO \<Rightarrow> True
         | RUNNABLE \<Rightarrow> True
         | WAITING_ON_PID \<Rightarrow> status (ptable (kpt k) ! unat (waiting_on p)) = KILLED
         | WAITING_ON_STDIN \<Rightarrow> tread_ptr (ktty k) \<noteq> twrite_ptr (ktty k)
         | WAITING_ON_PIPE \<Rightarrow> pwrite_ptr (kpipes k ! unat (waiting_on p)) \<noteq> pread_ptr (kpipes k ! unat (waiting_on p))
         | _ \<Rightarrow> False)"

text \<open>
  Every parent and every process or pipe waited for is a slot, and a process waits only for
  a child of its own. \<open>shell_dead\<close>: the scheduler would start a new shell.
\<close>

definition sched_ok :: "kernel \<Rightarrow> bool" where [wf_defs]:
  "sched_ok k \<longleftrightarrow> ptab_shape (kpt k) \<and> length (kpipes k) = NUM_PIPE_BUFS \<and>
     (\<forall>p \<in> set (ptable (kpt k)). unat (parent_idx p) < MAX_PROCS) \<and>
     (\<forall>i < MAX_PROCS. let p = ptable (kpt k) ! i; w = unat (waiting_on p)
        in (status p = WAITING_ON_PID \<longrightarrow> w < MAX_PROCS \<and> unat (parent_idx (ptable (kpt k) ! w)) = i) \<and>
           (status p = WAITING_ON_PIPE \<longrightarrow> w < NUM_PIPE_BUFS))"

definition shell_dead :: "kernel \<Rightarrow> bool" where
  "shell_dead k \<longleftrightarrow> (\<exists>p \<in> set (ptable (kpt k)). status p = KILLED \<and> pid p = sh_proc_pid (kpt k))"

text \<open>The record of the chosen process.\<close>

definition resume :: "kernel \<Rightarrow> proc \<Rightarrow> proc" where
  "resume k p =
     (case status p of
        WAITING_ON_PID \<Rightarrow> p\<lparr>exit_code := exit_code (ptable (kpt k) ! unat (waiting_on p)), status := RUNNABLE\<rparr>
      | WAITING_ON_STDIN \<Rightarrow> p\<lparr>status := RUNNABLE\<rparr>
      | WAITING_ON_PIPE \<Rightarrow> p\<lparr>status := RUNNABLE\<rparr>
      | _ \<Rightarrow> p)"

text \<open>The slots the search passes over may be reaped: killed processes whose parent is not alive.\<close>

definition reaps :: "proc list \<Rightarrow> proc list \<Rightarrow> bool" where
  "reaps T T' \<longleftrightarrow> length T' = length T \<and>
     (\<forall>i < length T. T' ! i = T ! i \<or>
        status (T ! i) = KILLED \<and> \<not> proc_alive (status (T ! unat (parent_idx (T ! i)))) \<and> T' ! i = (T ! i)\<lparr>status := UNUSED\<rparr>)"

definition with_table :: "proc list \<Rightarrow> kernel \<Rightarrow> kernel" where
  "with_table T k = k\<lparr>kpt := (kpt k)\<lparr>ptable := T\<rparr>\<rparr>"

fun visits :: "nat \<Rightarrow> nat \<Rightarrow> nat list" where
  "visits 0 i = []"
| "visits (Suc n) i = (i + 1) mod MAX_PROCS # visits n ((i + 1) mod MAX_PROCS)"

lemma with_table_simps [simp]:
  "ptable (kpt (with_table T k)) = T" "ktty (with_table T k) = ktty k" "kpipes (with_table T k) = kpipes k"
  "sh_proc_pid (kpt (with_table T k)) = sh_proc_pid (kpt k)" "with_table T (with_table T' k) = with_table T k"
  "with_table (ptable (kpt k)) k = k"
  by (simp_all add: with_table_def)

lemma reaps_refl [simp]: "reaps T T"
  by (simp add: reaps_def)

lemma reaps_slot:
  assumes "reaps T T'" "i < length T"
  shows "status (T ! i) \<noteq> KILLED \<Longrightarrow> T' ! i = T ! i"
    and "parent_idx (T' ! i) = parent_idx (T ! i)" "pid (T' ! i) = pid (T ! i)"
    and "proc_alive (status (T' ! i)) = proc_alive (status (T ! i))"
  using assms by (auto simp: reaps_def proc_alive_def)

lemma reaps_keeps_child:
  assumes "reaps T T'" "i < length T" "proc_alive (status (T ! unat (parent_idx (T ! i))))"
  shows "T' ! i = T ! i"
  using assms by (auto simp: reaps_def)

lemma reaps_update:
  assumes "reaps T T'" "i < length T" "status (T' ! i) = KILLED"
    "\<not> proc_alive (status (T ! unat (parent_idx (T ! i))))"
  shows "reaps T (T'[i := (T' ! i)\<lparr>status := UNUSED\<rparr>])"
  using assms unfolding reaps_def by (auto simp: nth_list_update)

lemma resume_cong:
  "ptable (kpt k') ! unat (waiting_on p) = ptable (kpt k) ! unat (waiting_on p) \<Longrightarrow> resume k' p = resume k p"
  by (simp add: resume_def split: proc_status.split)

definition chosen :: "proc list \<Rightarrow> nat \<Rightarrow> kernel \<Rightarrow> kernel" where
  "chosen T i k =
     k\<lparr>kpt := (kpt k)\<lparr>ptable := T[i := resume k (ptable (kpt k) ! i)], scheduler_proc_index := of_nat i\<rparr>\<rparr>"

lemma sched_ok_len: "sched_ok k \<Longrightarrow> length (ptable (kpt k)) = MAX_PROCS"
  by (simp add: wf_defs)

lemma sched_ok_parent: "sched_ok k \<Longrightarrow> i < MAX_PROCS \<Longrightarrow> unat (parent_idx (ptable (kpt k) ! i)) < MAX_PROCS"
  by (simp add: wf_defs)

lemma sched_ok_waiter:
  assumes "sched_ok k" "i < MAX_PROCS" "status (ptable (kpt k) ! i) = WAITING_ON_PID"
  shows "unat (waiting_on (ptable (kpt k) ! i)) < MAX_PROCS"
    and "unat (parent_idx (ptable (kpt k) ! unat (waiting_on (ptable (kpt k) ! i)))) = i"
  using assms by (simp_all add: sched_ok_def Let_def)

lemma sched_ok_pipe:
  "sched_ok k \<Longrightarrow> i < MAX_PROCS \<Longrightarrow> status (ptable (kpt k) ! i) = WAITING_ON_PIPE \<Longrightarrow>
    unat (waiting_on (ptable (kpt k) ! i)) < length (kpipes k)"
  by (simp add: sched_ok_def Let_def)

text \<open>What a waiting process waits for is not reaped, because its parent is the waiting process.\<close>

lemma reaps_waited:
  assumes "sched_ok k" "reaps (ptable (kpt k)) T" "i < MAX_PROCS" "status (ptable (kpt k) ! i) = WAITING_ON_PID"
  shows "T ! unat (waiting_on (ptable (kpt k) ! i)) = ptable (kpt k) ! unat (waiting_on (ptable (kpt k) ! i))"
  using assms sched_ok_waiter [OF assms(1,3,4)]
  by (intro reaps_keeps_child) (simp_all add: sched_ok_len proc_alive_def)

lemmas visit_defs = sched_visit_def get_proc_def upd_proc_def wake_def set_index_def chosen_def resume_def with_table_def

lemma visit_ready:
  assumes "sched_ok k" "reaps (ptable (kpt k)) T" "i < MAX_PROCS" "ready k i"
  shows "sched_visit i (with_table T k) = Inr (True, chosen T i k)"
proof -
  let ?p = "ptable (kpt k) ! i"
  have len: "length T = MAX_PROCS" using assms(1,2) by (simp add: reaps_def sched_ok_len)
  have Ti: "T ! i = ?p"
    using assms reaps_slot(1) [OF assms(2)] by (auto simp: ready_def Let_def sched_ok_len split: proc_status.splits)
  have same: "T[i := ?p] = T" using Ti by (metis list_update_id)
  show ?thesis
  proof (cases "status ?p = WAITING_ON_PID")
    case True
    note w = sched_ok_waiter [OF assms(1,3) True] reaps_waited [OF assms(1-3) True]
    with True assms(3,4) len Ti show ?thesis by (simp add: visit_defs ready_def Let_def)
  next
    case False
    with assms(3,4) len Ti same sched_ok_pipe [OF assms(1,3)] show ?thesis
      by (auto simp: visit_defs ready_def Let_def split: proc_status.splits)
  qed
qed

lemma visit_idle:
  assumes "sched_ok k" "\<not> shell_dead k" "reaps (ptable (kpt k)) T" "i < MAX_PROCS" "\<not> ready k i"
  shows "\<exists>T'. reaps (ptable (kpt k)) T' \<and> sched_visit i (with_table T k) = Inr (False, with_table T' k)"
proof -
  let ?p = "ptable (kpt k) ! i" and ?q = "unat (parent_idx (ptable (kpt k) ! i))"
  have len: "length T = MAX_PROCS" using assms(1,3) by (simp add: reaps_def sched_ok_len)
  have par: "?q < MAX_PROCS" using sched_ok_parent [OF assms(1,4)] .
  note slot = reaps_slot [OF assms(3), of i, unfolded sched_ok_len [OF assms(1)], OF assms(4)]
  show ?thesis
  proof (cases "status ?p = KILLED")
    case True
    then have sh: "pid ?p \<noteq> sh_proc_pid (kpt k)"
      using assms(1,2,4) by (auto simp: shell_dead_def sched_ok_len)
    consider "T ! i = ?p" | "T ! i = ?p\<lparr>status := UNUSED\<rparr>"
      using assms(1,3,4) by (auto simp: reaps_def sched_ok_len)
    then show ?thesis
    proof cases
      case 1
      have alive: "proc_alive (status (T ! ?q)) = proc_alive (status (ptable (kpt k) ! ?q))"
        using reaps_slot(4) [OF assms(3)] par by (simp add: sched_ok_len assms(1))
      show ?thesis
      proof (cases "proc_alive (status (T ! ?q))")
        case True
        with 1 \<open>status ?p = KILLED\<close> sh len assms(3,4) par show ?thesis
          by (intro exI [of _ T]) (simp add: sched_visit_def get_proc_def reap_def)
      next
        case False
        with 1 \<open>status ?p = KILLED\<close> sh len assms(1,3,4) par alive show ?thesis
          by (intro exI [of _ "T[i := (T ! i)\<lparr>status := UNUSED\<rparr>]"] conjI reaps_update)
            (simp_all add: sched_visit_def get_proc_def reap_def upd_proc_def sched_ok_len with_table_def)
      qed
    next
      case 2
      with len assms(3,4) show ?thesis by (intro exI [of _ T]) (simp add: sched_visit_def get_proc_def)
    qed
  next
    case False
    then have Ti: "T ! i = ?p" using slot(1) by simp
    have "sched_visit i (with_table T k) = Inr (False, with_table T k)"
    proof (cases "status ?p = WAITING_ON_PID")
      case True
      with assms(4,5) len Ti sched_ok_waiter [OF assms(1,4) True] reaps_waited [OF assms(1,3,4) True]
      show ?thesis by (simp add: sched_visit_def get_proc_def ready_def Let_def)
    next
      case False
      with \<open>status ?p \<noteq> KILLED\<close> assms(4,5) len Ti sched_ok_pipe [OF assms(1,4)] show ?thesis
        by (auto simp: sched_visit_def get_proc_def ready_def Let_def split: proc_status.splits)
    qed
    then show ?thesis using assms(3) by blast
  qed
qed

lemma sched_loop_spec:
  assumes "sched_ok k" "\<not> shell_dead k" "reaps (ptable (kpt k)) T"
  shows "case find (ready k) (visits n i) of
      None \<Rightarrow> sched_loop n i (with_table T k) = Inl Hang
    | Some j \<Rightarrow> \<exists>T'. reaps (ptable (kpt k)) T' \<and> sched_loop n i (with_table T k) = Inr (chosen T' j k)"
  using assms(3)
proof (induction n arbitrary: i T)
  case (Suc n)
  let ?i = "(i + 1) mod MAX_PROCS"
  have i: "?i < MAX_PROCS" by simp
  show ?case
  proof (cases "ready k ?i")
    case True
    then have "sched_loop (Suc n) i (with_table T k) = Inr (chosen T ?i k)"
      using visit_ready [OF assms(1) Suc.prems i True] by simp
    with True Suc.prems show ?thesis by auto
  next
    case False
    obtain T' where T': "reaps (ptable (kpt k)) T'" "sched_visit ?i (with_table T k) = Inr (False, with_table T' k)"
      using visit_idle [OF assms(1,2) Suc.prems i False] by blast
    then have "sched_loop (Suc n) i (with_table T k) = sched_loop n ?i (with_table T' k)"
      "find (ready k) (visits (Suc n) i) = find (ready k) (visits n ?i)"
      using False by simp_all
    then show ?thesis using Suc.IH [OF T'(1), of ?i] by (simp only:)
  qed
qed simp

lemma length_visits [simp]: "length (visits n i) = n"
  by (induction n arbitrary: i) simp_all

lemma nth_visits: "d < n \<Longrightarrow> visits n i ! d = (i + 1 + d) mod MAX_PROCS"
proof (induction n arbitrary: i d)
  case (Suc n)
  show ?case
  proof (cases d)
    case (Suc e)
    then have "visits (Suc n) i ! d = ((i + 1) mod MAX_PROCS + 1 + e) mod MAX_PROCS" using Suc.IH Suc.prems by simp
    also have "\<dots> = (i + 1 + d) mod MAX_PROCS" using mod_add_left_eq [of "i + 1" MAX_PROCS "1 + e"] Suc by (simp only: add.assoc) simp
    finally show ?thesis .
  qed simp
qed simp

text \<open>How many slots the search passes before slot \<open>j\<close> when it starts after slot \<open>i\<close>.\<close>

definition slot_distance :: "nat \<Rightarrow> nat \<Rightarrow> nat" where
  "slot_distance i j = (j + (255 - i)) mod MAX_PROCS"

lemma slot_at_distance: "i < MAX_PROCS \<Longrightarrow> j < MAX_PROCS \<Longrightarrow> (i + 1 + slot_distance i j) mod MAX_PROCS = j"
proof -
  assume "i < MAX_PROCS" "j < MAX_PROCS"
  moreover from this have "i + 1 + (j + (255 - i)) = j + 256" by simp
  ultimately show ?thesis unfolding slot_distance_def mod_add_right_eq by simp
qed

lemma find_visits:
  assumes "i < MAX_PROCS" "j < MAX_PROCS" "P j" "MAX_PROCS \<le> n"
  shows "\<exists>d \<le> slot_distance i j. P ((i + 1 + d) mod MAX_PROCS) \<and>
    (\<forall>e < d. \<not> P ((i + 1 + e) mod MAX_PROCS)) \<and> find P (visits n i) = Some ((i + 1 + d) mod MAX_PROCS)"
proof -
  let ?Q = "\<lambda>d. P ((i + 1 + d) mod MAX_PROCS)" and ?s = "slot_distance i j"
  have s: "?s < MAX_PROCS" "?Q ?s" using slot_at_distance [OF assms(1,2)] assms(3) by (simp_all add: slot_distance_def)
  then have "(LEAST d. ?Q d) \<le> ?s" by (intro Least_le)
  moreover from this have "find P (visits n i) = Some ((i + 1 + (LEAST d. ?Q d)) mod MAX_PROCS)"
    using s assms(4) not_less_Least [of _ ?Q] LeastI [of ?Q, OF s(2)]
    by (intro iffD2 [OF find_Some_iff] exI [of _ "LEAST d. ?Q d"]) (auto simp: nth_visits)
  ultimately show ?thesis using not_less_Least [of _ ?Q] LeastI [of ?Q, OF s(2)] by blast
qed

lemma scheduler_choice:
  assumes "sched_ok k" "\<not> shell_dead k" "j < MAX_PROCS" "ready k j"
  shows "\<exists>d T. d \<le> slot_distance (get_current_proc (kpt k)) j \<and>
    ready k ((get_current_proc (kpt k) + 1 + d) mod MAX_PROCS) \<and>
    (\<forall>e < d. \<not> ready k ((get_current_proc (kpt k) + 1 + e) mod MAX_PROCS)) \<and>
    reaps (ptable (kpt k)) T \<and>
    scheduler k = Inr (chosen T ((get_current_proc (kpt k) + 1 + d) mod MAX_PROCS) k)"
proof -
  let ?c = "get_current_proc (kpt k)"
  have c: "?c < MAX_PROCS" and le: "MAX_PROCS \<le> 512"
    using assms(1) ptab_shape_current [of "kpt k"] by (simp_all add: wf_defs)
  obtain d where d: "d \<le> slot_distance ?c j" "ready k ((?c + 1 + d) mod MAX_PROCS)"
    "\<forall>e < d. \<not> ready k ((?c + 1 + e) mod MAX_PROCS)"
    "find (ready k) (visits 512 ?c) = Some ((?c + 1 + d) mod MAX_PROCS)"
    using find_visits [where P = "ready k", OF c assms(3,4) le] by blast
  obtain T where "reaps (ptable (kpt k)) T" "scheduler k = Inr (chosen T ((?c + 1 + d) mod MAX_PROCS) k)"
    using sched_loop_spec [OF assms(1,2) reaps_refl, of 512 ?c] d(4) by (auto simp: scheduler_def get_current_proc_def)
  with d show ?thesis by blast
qed

text \<open>
  C8: while the shell is alive and some process is ready, the scheduler returns and chooses the first ready slot in
  cyclic order after the current one, no more than the distance to any ready slot away. The chosen
  process is made runnable, with its child's exit code if it waited for one; killed processes
  whose parent is gone may have been reaped on the way, and nothing else has changed. The case of a killed shell
  is left out: the scheduler then loads and starts a new shell before it goes on with the search.
\<close>

theorem scheduler_round_robin:
  assumes "sched_ok k" "\<not> shell_dead k" "j < MAX_PROCS" "ready k j"
  shows "\<exists>d T. d \<le> slot_distance (get_current_proc (kpt k)) j \<and>
    ready k ((get_current_proc (kpt k) + 1 + d) mod MAX_PROCS) \<and>
    (\<forall>e < d. \<not> ready k ((get_current_proc (kpt k) + 1 + e) mod MAX_PROCS)) \<and>
    reaps (ptable (kpt k)) T \<and>
    scheduler k = Inr (chosen T ((get_current_proc (kpt k) + 1 + d) mod MAX_PROCS) k)"
  using assms by (rule scheduler_choice)

text \<open>
  A table with the idle process, a process that waits for its killed child, and an orphan: for the
  witnesses of this theory.
\<close>

definition demo_table :: "proc list" where
  "demo_table = zero_table[0 := zero_proc\<lparr>status := RUNNABLE\<rparr>,
     1 := zero_proc\<lparr>status := WAITING_ON_PID, pid := 1, waiting_on := 2\<rparr>,
     2 := zero_proc\<lparr>status := KILLED, pid := 2, parent_idx := 1, exit_code := 7\<rparr>,
     3 := zero_proc\<lparr>status := KILLED, pid := 3, parent_idx := 9\<rparr>]"

lemma demo_table_nth:
  "length demo_table = MAX_PROCS"
  "i < MAX_PROCS \<Longrightarrow> demo_table ! i = (if i = 0 then zero_proc\<lparr>status := RUNNABLE\<rparr>
     else if i = 1 then zero_proc\<lparr>status := WAITING_ON_PID, pid := 1, waiting_on := 2\<rparr>
     else if i = 2 then zero_proc\<lparr>status := KILLED, pid := 2, parent_idx := 1, exit_code := 7\<rparr>
     else if i = 3 then zero_proc\<lparr>status := KILLED, pid := 3, parent_idx := 9\<rparr> else zero_proc)"
  by (simp_all add: demo_table_def nth_list_update)

lemma zero_proc_simps [simp]:
  "parent_idx zero_proc = 0" "waiting_on zero_proc = 0" "pid zero_proc = 0"
  by (simp_all add: zero_proc_def)

definition demo_kernel :: kernel where
  "demo_kernel = with_table demo_table sample_kernel"

lemma demo_ok:
  "sched_ok demo_kernel" "\<not> shell_dead demo_kernel" "ready demo_kernel 1" "get_current_proc (kpt demo_kernel) = 0"
  by (auto simp: demo_kernel_def sample_kernel_def sched_ok_def ptab_shape_def shell_dead_def with_table_def power_on_def
      demo_table_nth all_set_conv_all_nth in_set_conv_nth Let_def ready_def get_current_proc_def)

theorem scheduler_round_robin_witness:
  "\<exists>T. reaps demo_table T \<and> scheduler demo_kernel = Inr (chosen T 1 demo_kernel)"
proof -
  have "slot_distance 0 1 = 0" by (simp add: slot_distance_def)
  then show ?thesis using scheduler_round_robin [OF demo_ok(1,2) _ demo_ok(3)] demo_ok(4)
    by (auto simp: demo_kernel_def)
qed

lemma slot_distance_step:
  assumes "i < MAX_PROCS" "j < MAX_PROCS" "d < slot_distance i j"
  shows "slot_distance ((i + 1 + d) mod MAX_PROCS) j < slot_distance i j"
proof -
  let ?n = "(i + 1 + d) mod MAX_PROCS" and ?s = "slot_distance i j"
  have s: "?s < MAX_PROCS" by (simp add: slot_distance_def)
  have "(?n + 1 + (?s - d - 1)) mod MAX_PROCS = (i + 1 + d + (1 + (?s - d - 1))) mod MAX_PROCS"
    by (simp only: mod_add_left_eq add.assoc)
  also have "i + 1 + d + (1 + (?s - d - 1)) = i + 1 + ?s" using assms(3) by simp
  finally have "(?n + 1 + (?s - d - 1)) mod MAX_PROCS = j" using slot_at_distance [OF assms(1,2)] by simp
  then have "slot_distance ?n j = ((?n + 1 + (?s - d - 1)) mod MAX_PROCS + (255 - ?n)) mod MAX_PROCS"
    by (simp add: slot_distance_def)
  also have "\<dots> = (?n + 1 + (?s - d - 1) + (255 - ?n)) mod MAX_PROCS" by (rule mod_add_left_eq)
  also have "?n + 1 + (?s - d - 1) + (255 - ?n) = ?s - d - 1 + MAX_PROCS"
    using mod_less_divisor [of MAX_PROCS "i + 1 + d"] by linarith
  finally have "slot_distance ?n j = ?s - d - 1" using s by simp
  then show ?thesis using assms(3) by simp
qed

text \<open>
  C16: bounded waiting. While the shell is alive, each call of the scheduler runs a ready process or moves strictly closer
  to it, so a process that stays ready runs after at most 256 calls. A call that finds the shell killed first loads and
  starts a new one, which can fail; such calls are left out.
\<close>

theorem scheduler_bounded_wait:
  assumes "sched_ok k" "\<not> shell_dead k" "j < MAX_PROCS" "ready k j"
  shows "\<exists>k'. scheduler k = Inr k' \<and> slot_distance (get_current_proc (kpt k)) j < MAX_PROCS \<and>
    (get_current_proc (kpt k') = j \<or>
     slot_distance (get_current_proc (kpt k')) j < slot_distance (get_current_proc (kpt k)) j)"
proof -
  let ?c = "get_current_proc (kpt k)"
  obtain d T where d: "d \<le> slot_distance ?c j" "scheduler k = Inr (chosen T ((?c + 1 + d) mod MAX_PROCS) k)"
    using scheduler_choice [OF assms] by blast
  have c: "?c < MAX_PROCS" using assms(1) ptab_shape_current [of "kpt k"] by (simp add: wf_defs)
  let ?n = "(?c + 1 + d) mod MAX_PROCS"
  have "?n < 4294967296" by (rule less_trans [OF mod_less_divisor]) simp_all
  then have n: "get_current_proc (kpt (chosen T ?n k)) = ?n"
    by (simp add: chosen_def get_current_proc_def)
  show ?thesis
  proof (cases "d = slot_distance ?c j")
    case True
    then show ?thesis using d(2) n slot_at_distance [OF c assms(3)] by (simp add: slot_distance_def)
  next
    case False
    then have "slot_distance ?n j < slot_distance ?c j" using d(1) by (intro slot_distance_step [OF c assms(3)]) simp
    then show ?thesis using d(2) n by (simp add: slot_distance_def)
  qed
qed

theorem scheduler_bounded_wait_witness:
  "\<exists>k'. scheduler demo_kernel = Inr k' \<and> get_current_proc (kpt k') = 1"
  using scheduler_bounded_wait [OF demo_ok(1,2) _ demo_ok(3)] demo_ok(4) by (simp add: slot_distance_def)

text \<open>
  When no process is ready, the search never ends: with any number of turns, from any slot, no
  process is chosen. (The idle process is always ready once the kernel has started.)
\<close>

theorem scheduler_waits_for_ever:
  assumes "sched_ok k" "\<not> shell_dead k" "\<And>j. j < MAX_PROCS \<Longrightarrow> \<not> ready k j"
  shows "sched_loop fuel i k = Inl Hang"
proof -
  have "set (visits n i) \<subseteq> {..<MAX_PROCS}" for n i by (induction n arbitrary: i) auto
  then have "find (ready k) (visits fuel i) = None" using assms(3) by (auto simp: find_None_iff)
  then show ?thesis using sched_loop_spec [OF assms(1,2) reaps_refl, of fuel i] by simp
qed

theorem scheduler_waits_for_ever_witness:
  "sched_loop 1000000 5 (with_table (demo_table[0 := zero_proc, 1 := zero_proc]) sample_kernel) = Inl Hang"
proof (rule scheduler_waits_for_ever)
  let ?k = "with_table (demo_table[0 := zero_proc, 1 := zero_proc]) sample_kernel"
  show "sched_ok ?k" "\<not> shell_dead ?k"
    by (auto simp: sample_kernel_def sched_ok_def ptab_shape_def shell_dead_def with_table_def power_on_def
        demo_table_nth all_set_conv_all_nth in_set_conv_nth Let_def nth_list_update)
  show "j < MAX_PROCS \<Longrightarrow> \<not> ready ?k j" for j
    by (simp add: ready_def demo_table_nth nth_list_update)
qed

end
