(* ===== verification/SysSpec.thy ===== *)
theory SysSpec
  imports TreeOps SysProc SchedSpec
begin

text \<open>
  Properties of the system calls that involve several components: failed calls change nothing, pipes and descriptors
  seen from a process, the end of a process, and where the handlers go wrong.
\<close>

section \<open>Failed calls\<close>

lemma path_helper_result: "path_helper fs i buf n m = Inr (r, m') \<Longrightarrow> r = 0 \<or> r = - 1 \<and> m' = m"
  by (auto simp: path_helper_def kres_simps Let_def split: if_splits)

lemma set_cur_mem_same [simp]: "set_cur_mem (cur_mem k) k = k"
  by (simp add: set_cur_mem_def cur_mem_def)

lemmas fail_simps = ret_def kres_simps

lemma cd_fail: "sys_cd s k = Inr (b, s', k') \<Longrightarrow> eax s' = FAIL \<Longrightarrow> k' = k"
  by (auto simp: sys_cd_def fail_simps split: if_splits option.splits)

lemma pwd_fail: "sys_pwd s k = Inr (b, s', k') \<Longrightarrow> eax s' = FAIL \<Longrightarrow> k' = k"
  by (auto simp: sys_pwd_def fail_simps dest!: path_helper_result split: if_splits option.splits)

lemma close_fail: "sys_close s k = Inr (b, s', k') \<Longrightarrow> eax s' = FAIL \<Longrightarrow> k' = k"
  by (auto simp: sys_close_def fail_simps split: if_splits option.splits)

lemma create_fail: "sys_create s k = Inr (b, s', k') \<Longrightarrow> eax s' = FAIL \<Longrightarrow> k' = k"
  by (auto simp: sys_create_def fail_simps split: if_splits option.splits)

lemma delete_fail: "sys_delete s k = Inr (b, s', k') \<Longrightarrow> eax s' = FAIL \<Longrightarrow> k' = k"
  by (auto simp: sys_delete_def fail_simps Let_def split: if_splits option.splits)

lemma link_fail: "sys_link s k = Inr (b, s', k') \<Longrightarrow> eax s' = FAIL \<Longrightarrow> k' = k"
  by (auto simp: sys_link_def fail_simps split: if_splits option.splits)

lemma harden_fail: "sys_harden s k = Inr (b, s', k') \<Longrightarrow> eax s' = FAIL \<Longrightarrow> k' = k"
  by (auto simp: sys_harden_def fail_simps Let_def split: if_splits option.splits)

lemma pipe_fail: "sys_pipe s k = Inr (b, s', k') \<Longrightarrow> eax s' = FAIL \<Longrightarrow> k' = k"
  by (clarsimp simp: sys_pipe_def fail_simps split: if_splits) (auto simp: fail_simps split: list.splits option.splits)

lemma tty_fail: "sys_set_tty_mode s k = Inr (b, s', k') \<Longrightarrow> eax s' = FAIL \<Longrightarrow> k' = k"
  by (auto simp: sys_set_tty_mode_def fail_simps split: if_splits)

lemma cur_proc_fds: "ptab_shape (kpt k) \<Longrightarrow> cur_proc k = Inr p \<Longrightarrow> length (fds p) = 16"
  by (auto simp: cur_proc_def get_proc_def kres_simps ptab_shape_def)

lemma fd_not_fail: "i < 16 \<Longrightarrow> of_nat i \<noteq> (FAIL :: u32)"
proof
  assume i: "i < 16" "of_nat i = (FAIL :: u32)"
  then have "(of_nat (Suc i) :: u32) = 0" by simp
  moreover have "unat (of_nat (Suc i) :: u32) = Suc i" using i(1) by (intro unat_of_nat32) simp
  ultimately show False by simp
qed

lemma open_fail:
  assumes "ptab_shape (kpt k)" "sys_open s k = Inr (b, s', k')" "eax s' = FAIL"
  shows "k' = k"
proof (rule ccontr)
  assume "k' \<noteq> k"
  with assms(2) obtain p i where "cur_proc k = Inr p" "i < length (fds p)" "eax s' = of_nat i"
    by (auto simp: sys_open_def ret_def find_Some_iff elim!: kbindE split: if_splits option.splits)
  with cur_proc_fds [OF assms(1)] fd_not_fail [of i] assms(3) show False by auto
qed

lemmas fail_rules = cd_fail pwd_fail close_fail create_fail delete_fail link_fail harden_fail pipe_fail tty_fail

text \<open>
  C15: a failed call changes nothing. When one of these ten calls returns -1, the whole state of
  the kernel, file system, tables and user memory included, is what it was before the call.
\<close>

theorem failed_calls_change_nothing:
  assumes "ptab_shape (kpt k)" "eax s' = FAIL"
    "call \<in> {sys_cd, sys_pwd, sys_open, sys_close, sys_create, sys_delete, sys_link, sys_harden, sys_pipe, sys_set_tty_mode}"
    "call s k = Inr (b, s', k')"
  shows "k' = k"
  by (insert assms(3,4), elim insertE emptyE; hypsubst;
      (erule fail_rules [OF _ assms(2)] | erule open_fail [OF assms(1) _ assms(2)]))

lemma work_shape: "ptab_shape (kpt work_kernel)"
  by (auto simp: ptab_shape_def work_kernel_def sample_kernel_def power_on_def dest!: set_update_subset_insert [THEN subsetD])

theorem failed_calls_change_nothing_witness:
  "sys_create (regs 1000 2000 0) work_kernel = Inr (False, (regs 1000 2000 0)\<lparr>eax := FAIL\<rparr>, work_kernel)"
proof -
  obtain k' where *: "sys_create (regs 1000 2000 0) work_kernel = Inr (False, (regs 1000 2000 0)\<lparr>eax := FAIL\<rparr>, k')"
    by (simp add: sys_create_def regs_def is_valid_user_addr_def work_path work_str work_lookup get_inode_def ret_def)
  show ?thesis using failed_calls_change_nothing [where call = sys_create, OF work_shape _ _ *] * by simp
qed

section \<open>Pipes from the outside\<close>

lemma cur_mem_simps [simp]:
  "cur_mem (set_cur_mem m k) = m" "cur_mem (k\<lparr>kpipes := d\<rparr>) = cur_mem k" "cur_mem (k\<lparr>kpipe_bufs := b\<rparr>) = cur_mem k"
  "cur_mem (k\<lparr>kpt := pt\<rparr>) = cur_mem k" "cur_proc (set_cur_mem m k) = cur_proc k" "kpipes (set_cur_mem m k) = kpipes k"
  "kpipe_bufs (set_cur_mem m k) = kpipe_bufs k" "set_cur_mem m (set_cur_mem m' k) = set_cur_mem m k"
  by (simp_all add: cur_mem_def set_cur_mem_def cur_proc_def get_proc_def)

lemma upd_cur_Inr:
  "upd_cur f k = Inr k' \<longleftrightarrow> (\<exists>p. cur_proc k = Inr p \<and>
     k' = k\<lparr>kpt := (kpt k)\<lparr>ptable := (ptable (kpt k))[get_current_proc (kpt k) := f p]\<rparr>\<rparr>)"
  by (auto simp: upd_cur_def upd_proc_def cur_proc_def get_proc_def kres_simps)

lemma cur_proc_upd: "upd_cur f k = Inr k' \<Longrightarrow> cur_proc k = Inr p \<Longrightarrow> cur_proc k' = Inr (f p)"
  by (auto simp: upd_cur_Inr cur_proc_def get_proc_def get_current_proc_def kres_simps)

lemma filter_two:
  assumes "filter P [0..<n] = r # w # rest"
  shows "r < w" "w < n"
proof -
  have "sorted_wrt (<) (r # w # rest)" unfolding assms [symmetric] by (intro sorted_wrt_filter sorted_wrt_upt)
  then show "r < w" by simp
  have "w \<in> set (filter P [0..<n])" unfolding assms by simp
  then show "w < n" by simp
qed

lemma sys_pipe_success:
  assumes "ptab_shape (kpt k)" "length (kpipes k) = NUM_PIPE_BUFS" "sys_pipe s k = Inr (b, s1, k1)" "eax s1 = 0"
  shows "\<exists>p r w i. cur_proc k1 = Inr p \<and> r < w \<and> w < 16 \<and> i < NUM_PIPE_BUFS \<and> length (fds p) = 16 \<and>
    fds p ! r = pipe_fd SYS_OPEN_FILE_MODE_READ (of_nat i) \<and> fds p ! w = pipe_fd SYS_OPEN_FILE_MODE_WRITE (of_nat i) \<and>
    kpipes k1 = (kpipes k)[i := pipe_reset] \<and> kpipe_bufs k1 = kpipe_bufs k \<and>
    le32 (cur_mem k1) (ebx s) = of_nat r \<and> le32 (cur_mem k1) (ebx s + 4) = of_nat w"
proof -
  obtain p r w rest i k0 where *: "cur_proc k = Inr p"
    "filter (\<lambda>i. fstatus (fds p ! i) = FD_UNMAPPED) [0..<length (fds p)] = r # w # rest" "i < NUM_PIPE_BUFS"
    "upd_cur (\<lambda>p. upd_fd w (\<lambda>_. pipe_fd SYS_OPEN_FILE_MODE_WRITE (of_nat i))
       (upd_fd r (\<lambda>_. pipe_fd SYS_OPEN_FILE_MODE_READ (of_nat i)) p)) (k\<lparr>kpipes := (kpipes k)[i := pipe_reset]\<rparr>) = Inr k0"
    "k1 = set_cur_mem (put_le32 (ebx s + 4) (of_nat w) (put_le32 (ebx s) (of_nat r) (cur_mem k0))) k0"
    using assms(2-4)
    by (auto simp: sys_pipe_def ret_def user_put32_def find_Some_iff elim!: kbindE split: if_splits list.splits option.splits)
  note rw = filter_two [OF *(2)]
  have len: "length (fds p) = 16" by (rule cur_proc_fds [OF assms(1) *(1)])
  let ?p = "upd_fd w (\<lambda>_. pipe_fd SYS_OPEN_FILE_MODE_WRITE (of_nat i)) (upd_fd r (\<lambda>_. pipe_fd SYS_OPEN_FILE_MODE_READ (of_nat i)) p)"
  have k0: "cur_proc k0 = Inr ?p"
    using cur_proc_upd [OF *(4), of p] *(1) by (simp add: cur_proc_def get_proc_def)
  have "kpipes k0 = (kpipes k)[i := pipe_reset]" "kpipe_bufs k0 = kpipe_bufs k" using *(4) by (auto simp: upd_cur_Inr)
  with k0 rw len *(3,5) show ?thesis
    by (intro exI [of _ ?p] exI [of _ r] exI [of _ w] exI [of _ i]) (simp add: upd_fd_def)
qed

lemma fold_line_push: "fold line_push (xs @ [NEWLINE]) (q, l) = (q @ l @ xs @ [NEWLINE], [])"
  by (induction xs arbitrary: q l) simp_all

lemma pipe_delivers:
  assumes "ptab_shape (kpt k)" "length (kpipes k) = NUM_PIPE_BUFS" "length (kpipe_bufs k) = NUM_PIPE_BUFS"
    "\<forall>b \<in> set (kpipe_bufs k). length b = 16384" "sys_pipe s k = Inr (b, s1, k1)" "eax s1 = 0"
    and sw: "ebx sw = le32 (cur_mem k1) (ebx s + 4)" and sr: "ebx sr = le32 (cur_mem k1) (ebx s)"
    and line: "map (\<lambda>j. cur_mem k1 (ecx sw + of_nat j)) [0..<unat (edx sw)] = line @ [NEWLINE]" "length line + 1 < 16384"
    and rng: "user_range (ecx sw) (length line + 1)" "user_range (ecx sr) (length line + 1)" "length line + 1 \<le> unat (edx sr)"
  shows "\<exists>k2 k3. sys_write sw k1 = Inr (False, sw, k2) \<and>
    sys_read sr k2 = Inr (False, sr\<lparr>eax := of_nat (length line + 1)\<rparr>, k3) \<and>
    (\<forall>j < length line + 1. cur_mem k3 (ecx sr + of_nat j) = (line @ [NEWLINE]) ! j)"
proof -
  obtain p r w i where *: "cur_proc k1 = Inr p" "r < w" "w < 16" "i < NUM_PIPE_BUFS" "length (fds p) = 16"
    "fds p ! r = pipe_fd SYS_OPEN_FILE_MODE_READ (of_nat i)" "fds p ! w = pipe_fd SYS_OPEN_FILE_MODE_WRITE (of_nat i)"
    "kpipes k1 = (kpipes k)[i := pipe_reset]" "kpipe_bufs k1 = kpipe_bufs k" "ebx sr = of_nat r" "ebx sw = of_nat w"
    using sys_pipe_success [OF assms(1,2,5,6)] sw sr by auto
  let ?n = "length line + 1" and ?b = "kpipe_bufs k ! i" and ?m = "cur_mem k1"
  have n: "unat (edx sw) = ?n" using arg_cong [OF line(1), of length] by simp
  have i: "unat (of_nat i :: u32) = i" and fd: "unat (ebx sw) = w" "unat (ebx sr) = r" "\<not> ebx sw \<ge> MAX_FDS" "\<not> ebx sr \<ge> MAX_FDS"
    using *(2-4,10,11) by (simp_all add: word_le_nat_alt)
  have wf: "pipe_wf (pipe_reset, ?b)" "pipe_abs (pipe_reset, ?b) = ([], [])"
    using assms(3,4) *(4) by (simp_all add: wf_defs pipe_reset_def pipe_abs_def pipe_readable_def pipe_line_def)
  obtain d' b' where p': "pipe_write_loop ?m (ecx sw) (edx sw) 0 (eax sw) (pipe_reset, ?b) = Inr (eax sw, d', b')" "pipe_wf (d', b')"
    "pipe_readable (d', b') = line @ [NEWLINE]"
  proof -
    have "user_range (ecx sw) (unat (edx sw))" "unat (pinternal_write_ptr (fst (pipe_reset, ?b))) + (unat (edx sw) - unat 0) < 16384"
      using rng(1) line(2) by (simp_all add: n pipe_reset_def)
    from pipe_write_loop_refines [OF wf(1) _ this, of ?m "eax sw"]
    obtain q where "pipe_write_loop ?m (ecx sw) (edx sw) 0 (eax sw) (pipe_reset, ?b) = Inr (eax sw, q)" "pipe_wf q"
      "pipe_abs q = fold line_push (line @ [NEWLINE]) ([], [])"
      unfolding line(1) [symmetric] wf(2) by auto
    then show ?thesis using that [of "fst q" "snd q"] by (simp add: fold_line_push pipe_abs_def del: fold_append)
  qed
  let ?k2 = "set_pipe (of_nat i) (d', b') k1"
  have valid: "is_valid_user_addr (ecx sw)" "is_valid_user_addr (ecx sr)"
    using rng by (simp_all add: is_valid_user_addr_def user_range_def word_less_nat_alt)
  have "sys_write sw k1 = Inr (False, sw, ?k2)"
    using valid fd * i p'(1) assms(2,3)
    by (simp add: sys_write_def ret_def pipe_fd_def fd_pipe_def get_pipe_def pipe_reset_def)
  moreover have ne: "\<not> pipe_empty (d', b')" using pipe_source.empty_iff [OF p'(2)] p'(3) by simp
  obtain s'' where rd: "read_loop pipe_empty pipe_pop (ecx sr) (edx sr) 0 ((d', b'), ?m) =
      Inr (of_nat ?n, s'', upd_range ?m (ecx sr) ?n (\<lambda>j. (line @ [NEWLINE]) ! j))"
    using pipe_source.read_loop_spec [OF p'(2), of ?n "edx sr" "ecx sr" ?m] p'(3) rng(2,3) by auto
  have "sys_read sr ?k2 = Inr (False, sr\<lparr>eax := of_nat ?n\<rparr>,
      set_cur_mem (upd_range ?m (ecx sr) ?n (\<lambda>j. (line @ [NEWLINE]) ! j)) (set_pipe (of_nat i) s'' ?k2))"
    using valid fd * i ne rd assms(2,3)
    by (simp add: sys_read_def read_pipe_def ret_def pipe_fd_def fd_pipe_def get_pipe_def set_pipe_def cur_proc_def get_proc_def)
  moreover have "?n < 4294967296" using line(2) by simp
  ultimately show ?thesis by (intro exI conjI) (auto simp: upd_range_at)
qed

text \<open>
  C9: a pipe from the outside. After a successful \<^verbatim>\<open>pipe\<close> call, writing a line of fewer than 16384 bytes to
  the second descriptor number the call stored in user memory succeeds, and reading from the first
  one then returns the length of the line and puts exactly its bytes into the reader's buffer.
\<close>

theorem pipe_call_roundtrip:
  assumes "ptab_shape (kpt k)" "length (kpipes k) = NUM_PIPE_BUFS" "length (kpipe_bufs k) = NUM_PIPE_BUFS"
    "\<forall>b \<in> set (kpipe_bufs k). length b = 16384" "sys_pipe s k = Inr (b, s1, k1)" "eax s1 = 0"
    and sw: "ebx sw = le32 (cur_mem k1) (ebx s + 4)" and sr: "ebx sr = le32 (cur_mem k1) (ebx s)"
    and line: "map (\<lambda>j. cur_mem k1 (ecx sw + of_nat j)) [0..<unat (edx sw)] = line @ [NEWLINE]" "length line + 1 < 16384"
    and rng: "user_range (ecx sw) (length line + 1)" "user_range (ecx sr) (length line + 1)" "length line + 1 \<le> unat (edx sr)"
  shows "\<exists>k2 k3. sys_write sw k1 = Inr (False, sw, k2) \<and>
    sys_read sr k2 = Inr (False, sr\<lparr>eax := of_nat (length line + 1)\<rparr>, k3) \<and>
    (\<forall>j < length line + 1. cur_mem k3 (ecx sr + of_nat j) = (line @ [NEWLINE]) ! j)"
  by (rule pipe_delivers [OF assms])

text \<open>The small system with the line \<open>A\<close> at address 6000.\<close>

definition pipe_kernel :: kernel where
  "pipe_kernel = work_kernel\<lparr>kumem := (\<lambda>_. (\<lambda>_. 0)(6000 := 65, 6001 := 10))\<rparr>"

lemma pipe_kernel_facts:
  "ptab_shape (kpt pipe_kernel)" "kpipes pipe_kernel = zero_pipes" "kpipe_bufs pipe_kernel = zero_pipe_bufs"
  "cur_proc pipe_kernel = Inr (zero_proc\<lparr>status := RUNNABLE, cwd := Some 0\<rparr>)" "cur_mem pipe_kernel = (\<lambda>_. 0)(6000 := 65, 6001 := 10)"
  using work_shape work_proc
  by (simp_all add: pipe_kernel_def work_kernel_def sample_kernel_def power_on_def cur_proc_def get_proc_def cur_mem_def)

lemma pipe_kernel_call:
  assumes "ebx s = 5000"
  shows "\<exists>k1. sys_pipe s pipe_kernel = Inr (False, s\<lparr>eax := 0\<rparr>, k1) \<and>
    cur_mem k1 = put_le32 5004 1 (put_le32 5000 0 ((\<lambda>_. 0)(6000 := 65, 6001 := 10)))"
proof -
  have f: "filter (\<lambda>i. fstatus (fds zero_proc ! i) = FD_UNMAPPED) [0..<16] = [0..<16]"
    by (rule filter_True) (auto simp: zero_proc_def zero_fd_def)
  have u: "[0..<16] = 0 # 1 # [2..<16::nat]" by (simp add: upt_rec)
  have z: "find (\<lambda>i. pnum_refs (zero_pipes ! i) = 0) [0..<NUM_PIPE_BUFS] = Some 0"
    unfolding u by (simp add: zero_pipes_def)
  obtain k0 where k0: "upd_cur (\<lambda>p. upd_fd 1 (\<lambda>_. pipe_fd SYS_OPEN_FILE_MODE_WRITE 0) (upd_fd 0 (\<lambda>_. pipe_fd SYS_OPEN_FILE_MODE_READ 0) p))
      (pipe_kernel\<lparr>kpipes := zero_pipes[0 := pipe_reset]\<rparr>) = Inr k0" "cur_mem k0 = cur_mem pipe_kernel"
    using pipe_kernel_facts(4) by (auto simp: upd_cur_Inr cur_proc_def get_proc_def)
  then show ?thesis
    using pipe_kernel_facts f z assms
    by (simp add: sys_pipe_def is_valid_user_addr_def u ret_def user_put32_def user_range_def)
qed

lemma pipe_kernel_memory:
  assumes "m = put_le32 5004 1 (put_le32 5000 0 ((\<lambda>_. 0)(6000 := 65, 6001 := 10)))"
  shows "le32 m 5000 = 0" "le32 m 5004 = 1" "map (\<lambda>j. m (6000 + of_nat j)) [0..<2] = [65] @ [NEWLINE]"
    "\<forall>b \<in> set zero_pipe_bufs. length b = 16384"
proof -
  show "le32 m 5000 = 0" "le32 m 5004 = 1" using le32_put_le32_above [of 5000] unfolding assms by simp_all
  show "map (\<lambda>j. m (6000 + of_nat j)) [0..<2] = [65] @ [NEWLINE]" by (simp add: assms put_le32_def upt_rec)
  show "\<forall>b \<in> set zero_pipe_bufs. length b = 16384"
    by (simp only: zero_pipe_bufs_def set_replicate_conv_if split: if_split) simp
qed

theorem pipe_call_roundtrip_witness:
  "\<exists>k1 k2 k3. sys_pipe (regs 5000 0 0) pipe_kernel = Inr (False, (regs 5000 0 0)\<lparr>eax := 0\<rparr>, k1) \<and>
    sys_write (regs 1 6000 2) k1 = Inr (False, regs 1 6000 2, k2) \<and>
    sys_read (regs 0 7000 5) k2 = Inr (False, (regs 0 7000 5)\<lparr>eax := 2\<rparr>, k3) \<and> cur_mem k3 7000 = 65 \<and> cur_mem k3 7001 = 10"
proof -
  obtain k1 where k1: "sys_pipe (regs 5000 0 0) pipe_kernel = Inr (False, (regs 5000 0 0)\<lparr>eax := 0\<rparr>, k1)"
    "cur_mem k1 = put_le32 5004 1 (put_le32 5000 0 ((\<lambda>_. 0)(6000 := 65, 6001 := 10)))"
    using pipe_kernel_call [of "regs 5000 0 0"] by (auto simp: regs_def)
  note m = pipe_kernel_memory [OF k1(2)]
  have "\<exists>k2 k3. sys_write (regs 1 6000 2) k1 = Inr (False, regs 1 6000 2, k2) \<and>
    sys_read (regs 0 7000 5) k2 = Inr (False, (regs 0 7000 5)\<lparr>eax := of_nat (length [65 :: u8] + 1)\<rparr>, k3) \<and>
    (\<forall>j < length [65 :: u8] + 1. cur_mem k3 (ecx (regs 0 7000 5) + of_nat j) = ([65] @ [NEWLINE]) ! j)"
    using m by (intro pipe_call_roundtrip [OF pipe_kernel_facts(1) _ _ _ k1(1)])
      (simp_all add: pipe_kernel_facts regs_def user_range_def)
  then show ?thesis using k1(1) by (auto simp: less_Suc_eq regs_def)
qed

section \<open>Descriptors\<close>

lemma upd_cur_current: "upd_cur f k = Inr k' \<Longrightarrow> get_current_proc (kpt k') = get_current_proc (kpt k)"
  by (auto simp: upd_cur_Inr get_current_proc_def)

lemma upd_cur_twice:
  assumes "upd_cur f k = Inr k1" "upd_cur g k1 = Inr k2"
  shows "upd_cur (\<lambda>p. g (f p)) k = Inr k2"
  using assms cur_proc_upd [OF assms(1)] upd_cur_current [OF assms(1)] by (fastforce simp: upd_cur_Inr)

lemma acquire_release:
  assumes "k_acquire t k = Inr k1" "ivalid (inodes (kfs k) ! t) \<noteq> 0" "kfs k2 = kfs k1"
  shows "k_release t k2 = Inr (k2\<lparr>kfs := kfs k\<rparr>)"
  using assms
  by (auto simp: k_acquire_def k_release_def acquire_inode_def release_inode_def upd_inode_def kres_simps)

lemma cur_proc_kfs [simp]: "cur_proc (k\<lparr>kfs := fs\<rparr>) = cur_proc k"
  by (simp add: cur_proc_def get_proc_def)

text \<open>
  C10: opening and closing. A successful \<^verbatim>\<open>open\<close> takes one reference to the inode the path resolves to and
  returns the lowest free descriptor, positioned at the start with the mode asked for; closing that descriptor gives the
  reference back and leaves the kernel as it was before, except for the contents of the unmapped descriptor.
\<close>

theorem open_close_roundtrip:
  assumes "ptab_shape (kpt k)" "lookup_user_path (ebx s) k = Inr (Some t)" "ivalid (inodes (kfs k) ! t) \<noteq> 0"
    "sys_open s k = Inr (b, s1, k1)" "eax s1 \<noteq> FAIL" "cur_proc k = Inr p" "ebx s2 = eax s1"
  shows "\<exists>i st k2. i < 16 \<and> eax s1 = of_nat i \<and> fstatus (fds p ! i) = FD_UNMAPPED \<and> (\<forall>j < i. fstatus (fds p ! j) \<noteq> FD_UNMAPPED) \<and>
    (st = FD_REGULAR_FILE \<or> st = FD_REGULAR_DIRECTORY) \<and>
    cur_proc k1 = Inr (upd_fd i (\<lambda>f. \<lparr>fstatus = st, fmode = ecx s, fdata = DFile (Some t), fptr = 0\<rparr>) p) \<and>
    irefs (inodes (kfs k1) ! t) = irefs (inodes (kfs k) ! t) + 1 \<and>
    sys_close s2 k1 = Inr (False, s2\<lparr>eax := 0\<rparr>, k2) \<and>
    upd_cur (upd_fd i (\<lambda>f. \<lparr>fstatus = FD_UNMAPPED, fmode = ecx s, fdata = DFile (Some t), fptr = 0\<rparr>)) k = Inr k2"
proof -
  obtain i st k0 where o: "find (\<lambda>i. fstatus (fds p ! i) = FD_UNMAPPED) [0..<length (fds p)] = Some i"
    "open_status t k = Inr (Some st)" "k_acquire t k = Inr k0" "eax s1 = of_nat i"
    "upd_cur (upd_fd i (\<lambda>f. f\<lparr>fstatus := st, fdata := DFile (Some t), fmode := ecx s, fptr := 0\<rparr>)) k0 = Inr k1"
    using assms(2,4-6)
    by (auto simp: sys_open_def ret_def elim!: kbindE split: if_splits option.splits)
  have i: "i < 16" "fstatus (fds p ! i) = FD_UNMAPPED" "\<forall>j < i. fstatus (fds p ! j) \<noteq> FD_UNMAPPED" "length (fds p) = 16"
    using o(1) cur_proc_fds [OF assms(1,6)] by (auto simp: find_Some_iff)
  have st: "st = FD_REGULAR_FILE \<or> st = FD_REGULAR_DIRECTORY"
    using o(2) by (auto simp: open_status_def Let_def elim!: kbindE split: if_splits option.splits)
  obtain fs where k0: "k0 = k\<lparr>kfs := fs\<rparr>" "irefs (inodes fs ! t) = irefs (inodes (kfs k) ! t) + 1"
    using o(3) by (auto simp: k_acquire_def acquire_inode_def upd_inode_def kres_simps)
  let ?g = "\<lambda>st (f :: fd). \<lparr>fstatus = st, fmode = ecx s, fdata = DFile (Some t), fptr = 0\<rparr>"
  have g: "(\<lambda>f. f\<lparr>fstatus := st, fdata := DFile (Some t), fmode := ecx s, fptr := 0\<rparr>) = ?g st" by (simp add: fun_eq_iff)
  have k1: "k1 = k\<lparr>kfs := fs, kpt := (kpt k)\<lparr>ptable := (ptable (kpt k))[get_current_proc (kpt k) := upd_fd i (?g st) p]\<rparr>\<rparr>"
    using o(5) assms(6) unfolding g k0(1) by (simp add: upd_cur_Inr)
  have p1: "cur_proc k1 = Inr (upd_fd i (?g st) p)"
    using cur_proc_upd [OF o(5), of p] assms(6) unfolding g k0(1) by simp
  have fd: "unat (ebx s2) = i" "\<not> MAX_FDS \<le> ebx s2" using assms(7) o(4) i(1) by (simp_all add: word_le_nat_alt)
  have f: "fds (upd_fd i (?g st) p) ! i = ?g st (fds p ! i)" "length (fds (upd_fd i (?g st) p)) = 16"
    using i by (simp_all add: upd_fd_def)
  have "kfs k1 = kfs k0" using k0(1) k1 by simp
  then have rel: "k_release t k1 = Inr (k1\<lparr>kfs := kfs k\<rparr>)" by (rule acquire_release [OF o(3) assms(3)])
  have "upd_fd i (\<lambda>f. f\<lparr>fstatus := FD_UNMAPPED\<rparr>) (upd_fd i (?g st) p) = upd_fd i (?g FD_UNMAPPED) p"
    using i by (simp add: upd_fd_def)
  moreover define k2 where "k2 = k\<lparr>kpt := (kpt k)\<lparr>ptable := (ptable (kpt k))[get_current_proc (kpt k) := upd_fd i (?g FD_UNMAPPED) p]\<rparr>\<rparr>"
  moreover have "cur_proc (k1\<lparr>kfs := kfs k\<rparr>) = Inr (upd_fd i (?g st) p)" using p1 by simp
  ultimately have k2: "upd_cur (upd_fd i (\<lambda>f. f\<lparr>fstatus := FD_UNMAPPED\<rparr>)) (k1\<lparr>kfs := kfs k\<rparr>) = Inr k2"
    "upd_cur (upd_fd i (?g FD_UNMAPPED)) k = Inr k2"
    using assms(6) by (simp_all add: upd_cur_Inr k1 get_current_proc_def)
  have "sys_close s2 k1 = Inr (False, s2\<lparr>eax := 0\<rparr>, k2)"
    using fd p1 f st rel k2(1) i(1) by (auto simp: sys_close_def ret_def close_fd_refs_def fd_file_def)
  with i o(4) st p1 k0(2) k1 k2(2) show ?thesis by (intro exI [of _ i] exI [of _ st] exI [of _ k2]) simp
qed

theorem open_close_roundtrip_witness:
  "\<exists>s1 k1 k2. sys_open (regs 2000 2 0) work_kernel = Inr (False, s1, k1) \<and> irefs (inodes (kfs k1) ! 1) = 1 \<and>
    sys_close (regs (eax s1) 0 0) k1 = Inr (False, (regs (eax s1) 0 0)\<lparr>eax := 0\<rparr>, k2) \<and> kfs k2 = work_tree"
proof -
  have u: "[0..<16] = 0 # [1..<16::nat]" by (simp add: upt_rec)
  have "fds zero_proc ! 0 = zero_fd" by (simp add: zero_proc_def)
  then have f: "find (\<lambda>i. fstatus (fds zero_proc ! i) = FD_UNMAPPED) [0..<16] = Some 0" unfolding u by (simp add: zero_fd_def)
  obtain s1 k1 where o: "sys_open (regs 2000 2 0) work_kernel = Inr (False, s1, k1)" "eax s1 = 0"
    using work_proc f
    by (simp add: sys_open_def regs_def is_valid_user_addr_def work_path open_status_def get_inode_def Let_def k_acquire_def
        acquire_inode_def upd_inode_def upd_cur_def upd_proc_def cur_proc_def get_proc_def kget_def ret_def split: if_splits)
  have "lookup_user_path (ebx (regs 2000 2 0)) work_kernel = Inr (Some 1)" "ivalid (inodes (kfs work_kernel) ! 1) \<noteq> 0"
    by (simp_all add: regs_def work_path)
  from open_close_roundtrip [OF work_shape this o(1) _ work_proc, of "regs (eax s1) 0 0"] o(2) obtain k2 where
    "irefs (inodes (kfs k1) ! 1) = irefs (inodes (kfs work_kernel) ! 1) + 1"
    "sys_close (regs (eax s1) 0 0) k1 = Inr (False, (regs (eax s1) 0 0)\<lparr>eax := 0\<rparr>, k2)" "kfs k2 = work_tree"
    by (auto simp: regs_def upd_cur_Inr)
  then show ?thesis using o(1) by (intro exI) (simp add: blank_inode_def)
qed

section \<open>Where the handlers go wrong\<close>

lemma page_no_bound: "unat ((w :: u32) div PGSIZE div 32) < PAGE_FREE_MAP_ENTRIES"
proof -
  have "unat w < 4294967296" using unsigned_less [of w] by simp
  then have "unat w div 4096 div 32 < 32768" by linarith
  then show ?thesis by (simp add: unat_div_distrib)
qed

lemma vm_free_page: "\<exists>v'. vm_free (w div PGSIZE) v = Inr v' \<and> temp_entry v' = temp_entry v"
  using page_no_bound [of w] by (auto simp: vm_free_def free_page_def Let_def not_le)

lemma cleanup_entries_total:
  "temp_entry v AND 1 \<noteq> 0 \<Longrightarrow> \<exists>v'. kfold (\<lambda>j v. kbind (temp_read j v) (\<lambda>w.
     if w AND PTE_ADDR = 0 then Inr v else vm_free (w div PGSIZE) v)) js v = Inr v'"
proof (induction js arbitrary: v)
  case (Cons j js)
  obtain v' where "vm_free (pmem v (page_word (temp_entry v) j) div PGSIZE) v = Inr v'" "temp_entry v' = temp_entry v"
    using vm_free_page by blast
  then show ?case using Cons.IH [of v] Cons.IH [of v'] Cons.prems by (simp add: temp_read_def)
qed simp

lemma entry_present: "((e OR 3) AND 1 :: u32) \<noteq> 0"
  by (simp add: bit_eq_iff) (rule exI [of _ 0], simp add: bit_simps)

lemma cleanup_table_total: "\<exists>v'. cleanup_table dir i v = Inr v'"
proof -
  obtain v1 where "kfold (\<lambda>j v. kbind (temp_read j v) (\<lambda>w.
     if w AND PTE_ADDR = 0 then Inr v else vm_free (w div PGSIZE) v)) (map of_nat [0..<1024]) (temp_map ((dir i AND PTE_ADDR) OR 3) v) = Inr v1"
    using cleanup_entries_total [of "temp_map ((dir i AND PTE_ADDR) OR 3) v"] entry_present by (auto simp: temp_map_def)
  then show ?thesis using vm_free_page [of "dir i" v1] by (auto simp: cleanup_table_def)
qed

lemma cleanup_tables_total: "\<exists>v'. kfold (cleanup_table dir) is v = Inr v'"
proof (induction "is" arbitrary: v)
  case (Cons i "is")
  then show ?case using cleanup_table_total [of dir i v] by auto
qed simp

lemma free_page_outside: "1048576 \<le> unat p \<Longrightarrow> free_page p pa = Inl OutOfBounds"
proof -
  assume "1048576 \<le> unat p"
  then have "32768 \<le> unat p div 32" by linarith
  then show ?thesis by (simp add: free_page_def Let_def unat_div_distrib)
qed

text \<open>
  C36: ending a process never works as written. The loops of \<^verbatim>\<open>cleanup_pages\<close> over the page tables always run to
  their end; then the address of the page directory, not its page number, goes to \<^verbatim>\<open>free_page\<close>: for a directory at or above
  1 MB, where all of them are, this is an access outside the free map, whereas the page number would have been accepted.
  \<^verbatim>\<open>exit\<close> and the fault handlers alike end with this access, on every kernel state and whatever the tables hold.
\<close>

theorem exit_frees_outside_map:
  assumes "cur_proc k = Inr p" "0x100000 \<le> cr3 p"
  shows "\<exists>dir v. temp_load (temp_map (cr3 p OR 3) (kvm k)) = Inr dir \<and>
    kfold (cleanup_table dir) (map of_nat [0..<768]) (temp_map (cr3 p OR 3) (kvm k)) = Inr v \<and>
    free_page (cr3 p) (vpg v) = Inl OutOfBounds \<and> (\<exists>r. free_page (cr3 p div PGSIZE) (vpg v) = Inr r) \<and>
    sys_exit s k = Inl OutOfBounds \<and> kill_current why args k = Inl OutOfBounds"
proof -
  let ?v = "temp_map (cr3 p OR 3) (kvm k)"
  obtain dir where dir: "temp_load ?v = Inr dir" using entry_present [of "cr3 p"] by (auto simp: temp_load_def temp_map_def)
  obtain v where v: "kfold (cleanup_table dir) (map of_nat [0..<768]) ?v = Inr v" using cleanup_tables_total by blast
  have out: "free_page (cr3 p) (vpg v) = Inl OutOfBounds" using assms(2) by (intro free_page_outside) (simp add: word_le_nat_alt)
  moreover have "\<exists>r. free_page (cr3 p div PGSIZE) (vpg v) = Inr r" using vm_free_page [of "cr3 p" v] by (auto simp: vm_free_def elim!: kbindE)
  moreover have "cleanup_pages (cr3 p) (kvm k) = Inl OutOfBounds" using dir v out by (simp add: cleanup_pages_def Let_def vm_free_def)
  then have "cleanup_proc (get_current_proc (kpt k)) k = Inl OutOfBounds" using assms(1) by (simp add: cleanup_proc_def cur_proc_def)
  ultimately show ?thesis using dir v by (simp add: sys_exit_def kill_current_def Let_def)
qed

theorem exit_frees_outside_map_witness:
  "sys_exit (regs 0 0 0) (with_table [zero_proc\<lparr>status := RUNNABLE, cr3 := 0x400000\<rparr>] work_kernel) = Inl OutOfBounds"
proof -
  let ?p = "zero_proc\<lparr>status := RUNNABLE, cr3 := 0x400000\<rparr>"
  have "cur_proc (with_table [?p] work_kernel) = Inr ?p"
    by (simp add: cur_proc_def get_proc_def get_current_proc_def with_table_def work_kernel_def sample_kernel_def power_on_def)
  from exit_frees_outside_map [OF this, of "regs 0 0 0"] show ?thesis by auto
qed

text \<open>
  A reader that waits on an empty pipe is not woken when a descriptor of the pipe is closed: it does not become ready,
  although with the last writer gone no byte can arrive any more and a read that starts now returns -1.
\<close>

theorem pipe_close_never_wakes:
  assumes "status (ptable (kpt k) ! j) = WAITING_ON_PIPE" "waiting_on (ptable (kpt k) ! j) = i" "unat i < length (kpipes k)"
    "pread_ptr (kpipes k ! unat i) = pwrite_ptr (kpipes k ! unat i)" "fstatus f = FD_PIPE" "fdata f = DPipe i"
  shows "\<exists>k'. close_fd_refs f k = Inr k' \<and> \<not> ready k' j \<and> pnum_refs (kpipes k' ! unat i) = pnum_refs (kpipes k ! unat i) - 1"
  using assms by (simp add: close_fd_refs_def fd_pipe_def upd_pipe_def ready_def Let_def)

theorem pipe_close_never_wakes_witness:
  "\<exists>k'. close_fd_refs (pipe_fd 4 0) (with_table [zero_proc\<lparr>status := WAITING_ON_PIPE\<rparr>] (work_kernel\<lparr>kpipes := [pipe_reset]\<rparr>)) = Inr k' \<and>
    \<not> ready k' 0 \<and> pnum_refs (kpipes k' ! 0) = 1"
  using pipe_close_never_wakes [of "with_table [zero_proc\<lparr>status := WAITING_ON_PIPE\<rparr>] (work_kernel\<lparr>kpipes := [pipe_reset]\<rparr>)" 0 0 "pipe_fd 4 0"]
  by (simp add: pipe_fd_def pipe_reset_def)

text \<open>
  Two checks are off by one. \<^verbatim>\<open>reopen\<close> accepts descriptor 16, one past the table of every process; and
  \<^verbatim>\<open>dirent_info\<close> accepts the offset that equals the number of entries: it answers with the name behind a
  stale entry, or, in a full directory, reads past the entry array.
\<close>

theorem bounds_off_by_one:
  assumes "ptab_shape (kpt k)" "cur_proc k = Inr p"
    and "ebx s = 16" "is_valid_user_addr (ecx s)" "lookup_user_path (ecx s) k = Inr (Some t)"
    and "ebx s' < 16" "fdata (fds p ! unat (ebx s')) = DFile (Some d)" "d < length (inodes (kfs k))"
      "itype (inodes (kfs k) ! d) = FT_DIRECTORY" "length (iblocks (inodes (kfs k) ! d)) = NDIRECT"
      "user_range (ecx s') 32" "le32 (cur_mem k) (ecx s') = idata (inodes (kfs k) ! d)"
  shows "sys_reopen s k = Inl OutOfBounds \<and>
    (idata (inodes (kfs k) ! d) = DIR_MAX_ENTRIES \<longrightarrow> sys_dirent_info s' k = Inl OutOfBounds) \<and>
    (\<forall>e. idata (inodes (kfs k) ! d) < DIR_MAX_ENTRIES \<and> unat (iblocks (inodes (kfs k) ! d) ! unat (idata (inodes (kfs k) ! d))) = e \<and>
       e < length (inodes (kfs k)) \<and> length (iname (inodes (kfs k) ! e)) < FILENAME_MAX_LEN \<longrightarrow>
       (\<exists>k'. sys_dirent_info s' k = Inr (False, s'\<lparr>eax := 0\<rparr>, k')))"
proof -
  have len: "length (fds p) = 16" by (rule cur_proc_fds [OF assms(1,2)])
  have "sys_reopen s k = Inl OutOfBounds"
    using assms(2-5) len by (simp add: sys_reopen_def kget_def)
  moreover have u: "unat (ebx s') < 16" "\<not> MAX_FDS \<le> ebx s'" using assms(6) by (simp_all add: word_less_nat_alt word_le_nat_alt)
  have a4: "unat (ecx s' + 4) = unat (ecx s') + 4" "is_valid_user_addr (ecx s')" "user_range (ecx s') 4"
    using assms(11) by (simp_all add: user_range_def unat_word_ariths is_valid_user_addr_def word_less_nat_alt)
  have inode: "fd_inode s' k = Inr (inodes (kfs k) ! d)"
    using assms(2,7,8) len u(1) by (simp add: fd_inode_def fd_file_def get_inode_def)
  have "sys_dirent_info s' k = Inl OutOfBounds" if "idata (inodes (kfs k) ! d) = DIR_MAX_ENTRIES"
    using that inode u a4 assms(9,10,12) by (simp add: sys_dirent_info_def Let_def kget_def)
  moreover have "\<exists>k'. sys_dirent_info s' k = Inr (False, s'\<lparr>eax := 0\<rparr>, k')"
    if "idata (inodes (kfs k) ! d) < DIR_MAX_ENTRIES" "unat (iblocks (inodes (kfs k) ! d) ! unat (idata (inodes (kfs k) ! d))) = e"
      "e < length (inodes (kfs k))" "length (iname (inodes (kfs k) ! e)) < FILENAME_MAX_LEN" for e
    using that inode u a4 assms(9-12)
    by (simp add: sys_dirent_info_def Let_def get_inode_def get_inode_at_idx_def user_put32_def ret_def word_less_nat_alt user_range_def)
  ultimately show ?thesis by blast
qed

theorem bounds_off_by_one_witness:
  "let p = zero_proc\<lparr>status := RUNNABLE, cwd := Some 0, fds := (fds zero_proc)[3 := \<lparr>fstatus = FD_REGULAR_DIRECTORY, fmode = 2, fdata = DFile (Some 0), fptr = 0\<rparr>]\<rparr>;
       k = with_table (zero_table[0 := p]) (work_kernel\<lparr>kumem := (\<lambda>_. (\<lambda>_. 0)(2000 := 102, 8000 := 2))\<rparr>)
   in sys_reopen (regs 16 2000 0) k = Inl OutOfBounds \<and>
      (\<exists>k'. sys_dirent_info (regs 3 8000 0) k = Inr (False, (regs 3 8000 0)\<lparr>eax := 0\<rparr>, k'))"
proof -
  let ?p = "zero_proc\<lparr>status := RUNNABLE, cwd := Some 0, fds := (fds zero_proc)[3 := \<lparr>fstatus = FD_REGULAR_DIRECTORY, fmode = 2, fdata = DFile (Some 0), fptr = 0\<rparr>]\<rparr>"
  let ?k = "with_table (zero_table[0 := ?p]) (work_kernel\<lparr>kumem := (\<lambda>_. (\<lambda>_. 0)(2000 := 102, 8000 := 2))\<rparr>)"
  have p: "cur_proc ?k = Inr ?p"
    by (simp add: cur_proc_def get_proc_def get_current_proc_def with_table_def work_kernel_def sample_kernel_def power_on_def)
  have sh: "ptab_shape (kpt ?k)"
    using work_shape by (auto simp: ptab_shape_def with_table_def work_kernel_def dest!: set_update_subset_insert [THEN subsetD])
  have m: "cur_mem ?k = (\<lambda>_. 0)(2000 := 102, 8000 := 2)" by (simp add: cur_mem_def with_table_def)
  have fs: "kfs ?k = work_tree" by (simp add: with_table_def)
  have "user_str 2000 ?k = Inr [102]" by (simp add: user_str_def m cstr.simps user_range_def)
  then have t: "lookup_user_path 2000 ?k = Inr (Some 1)" by (simp add: lookup_user_path_def p fs work_lookup)
  have "le32 (cur_mem ?k) 8000 = 2" by (simp add: m le32_def)
  then show ?thesis
    using bounds_off_by_one [OF sh p, of "regs 16 2000 0" 1 "regs 3 8000 0" 0] t
    by (simp add: regs_def fs is_valid_user_addr_def user_range_def blank_inode_def FS_ROOT_PATH_def bytes_of_def)
qed

end
