(* ===== verification/FsInv.thy ===== *)
theory FsInv
  imports KPost SysFs
begin

text \<open>
  The invariant of the inode table: 256 inodes, each with 21 block numbers and a parent inside the table. Every
  operation of \<^verbatim>\<open>kernel/src/fs.c\<close> keeps it and every path lookup gives an inode of the table, as rules of
  \<open>kpost_rules\<close>.
\<close>

section \<open>The invariant\<close>

definition inode_ok :: "inode \<Rightarrow> bool" where
  "inode_ok x \<longleftrightarrow> length (iblocks x) = NDIRECT \<and> unat (iparent x) < NUM_INODES"

definition fs_inv :: "fsys \<Rightarrow> bool" where
  "fs_inv fs \<longleftrightarrow> length (inodes fs) = NUM_INODES \<and> (\<forall>x \<in> set (inodes fs). inode_ok x)"

text \<open>A reference to an inode that, if there is one, is an inode of the table.\<close>

definition ref_ok :: "nat option \<Rightarrow> bool" where
  "ref_ok r \<longleftrightarrow> (\<forall>i. r = Some i \<longrightarrow> i < NUM_INODES)"

lemma inode_ok_simps [simp]:
  "inode_ok (x\<lparr>irefs := r\<rparr>) = inode_ok x" "inode_ok (x\<lparr>itype := t\<rparr>) = inode_ok x" "inode_ok (x\<lparr>idata := d\<rparr>) = inode_ok x"
  "inode_ok (x\<lparr>ivalid := v\<rparr>) = inode_ok x" "inode_ok (x\<lparr>iname := n\<rparr>) = inode_ok x"
  by (simp_all add: inode_ok_def)

lemma inode_ok_blocks [simp]: "length bs = NDIRECT \<Longrightarrow> inode_ok x \<Longrightarrow> inode_ok (x\<lparr>iblocks := bs\<rparr>)"
  by (simp add: inode_ok_def)

lemma inode_ok_length: "inode_ok x \<Longrightarrow> length (iblocks x) = NDIRECT"
  by (simp add: inode_ok_def)

lemma fs_inv_nth [simp]: "fs_inv fs \<Longrightarrow> i < length (inodes fs) \<Longrightarrow> inode_ok (inodes fs ! i)"
  by (simp add: fs_inv_def)

lemma fs_inv_length: "fs_inv fs \<Longrightarrow> length (inodes fs) = NUM_INODES"
  by (simp add: fs_inv_def)

lemma fs_inv_bytes [simp]: "fs_inv (fs\<lparr>fsbytes := b\<rparr>) = fs_inv fs"
  by (simp add: fs_inv_def)

lemma ref_ok_simps [simp]: "ref_ok None" "ref_ok (Some i) \<longleftrightarrow> i < NUM_INODES"
  by (simp_all add: ref_ok_def)

section \<open>Inodes and blocks\<close>

lemma kpost_upd_inode [kpost_rules]:
  assumes "fs_inv fs" "\<And>x. inode_ok x \<Longrightarrow> inode_ok (f x)" "\<And>fs'. fs_inv fs' \<Longrightarrow> Q fs'"
  shows "kpost (upd_inode i f fs) Q"
  using assms(1,2) unfolding upd_inode_def
  by (intro kpost_rules assms(3)) (auto simp: fs_inv_def dest!: set_update_subset_insert [THEN subsetD])

lemma kpost_acquire_inode [kpost_rules]:
  assumes "fs_inv fs" "\<And>fs'. fs_inv fs' \<Longrightarrow> Q fs'"
  shows "kpost (acquire_inode i fs) Q"
  using assms(1) unfolding acquire_inode_def by (intro kpost_rules assms(2)) simp_all

lemma kpost_free_block [kpost_rules]:
  assumes "fs_inv fs" "\<And>r fs'. fs_inv fs' \<Longrightarrow> Q (r, fs')"
  shows "kpost (free_block b fs) Q"
  using assms(1) unfolding free_block_def by (intro kpost_rules assms(2)) simp_all

lemma kpost_free_inode [kpost_rules]:
  assumes "fs_inv fs" "\<And>fs'. fs_inv fs' \<Longrightarrow> Q fs'"
  shows "kpost (free_inode i fs) Q"
  using assms(1) unfolding free_inode_def
  by (intro kpost_rules kpost_kfold [where P = fs_inv] assms(2)) simp_all

lemma kpost_release_inode [kpost_rules]:
  assumes "fs_inv fs" "\<And>fs' con'. fs_inv fs' \<Longrightarrow> Q (fs', con')"
  shows "kpost (release_inode i (fs, con)) Q"
  using assms(1) unfolding release_inode_def prod.case
  by (intro kpost_rules assms(2)) (auto intro!: kpostI assms(2))

lemma alloc_block_inv: "fs_inv fs \<Longrightarrow> fs_inv (snd (alloc_block fs))"
  by (simp add: alloc_block_def split: option.splits)

lemma kpost_alloc_block:
  "fs_inv fs \<Longrightarrow> (\<And>b fs'. fs_inv fs' \<Longrightarrow> kpost (f b fs') Q) \<Longrightarrow> kpost (let (b, fs') = alloc_block fs in f b fs') Q"
  using alloc_block_inv [of fs] by (auto simp: case_prod_beta)

lemma grow_blocks_inv: "fs_inv fs \<Longrightarrow> kpost (grow_blocks ino u f fs) fs_inv"
proof (induction "unat f - unat u" arbitrary: u fs)
  case 0
  then have "\<not> u < f" by (simp add: word_less_nat_alt)
  with 0 show ?case by (subst grow_blocks.simps) (simp add: kpost_Inr)
next
  case (Suc n)
  then have lt: "u < f" by (simp add: word_less_nat_alt)
  then have n: "n = unat f - unat (u + 1)" using Suc(2) by unat_arith
  show ?case
    by (subst grow_blocks.simps, simp only: lt if_True, intro kpost_alloc_block Suc.prems kpost_rules Suc(1) [OF n])
      (simp_all add: inode_ok_length)
qed

lemma kpost_grow_blocks [kpost_rules]:
  "fs_inv fs \<Longrightarrow> (\<And>fs'. fs_inv fs' \<Longrightarrow> Q fs') \<Longrightarrow> kpost (grow_blocks ino u f fs) Q"
  by (rule kpost_mono [OF grow_blocks_inv])

lemma kpost_extend_for_write [kpost_rules]:
  assumes "fs_inv fs" "\<And>n fs'. fs_inv fs' \<Longrightarrow> Q (n, fs')"
  shows "kpost (extend_for_write ino off sz fs) Q"
  using assms(1) unfolding extend_for_write_def by (intro kpost_rules assms(2)) simp_all

lemma kpost_move_chunk [kpost_rules]:
  assumes "fs_inv fs" "\<And>fs' m'. fs_inv fs' \<Longrightarrow> Q (fs', m')"
  shows "kpost (move_chunk r a buf n (fs, m)) Q"
  using assms(1) unfolding move_chunk_def prod.case by (intro kpost_rules assms(2)) simp_all

lemma kpost_get_block [kpost_rules]: "(\<And>b. Q b) \<Longrightarrow> kpost (get_block_from_inode_offset x off) Q"
  by (simp add: kpost_def)

lemma fs_move_loop_inv: "fs_inv fs \<Longrightarrow> kpost (fs_move_loop r ino buf off sz bo t (fs, m)) (\<lambda>(n, fs, m). fs_inv fs)"
proof (induction "unat sz" arbitrary: off sz bo t fs m rule: less_induct)
  case less
  have *: "\<not> sz < BLOCK_SIZE \<Longrightarrow> unat (sz - BLOCK_SIZE) < unat sz" by unat_arith
  show ?case
    by (subst fs_move_loop.simps, intro kpost_rules, simp_all add: less.prems) (auto intro: kpost_rules less(1) *)
qed

lemma kpost_fs_move_loop [kpost_rules]:
  "fs_inv fs \<Longrightarrow> (\<And>n fs' m'. fs_inv fs' \<Longrightarrow> Q (n, fs', m')) \<Longrightarrow> kpost (fs_move_loop r ino buf off sz bo t (fs, m)) Q"
  by (rule kpost_mono [OF fs_move_loop_inv]) auto

lemma kpost_follow_symlink [kpost_rules]: "(\<And>r. Q r) \<Longrightarrow> kpost (follow_symlink fs i) Q"
  by (simp add: kpost_def)

lemma kpost_fs_move_bytes:
  assumes "fs_inv fs" "\<And>n fs' m'. fs_inv fs' \<Longrightarrow> Q (n, fs', m')"
  shows "kpost (fs_move_bytes ino off sz buf r (fs, m)) Q"
  using assms(1) unfolding fs_move_bytes_def prod.case by (intro kpost_rules assms(2)) (simp_all)

lemma kpost_fs_read_bytes [kpost_rules]:
  "fs_inv fs \<Longrightarrow> (\<And>n fs' m'. fs_inv fs' \<Longrightarrow> Q (n, fs', m')) \<Longrightarrow> kpost (fs_read_bytes ino off sz buf (fs, m)) Q"
  unfolding fs_read_bytes_def by (rule kpost_fs_move_bytes)

lemma kpost_fs_write_bytes [kpost_rules]:
  "fs_inv fs \<Longrightarrow> (\<And>n fs' m'. fs_inv fs' \<Longrightarrow> Q (n, fs', m')) \<Longrightarrow> kpost (fs_write_bytes ino off sz buf (fs, m)) Q"
  unfolding fs_write_bytes_def by (rule kpost_fs_move_bytes)

section \<open>Directories\<close>

lemma kpost_add_entry [kpost_rules]:
  assumes "fs_inv fs" "\<And>fs'. fs_inv fs' \<Longrightarrow> Q fs'"
  shows "kpost (add_entry d new fs) Q"
  using assms(1) unfolding add_entry_def by (intro kpost_rules assms(2)) (simp_all add: inode_ok_length)

lemma init_inode_ok: "inode_ok x \<Longrightarrow> par < NUM_INODES \<Longrightarrow> inode_ok (init_inode name par t d x)"
  by (simp add: init_inode_def inode_ok_def get_index_from_inode_def)

lemma shift_entries_length: "kpost (shift_entries es j n) (\<lambda>es'. length es' = length es)"
proof (induction "n - j" arbitrary: es j)
  case 0
  then show ?case by (subst shift_entries.simps) (simp add: kpost_Inr)
next
  case (Suc d)
  then have lt: "j < n" and d: "d = n - (j + 1)" by simp_all
  show ?case
    by (subst shift_entries.simps, simp only: lt if_True, intro kpost_rules kpost_mono [OF Suc(1) [OF d]]) simp
qed

lemma kpost_shift_entries [kpost_rules]:
  "(\<And>es'. length es' = length es \<Longrightarrow> Q es') \<Longrightarrow> kpost (shift_entries es j n) Q"
  by (rule kpost_mono [OF shift_entries_length])

lemma delete_entries_length: "kpost (delete_entries idx es n i) (\<lambda>(es', n'). length es' = length es)"
proof (induction "n - i" arbitrary: es n i)
  case 0
  then show ?case by (subst delete_entries.simps) (simp add: kpost_Inr)
next
  case (Suc d)
  then have lt: "i < n" and d: "d = n - (i + 1)" "d = (n - 1) - i" by simp_all
  show ?case
    by (subst delete_entries.simps, simp only: lt if_True,
        intro kpost_rules kpost_mono [OF Suc(1) [OF d(1)]] kpost_mono [OF Suc(1) [OF d(2)]]) auto
qed

lemma kpost_delete_entries [kpost_rules]:
  "(\<And>es' n'. length es' = length es \<Longrightarrow> Q (es', n')) \<Longrightarrow> kpost (delete_entries idx es n i) Q"
  by (rule kpost_mono [OF delete_entries_length]) auto

section \<open>Path lookup\<close>

lemma dir_search_ref: "kpost (dir_search fs name n es) (\<lambda>r. \<forall>i. r = Some i \<longrightarrow> i < length (inodes fs))"
  by (induction fs name n es rule: dir_search.induct) (auto intro!: kpost_rules)

lemma kpost_dir_search [kpost_rules]:
  "fs_inv fs \<Longrightarrow> (\<And>r. ref_ok r \<Longrightarrow> Q r) \<Longrightarrow> kpost (dir_search fs name n es) Q"
  by (rule kpost_mono [OF dir_search_ref]) (simp add: ref_ok_def fs_inv_length)

lemma kpost_path_step [kpost_rules]:
  assumes "fs_inv fs" "b < NUM_INODES" "inode_ok x" "\<And>r. ref_ok r \<Longrightarrow> Q r"
  shows "kpost (path_step fs b x cname fe) Q"
  using assms(1-3) unfolding path_step_def
  by (intro kpost_rules assms(4)) (auto simp: inode_ok_def get_inode_at_idx_def get_root_inode_def)

lemma lookup_ref: "fs_inv fs \<Longrightarrow> ref_ok base \<Longrightarrow> kpost (lookup fs base cs fe) ref_ok"
proof (induction cs arbitrary: base fe)
  case Nil
  then show ?case by (cases base) (simp_all add: kpost_Inr)
next
  case (Cons c cs)
  show ?case
  proof (cases base)
    case (Some b)
    show ?thesis using Cons.prems unfolding Some lookup.simps lookup_step_def
      by (auto intro!: kpost_rules Cons.IH simp: fs_inv_length)
  qed (simp add: kpost_Inr)
qed

lemma kpost_get_inode_by_path [kpost_rules]:
  assumes "fs_inv fs" "ref_ok base" "\<And>r. ref_ok r \<Longrightarrow> Q r"
  shows "kpost (get_inode_by_path fs base path) Q"
  unfolding get_inode_by_path_def helper_lookup by (rule kpost_mono [OF lookup_ref [OF assms(1,2)] assms(3)])

end
