(* ===== verification/SysStub.thy ===== *)
theory SysStub
  imports SysSpec
begin

text \<open>
  The user side of the system calls: the inline functions of \<^verbatim>\<open>shared/syscall_defs.h\<close>. Each one loads
  the call's code and its arguments into registers, executes \<^verbatim>\<open>int $0x80\<close> and returns what the kernel
  left in \<^verbatim>\<open>eax\<close>; a definition here gives the registers at the interrupt, from the registers \<open>s\<close> before
  the call. The lemmas say which handler each of them reaches with which registers, and the theorem follows a line of text through
  a pipe that a program makes, writes and reads with these functions.
\<close>

section \<open>Registers at the interrupt\<close>

fun syscall_num :: "syscall_code \<Rightarrow> u32" where
  "syscall_num SYS_WRITE = 0"
| "syscall_num SYS_READ = 1"
| "syscall_num SYS_SPAWN_PROC = 2"
| "syscall_num SYS_GETPID = 3"
| "syscall_num SYS_EXIT = 4"
| "syscall_num SYS_WAIT = 5"
| "syscall_num SYS_SBRK = 6"
| "syscall_num SYS_CD = 7"
| "syscall_num SYS_PWD = 8"
| "syscall_num SYS_OPEN = 9"
| "syscall_num SYS_REOPEN = 10"
| "syscall_num SYS_CLOSE = 11"
| "syscall_num SYS_SET_PTR = 12"
| "syscall_num SYS_FTYPE = 13"
| "syscall_num SYS_FILE_INFO = 14"
| "syscall_num SYS_DIR_INFO = 15"
| "syscall_num SYS_DIRENT_INFO = 16"
| "syscall_num SYS_SYMLINK_INFO = 17"
| "syscall_num SYS_CREATE = 18"
| "syscall_num SYS_DELETE = 19"
| "syscall_num SYS_LINK = 20"
| "syscall_num SYS_HARDEN = 21"
| "syscall_num SYS_PIPE = 22"
| "syscall_num SYS_SET_TTY_MODE = 23"
| "syscall_num SYS_GET_TTY_MODE = 24"

definition stub_write :: "u32 \<Rightarrow> u32 \<Rightarrow> u32 \<Rightarrow> syscall_registers \<Rightarrow> syscall_registers" where
  "stub_write fd buf count s = s\<lparr>eax := syscall_num SYS_WRITE, ebx := fd, ecx := buf, edx := count\<rparr>"

definition stub_read :: "u32 \<Rightarrow> u32 \<Rightarrow> u32 \<Rightarrow> syscall_registers \<Rightarrow> syscall_registers" where
  "stub_read fd buf count s = s\<lparr>eax := syscall_num SYS_READ, ebx := fd, ecx := buf, edx := count\<rparr>"

definition stub_spawn_proc :: "u32 \<Rightarrow> u32 \<Rightarrow> u32 \<Rightarrow> u32 \<Rightarrow> u32 \<Rightarrow> syscall_registers \<Rightarrow> syscall_registers" where
  "stub_spawn_proc path argc argv n commands s = s\<lparr>eax := syscall_num SYS_SPAWN_PROC, ebx := path, ecx := argc, edx := argv, esi := n, edi := commands\<rparr>"

definition stub_getpid :: "syscall_registers \<Rightarrow> syscall_registers" where
  "stub_getpid s = s\<lparr>eax := syscall_num SYS_GETPID\<rparr>"

definition stub_exit :: "u32 \<Rightarrow> syscall_registers \<Rightarrow> syscall_registers" where
  "stub_exit code s = s\<lparr>eax := syscall_num SYS_EXIT, ebx := code\<rparr>"

definition stub_wait :: "u32 \<Rightarrow> syscall_registers \<Rightarrow> syscall_registers" where
  "stub_wait p s = s\<lparr>eax := syscall_num SYS_WAIT, ebx := p\<rparr>"

definition stub_sbrk :: "u32 \<Rightarrow> syscall_registers \<Rightarrow> syscall_registers" where
  "stub_sbrk delta s = s\<lparr>eax := syscall_num SYS_SBRK, ebx := delta\<rparr>"

definition stub_cd :: "u32 \<Rightarrow> syscall_registers \<Rightarrow> syscall_registers" where
  "stub_cd path s = s\<lparr>eax := syscall_num SYS_CD, ebx := path\<rparr>"

definition stub_pwd :: "u32 \<Rightarrow> u32 \<Rightarrow> syscall_registers \<Rightarrow> syscall_registers" where
  "stub_pwd buf len s = s\<lparr>eax := syscall_num SYS_PWD, ebx := buf, ecx := len\<rparr>"

definition stub_open :: "u32 \<Rightarrow> u32 \<Rightarrow> syscall_registers \<Rightarrow> syscall_registers" where
  "stub_open path mode s = s\<lparr>eax := syscall_num SYS_OPEN, ebx := path, ecx := mode\<rparr>"

definition stub_reopen :: "u32 \<Rightarrow> u32 \<Rightarrow> u32 \<Rightarrow> syscall_registers \<Rightarrow> syscall_registers" where
  "stub_reopen fd path mode s = s\<lparr>eax := syscall_num SYS_REOPEN, ebx := fd, ecx := path, edx := mode\<rparr>"

definition stub_close :: "u32 \<Rightarrow> syscall_registers \<Rightarrow> syscall_registers" where
  "stub_close fd s = s\<lparr>eax := syscall_num SYS_CLOSE, ebx := fd\<rparr>"

definition stub_set_ptr :: "u32 \<Rightarrow> u32 \<Rightarrow> syscall_registers \<Rightarrow> syscall_registers" where
  "stub_set_ptr fd ptr s = s\<lparr>eax := syscall_num SYS_SET_PTR, ebx := fd, ecx := ptr\<rparr>"

definition stub_ftype :: "u32 \<Rightarrow> syscall_registers \<Rightarrow> syscall_registers" where
  "stub_ftype fd s = s\<lparr>eax := syscall_num SYS_FTYPE, ebx := fd\<rparr>"

definition stub_file_info :: "u32 \<Rightarrow> u32 \<Rightarrow> syscall_registers \<Rightarrow> syscall_registers" where
  "stub_file_info fd info s = s\<lparr>eax := syscall_num SYS_FILE_INFO, ebx := fd, ecx := info\<rparr>"

definition stub_dir_info :: "u32 \<Rightarrow> u32 \<Rightarrow> syscall_registers \<Rightarrow> syscall_registers" where
  "stub_dir_info fd info s = s\<lparr>eax := syscall_num SYS_DIR_INFO, ebx := fd, ecx := info\<rparr>"

definition stub_dirent_info :: "u32 \<Rightarrow> u32 \<Rightarrow> syscall_registers \<Rightarrow> syscall_registers" where
  "stub_dirent_info fd info s = s\<lparr>eax := syscall_num SYS_DIRENT_INFO, ebx := fd, ecx := info\<rparr>"

definition stub_symlink_info :: "u32 \<Rightarrow> u32 \<Rightarrow> u32 \<Rightarrow> syscall_registers \<Rightarrow> syscall_registers" where
  "stub_symlink_info fd buf len s = s\<lparr>eax := syscall_num SYS_SYMLINK_INFO, ebx := fd, ecx := buf, edx := len\<rparr>"

definition stub_create :: "u32 \<Rightarrow> u32 \<Rightarrow> u32 \<Rightarrow> syscall_registers \<Rightarrow> syscall_registers" where
  "stub_create parent path type s = s\<lparr>eax := syscall_num SYS_CREATE, ebx := parent, ecx := path, edx := type\<rparr>"

definition stub_delete :: "u32 \<Rightarrow> syscall_registers \<Rightarrow> syscall_registers" where
  "stub_delete path s = s\<lparr>eax := syscall_num SYS_DELETE, ebx := path\<rparr>"

definition stub_link :: "u32 \<Rightarrow> u32 \<Rightarrow> u32 \<Rightarrow> syscall_registers \<Rightarrow> syscall_registers" where
  "stub_link target dir path s = s\<lparr>eax := syscall_num SYS_LINK, ebx := target, ecx := dir, edx := path\<rparr>"

definition stub_harden :: "u32 \<Rightarrow> syscall_registers \<Rightarrow> syscall_registers" where
  "stub_harden symlink s = s\<lparr>eax := syscall_num SYS_HARDEN, ebx := symlink\<rparr>"

definition stub_pipe :: "u32 \<Rightarrow> syscall_registers \<Rightarrow> syscall_registers" where
  "stub_pipe p s = s\<lparr>eax := syscall_num SYS_PIPE, ebx := p\<rparr>"

definition stub_set_tty_mode :: "u32 \<Rightarrow> syscall_registers \<Rightarrow> syscall_registers" where
  "stub_set_tty_mode mode s = s\<lparr>eax := syscall_num SYS_SET_TTY_MODE, ebx := mode\<rparr>"

definition stub_get_tty_mode :: "syscall_registers \<Rightarrow> syscall_registers" where
  "stub_get_tty_mode s = s\<lparr>eax := syscall_num SYS_GET_TTY_MODE\<rparr>"

lemmas stub_defs =
  stub_write_def stub_read_def stub_spawn_proc_def stub_getpid_def stub_exit_def
  stub_wait_def stub_sbrk_def stub_cd_def stub_pwd_def stub_open_def
  stub_reopen_def stub_close_def stub_set_ptr_def stub_ftype_def stub_file_info_def
  stub_dir_info_def stub_dirent_info_def stub_symlink_info_def stub_create_def stub_delete_def
  stub_link_def stub_harden_def stub_pipe_def stub_set_tty_mode_def stub_get_tty_mode_def

lemma syscall_code_of_num: "syscall_code_of (syscall_num c) = Some c"
  by (cases c) (simp_all add: syscall_code_of_def syscall_codes_def)

lemmas dispatch = syscall_interrupt_handler_inner_def syscall_code_of_num stub_defs

text \<open>
  Every user-side call reaches the kernel's handler of the same name, with its arguments in the
  registers that handler reads, except \<^verbatim>\<open>get_tty_mode\<close>: its code is dispatched to
  \<^verbatim>\<open>sys_set_tty_mode\<close>, which sets the terminal's mode from whatever \<^verbatim>\<open>ebx\<close> holds.
\<close>

lemma stubs_reach_handlers:
  "syscall_interrupt_handler_inner (stub_write fd buf count s) k = sys_write (s\<lparr>eax := 0, ebx := fd, ecx := buf, edx := count\<rparr>) k \<and>
   syscall_interrupt_handler_inner (stub_read fd buf count s) k = sys_read (s\<lparr>eax := 1, ebx := fd, ecx := buf, edx := count\<rparr>) k \<and>
   syscall_interrupt_handler_inner (stub_spawn_proc path argc argv n commands s) k = sys_spawn_proc (s\<lparr>eax := 2, ebx := path, ecx := argc, edx := argv, esi := n, edi := commands\<rparr>) k \<and>
   syscall_interrupt_handler_inner (stub_getpid s) k = sys_getpid (s\<lparr>eax := 3\<rparr>) k \<and>
   syscall_interrupt_handler_inner (stub_exit code s) k = sys_exit (s\<lparr>eax := 4, ebx := code\<rparr>) k \<and>
   syscall_interrupt_handler_inner (stub_wait p s) k = sys_wait (s\<lparr>eax := 5, ebx := p\<rparr>) k \<and>
   syscall_interrupt_handler_inner (stub_sbrk delta s) k = sys_sbrk (s\<lparr>eax := 6, ebx := delta\<rparr>) k \<and>
   syscall_interrupt_handler_inner (stub_cd path s) k = sys_cd (s\<lparr>eax := 7, ebx := path\<rparr>) k \<and>
   syscall_interrupt_handler_inner (stub_pwd buf len s) k = sys_pwd (s\<lparr>eax := 8, ebx := buf, ecx := len\<rparr>) k \<and>
   syscall_interrupt_handler_inner (stub_open path mode s) k = sys_open (s\<lparr>eax := 9, ebx := path, ecx := mode\<rparr>) k \<and>
   syscall_interrupt_handler_inner (stub_reopen fd path mode s) k = sys_reopen (s\<lparr>eax := 10, ebx := fd, ecx := path, edx := mode\<rparr>) k \<and>
   syscall_interrupt_handler_inner (stub_close fd s) k = sys_close (s\<lparr>eax := 11, ebx := fd\<rparr>) k \<and>
   syscall_interrupt_handler_inner (stub_set_ptr fd ptr s) k = sys_set_ptr (s\<lparr>eax := 12, ebx := fd, ecx := ptr\<rparr>) k \<and>
   syscall_interrupt_handler_inner (stub_ftype fd s) k = sys_ftype (s\<lparr>eax := 13, ebx := fd\<rparr>) k \<and>
   syscall_interrupt_handler_inner (stub_file_info fd info s) k = sys_file_info (s\<lparr>eax := 14, ebx := fd, ecx := info\<rparr>) k \<and>
   syscall_interrupt_handler_inner (stub_dir_info fd info s) k = sys_dir_info (s\<lparr>eax := 15, ebx := fd, ecx := info\<rparr>) k \<and>
   syscall_interrupt_handler_inner (stub_dirent_info fd info s) k = sys_dirent_info (s\<lparr>eax := 16, ebx := fd, ecx := info\<rparr>) k \<and>
   syscall_interrupt_handler_inner (stub_symlink_info fd buf len s) k = sys_symlink_info (s\<lparr>eax := 17, ebx := fd, ecx := buf, edx := len\<rparr>) k \<and>
   syscall_interrupt_handler_inner (stub_create parent path type s) k = sys_create (s\<lparr>eax := 18, ebx := parent, ecx := path, edx := type\<rparr>) k \<and>
   syscall_interrupt_handler_inner (stub_delete path s) k = sys_delete (s\<lparr>eax := 19, ebx := path\<rparr>) k \<and>
   syscall_interrupt_handler_inner (stub_link target dir path s) k = sys_link (s\<lparr>eax := 20, ebx := target, ecx := dir, edx := path\<rparr>) k \<and>
   syscall_interrupt_handler_inner (stub_harden symlink s) k = sys_harden (s\<lparr>eax := 21, ebx := symlink\<rparr>) k \<and>
   syscall_interrupt_handler_inner (stub_pipe p s) k = sys_pipe (s\<lparr>eax := 22, ebx := p\<rparr>) k \<and>
   syscall_interrupt_handler_inner (stub_set_tty_mode mode s) k = sys_set_tty_mode (s\<lparr>eax := 23, ebx := mode\<rparr>) k \<and>
   syscall_interrupt_handler_inner (stub_get_tty_mode s) k = sys_set_tty_mode (s\<lparr>eax := 24\<rparr>) k"
  by (intro conjI; simp add: dispatch del: syscall_num.simps; simp)

text \<open>
  C20: a pipe as a program sees it. A program calls \<^verbatim>\<open>pipe\<close>, then \<^verbatim>\<open>write\<close> with the second descriptor number it got, then \<^verbatim>\<open>read\<close>
  with the first one, each through its inline function and the kernel's dispatcher. If \<^verbatim>\<open>pipe\<close> returned 0 and the line has fewer
  than 16384 bytes, \<^verbatim>\<open>write\<close> returns 0, \<^verbatim>\<open>read\<close> returns the length of the line, and exactly its bytes are in the buffer the program gave
  to \<^verbatim>\<open>read\<close>.
\<close>

theorem user_pipe_roundtrip:
  assumes "ptab_shape (kpt k)" "length (kpipes k) = NUM_PIPE_BUFS" "length (kpipe_bufs k) = NUM_PIPE_BUFS"
    "\<forall>b \<in> set (kpipe_bufs k). length b = 16384"
    and pipe: "syscall_interrupt_handler_inner (stub_pipe p s) k = Inr (b, s1, k1)" "eax s1 = 0"
    and line: "map (\<lambda>j. cur_mem k1 (buf + of_nat j)) [0..<unat count] = line @ [NEWLINE]" "length line + 1 < 16384"
    and rng: "user_range buf (length line + 1)" "user_range buf' (length line + 1)" "length line + 1 \<le> unat count'"
  shows "\<exists>s2 k2 s3 k3.
    syscall_interrupt_handler_inner (stub_write (le32 (cur_mem k1) (p + 4)) buf count sw) k1 = Inr (False, s2, k2) \<and> eax s2 = 0 \<and>
    syscall_interrupt_handler_inner (stub_read (le32 (cur_mem k1) p) buf' count' sr) k2 = Inr (False, s3, k3) \<and>
    eax s3 = of_nat (length line + 1) \<and> (\<forall>j < length line + 1. cur_mem k3 (buf' + of_nat j) = (line @ [NEWLINE]) ! j)"
proof -
  let ?sw = "sw\<lparr>eax := 0, ebx := le32 (cur_mem k1) (p + 4), ecx := buf, edx := count\<rparr>"
  let ?sr = "sr\<lparr>eax := 1, ebx := le32 (cur_mem k1) p, ecx := buf', edx := count'\<rparr>"
  have "sys_pipe (s\<lparr>eax := 22, ebx := p\<rparr>) k = Inr (b, s1, k1)" using pipe(1) stubs_reach_handlers by metis
  from pipe_delivers [OF assms(1-4) this pipe(2), of ?sw ?sr line] line rng obtain k2 k3 where
    "sys_write ?sw k1 = Inr (False, ?sw, k2)" "sys_read ?sr k2 = Inr (False, ?sr\<lparr>eax := of_nat (length line + 1)\<rparr>, k3)"
    "\<forall>j < length line + 1. cur_mem k3 (buf' + of_nat j) = (line @ [NEWLINE]) ! j" by auto
  then show ?thesis using stubs_reach_handlers by auto
qed

theorem user_pipe_roundtrip_witness:
  "\<exists>s1 k1 s2 k2 s3 k3. syscall_interrupt_handler_inner (stub_pipe 5000 (regs 0 0 0)) pipe_kernel = Inr (False, s1, k1) \<and>
    syscall_interrupt_handler_inner (stub_write 1 6000 2 (regs 0 0 0)) k1 = Inr (False, s2, k2) \<and>
    syscall_interrupt_handler_inner (stub_read 0 7000 5 (regs 0 0 0)) k2 = Inr (False, s3, k3) \<and>
    eax s3 = 2 \<and> cur_mem k3 7000 = 65 \<and> cur_mem k3 7001 = 10"
proof -
  obtain s1 k1 where k1: "syscall_interrupt_handler_inner (stub_pipe 5000 (regs 0 0 0)) pipe_kernel = Inr (False, s1, k1)" "eax s1 = 0"
    "cur_mem k1 = put_le32 5004 1 (put_le32 5000 0 ((\<lambda>_. 0)(6000 := 65, 6001 := 10)))"
    using pipe_kernel_call [of "(regs 0 0 0)\<lparr>eax := 22, ebx := 5000\<rparr>"] stubs_reach_handlers by auto
  note m = pipe_kernel_memory [OF k1(3)]
  have "\<exists>s2 k2 s3 k3. syscall_interrupt_handler_inner (stub_write (le32 (cur_mem k1) (5000 + 4)) 6000 2 (regs 0 0 0)) k1 = Inr (False, s2, k2) \<and> eax s2 = 0 \<and>
    syscall_interrupt_handler_inner (stub_read (le32 (cur_mem k1) 5000) 7000 5 (regs 0 0 0)) k2 = Inr (False, s3, k3) \<and>
    eax s3 = of_nat (length [65 :: u8] + 1) \<and> (\<forall>j < length [65 :: u8] + 1. cur_mem k3 (7000 + of_nat j) = ([65] @ [NEWLINE]) ! j)"
    using m by (intro user_pipe_roundtrip [OF pipe_kernel_facts(1) _ _ _ k1(1,2)]) (simp_all add: pipe_kernel_facts user_range_def)
  then show ?thesis using k1(1) m(1,2) by (auto simp: less_Suc_eq)
qed

end
