(* ===== verification/Desc.thy ===== *)
theory Desc
  imports Tty
begin

text \<open>
  The processor's descriptor tables and the interrupt controller: \<^verbatim>\<open>kernel/src/gdt.c\<close> and the setup
  part of \<^verbatim>\<open>kernel/src/interrupt.c\<close>. A descriptor is written field by field into the layout the
  processor prescribes; the \<open>seg_\<close> and \<open>gate_\<close> functions are the processor's reading of that
  layout, so the round trips below say that the kernel encodes what it means to. Addresses that the
  linker chooses (tables, handlers, the task state segment) are arguments.
\<close>

section \<open>Segment descriptors\<close>

abbreviation GDT_LENGTH :: nat where "GDT_LENGTH \<equiv> 6"

type_synonym gdt_entry = "u8 list"

definition gdt_write_entry :: "nat \<Rightarrow> u32 \<Rightarrow> u32 \<Rightarrow> u8 \<Rightarrow> u8 \<Rightarrow> gdt_entry list \<Rightarrow> gdt_entry list kres" where
  "gdt_write_entry index base limit access_byte flags gdt =
     kbind (kget gdt index) (\<lambda>e.
       let e = e[0 := ucast (limit AND 0xFF), 1 := ucast (drop_bit 8 limit AND 0xFF), 6 := ucast (drop_bit 16 limit AND 0x0F)];
           e = e[2 := ucast (base AND 0xFF), 3 := ucast (drop_bit 8 base AND 0xFF),
                 4 := ucast (drop_bit 16 base AND 0xFF), 7 := ucast (drop_bit 24 base AND 0xFF)];
           e = e[5 := access_byte];
           e = e[6 := e ! 6 OR push_bit 4 flags]
       in kset gdt index e)"

text \<open>The table, its descriptor for \<^verbatim>\<open>lgdt\<close> and the fields of the task state segment that are set.\<close>

record gdt_state =
  gdt :: "gdt_entry list"
  gdt_size :: u16
  gdt_offset :: u32
  tss_ss0 :: u32

abbreviation TSS_SIZE :: u32 where "TSS_SIZE \<equiv> 104"

definition gdt_load :: "u32 \<Rightarrow> u32 \<Rightarrow> gdt_state \<Rightarrow> gdt_state kres" where
  "gdt_load gdt_addr tss_addr g =
     kbind (gdt_write_entry 0 0 0 0 0 (gdt g)) (\<lambda>t.
     kbind (gdt_write_entry 1 0 0xFFFFF 0x9A 0xC t) (\<lambda>t.
     kbind (gdt_write_entry 2 0 0xFFFFF 0x92 0xC t) (\<lambda>t.
     kbind (gdt_write_entry 3 0 0xFFFFF 0xFA 0xC t) (\<lambda>t.
     kbind (gdt_write_entry 4 0 0xFFFFF 0xF2 0xC t) (\<lambda>t.
     kbind (gdt_write_entry 5 tss_addr (TSS_SIZE - 1) 0x89 0 t) (\<lambda>t.
       Inr (g\<lparr>gdt := t, gdt_size := 8 * of_nat GDT_LENGTH - 1, gdt_offset := gdt_addr, tss_ss0 := 0x10\<rparr>)))))))"

definition seg_base :: "gdt_entry \<Rightarrow> u32" where
  "seg_base e = ucast (e ! 2) OR push_bit 8 (ucast (e ! 3)) OR push_bit 16 (ucast (e ! 4)) OR push_bit 24 (ucast (e ! 7))"

definition seg_limit :: "gdt_entry \<Rightarrow> u32" where
  "seg_limit e = ucast (e ! 0) OR push_bit 8 (ucast (e ! 1)) OR push_bit 16 (ucast (e ! 6 AND 0x0F))"

definition seg_access :: "gdt_entry \<Rightarrow> u8" where
  "seg_access e = e ! 5"

definition seg_flags :: "gdt_entry \<Rightarrow> u8" where
  "seg_flags e = drop_bit 4 (e ! 6)"

section \<open>Interrupt gates\<close>

abbreviation IDT_LENGTH :: nat where "IDT_LENGTH \<equiv> 256"

record idt_entry =
  offset_low :: u16
  segment :: u16
  idt_reserved :: u8
  idt_flags :: u8
  offset_high :: u16

text \<open>A gate of the table before start-up.\<close>

definition zero_gate :: idt_entry where
  "zero_gate = \<lparr>offset_low = 0, segment = 0, idt_reserved = 0, idt_flags = 0, offset_high = 0\<rparr>"

definition idt_write_entry :: "nat \<Rightarrow> u32 \<Rightarrow> u16 \<Rightarrow> u8 \<Rightarrow> idt_entry list \<Rightarrow> idt_entry list kres" where
  "idt_write_entry index offset seg fl idt =
     kset idt index \<lparr>offset_low = ucast (offset AND 0xFFFF), segment = seg, idt_reserved = 0, idt_flags = fl,
       offset_high = ucast (drop_bit 16 offset AND 0xFFFF)\<rparr>"

definition gate_offset :: "idt_entry \<Rightarrow> u32" where
  "gate_offset e = ucast (offset_low e) OR push_bit 16 (ucast (offset_high e))"

definition gate_present :: "idt_entry \<Rightarrow> bool" where
  "gate_present e \<longleftrightarrow> bit (idt_flags e) 7"

text \<open>The privilege level from which a program may raise the interrupt itself.\<close>

definition gate_dpl :: "idt_entry \<Rightarrow> u8" where
  "gate_dpl e = drop_bit 5 (idt_flags e) AND 3"

text \<open>The addresses of the five handlers.\<close>

record handlers =
  gp_fault_handler :: u32
  page_fault_handler :: u32
  timer_interrupt_handler :: u32
  keyboard_interrupt_handler :: u32
  syscall_interrupt_handler :: u32

abbreviation IDT_FLAG_INTERRUPT_GATE :: u8 where "IDT_FLAG_INTERRUPT_GATE \<equiv> 0x8E"
abbreviation IDT_FLAG_USER_INTERRUPT_GATE :: u8 where "IDT_FLAG_USER_INTERRUPT_GATE \<equiv> 0xEE"

definition pic_remap :: port_writes where
  "pic_remap = [(0x20, 0x11), (0xA0, 0x11), (0x21, 0x20), (0xA1, 0x28), (0x21, 0x04), (0xA1, 0x02),
     (0x21, 0x01), (0xA1, 0x01), (0x21, 0xFC), (0xA1, 0xFF)]"

definition idt_load :: "handlers \<Rightarrow> idt_entry list \<Rightarrow> (idt_entry list \<times> port_writes) kres" where
  "idt_load h idt =
     kbind (idt_write_entry 0x0D (gp_fault_handler h) 0x08 IDT_FLAG_INTERRUPT_GATE idt) (\<lambda>idt.
     kbind (idt_write_entry 0x0E (page_fault_handler h) 0x08 IDT_FLAG_INTERRUPT_GATE idt) (\<lambda>idt.
     kbind (idt_write_entry 0x20 (timer_interrupt_handler h) 0x08 IDT_FLAG_INTERRUPT_GATE idt) (\<lambda>idt.
     kbind (idt_write_entry 0x21 (keyboard_interrupt_handler h) 0x08 IDT_FLAG_INTERRUPT_GATE idt) (\<lambda>idt.
     kbind (idt_write_entry 0x80 (syscall_interrupt_handler h) 0x08 IDT_FLAG_USER_INTERRUPT_GATE idt) (\<lambda>idt.
       Inr (idt, pic_remap))))))"

section \<open>Round trips\<close>

lemma byte_masks: "(0xFF :: u32) = mask 8" "(0xFFFF :: u32) = mask 16" "(0x0F :: u32) = mask 4" "(0x0F :: u8) = mask 4"
  by (simp_all add: mask_eq_exp_minus_1)

lemma bit_less_exp:
  fixes w :: "'a :: len word"
  assumes "w < push_bit k 1" "bit w n"
  shows "n < k"
proof (rule ccontr)
  assume "\<not> n < k"
  then have "bit (drop_bit k w) (n - k)" using assms(2) by (simp add: bit_simps)
  moreover have "drop_bit k w = 0" using assms(1) by (simp add: drop_bit_eq_div div_word_less)
  ultimately show False by simp
qed

lemma join_bytes4:
  fixes w :: u32
  shows "ucast (ucast (w AND 0xFF) :: u8) OR push_bit 8 (ucast (ucast (drop_bit 8 w AND 0xFF) :: u8)) OR
    push_bit 16 (ucast (ucast (drop_bit 16 w AND 0xFF) :: u8)) OR push_bit 24 (ucast (ucast (drop_bit 24 w AND 0xFF) :: u8)) = w"
    (is "?l = w")
proof (rule bit_word_eqI)
  fix n :: nat
  consider "n < 8" | "8 \<le> n" "n < 16" | "16 \<le> n" "n < 24" | "24 \<le> n" by linarith
  then show "n < LENGTH(32) \<Longrightarrow> bit ?l n = bit w n"
    unfolding byte_masks by cases (auto simp: bit_simps)
qed

lemma join_limit:
  fixes w :: u32
  assumes "w < 0x100000"
  shows "ucast (ucast (w AND 0xFF) :: u8) OR push_bit 8 (ucast (ucast (drop_bit 8 w AND 0xFF) :: u8)) OR
    push_bit 16 (ucast ((ucast (drop_bit 16 w AND 0x0F) OR push_bit 4 f) AND 0x0F :: u8)) = w"
    (is "?l = w")
proof (rule bit_word_eqI)
  fix n :: nat
  have top: "bit w n \<Longrightarrow> n < 20" using assms by (intro bit_less_exp [of w 20]) simp_all
  consider "n < 8" | "8 \<le> n" "n < 16" | "16 \<le> n" "n < 20" | "20 \<le> n" by linarith
  then show "n < LENGTH(32) \<Longrightarrow> bit ?l n = bit w n"
    using top unfolding byte_masks by cases (auto simp: bit_simps)
qed

lemma high_nibble:
  fixes w :: u32 and f :: u8
  assumes "f < 16"
  shows "drop_bit 4 (ucast (drop_bit 16 w AND 0x0F)) OR drop_bit 4 (push_bit 4 f) = f"
proof -
  have "bit f n \<Longrightarrow> n < 4" for n using assms by (intro bit_less_exp [of f 4]) simp_all
  then show ?thesis unfolding byte_masks by (intro bit_word_eqI) (auto simp: bit_simps)
qed

lemma gate_offset_join: "ucast (ucast (w AND 0xFFFF) :: u16) OR push_bit 16 (ucast (ucast (drop_bit 16 w AND 0xFFFF) :: u16)) = (w :: u32)"
  unfolding byte_masks by (rule bit_word_eqI) (auto simp: bit_simps)

lemma gdt_write_entry_Inr:
  assumes "i < length t" "length (t ! i) = 8"
  shows "\<exists>t'. gdt_write_entry i base limit access flags t = Inr t' \<and> t' = t[i := t' ! i] \<and> length (t' ! i) = 8 \<and>
    seg_base (t' ! i) = base \<and> seg_access (t' ! i) = access \<and>
    (limit < 0x100000 \<longrightarrow> seg_limit (t' ! i) = limit) \<and> (flags < 16 \<longrightarrow> seg_flags (t' ! i) = flags)"
  using assms
  by (auto simp: gdt_write_entry_def Let_def seg_base_def seg_access_def seg_limit_def seg_flags_def
      join_bytes4 join_limit high_nibble)

text \<open>
  Writing a segment descriptor and an interrupt gate encodes exactly the given values in the
  processor's format: the processor's decoding of the descriptor gives back base, limit, access byte
  and flags (for a limit of 20 and flags of 4 bits), that of the gate the handler's address, the
  selector and the flags, and no other descriptor or gate changes.
\<close>

theorem descriptor_roundtrip:
  assumes "i < length t" "length (t ! i) = 8" "limit < 0x100000" "flags < 16" "j < length idt"
  shows "\<exists>t' idt'. gdt_write_entry i base limit access flags t = Inr t' \<and> idt_write_entry j offset seg fl idt = Inr idt' \<and>
    seg_base (t' ! i) = base \<and> seg_limit (t' ! i) = limit \<and> seg_access (t' ! i) = access \<and> seg_flags (t' ! i) = flags \<and>
    gate_offset (idt' ! j) = offset \<and> segment (idt' ! j) = seg \<and> idt_flags (idt' ! j) = fl \<and>
    (\<forall>n. n \<noteq> i \<longrightarrow> t' ! n = t ! n) \<and> (\<forall>n. n \<noteq> j \<longrightarrow> idt' ! n = idt ! n)"
proof -
  obtain t' where t': "gdt_write_entry i base limit access flags t = Inr t'" "t' = t[i := t' ! i]"
    "seg_base (t' ! i) = base" "seg_limit (t' ! i) = limit" "seg_access (t' ! i) = access" "seg_flags (t' ! i) = flags"
    using gdt_write_entry_Inr [OF assms(1,2), of base limit access flags] assms(3,4) by blast
  have "t' ! n = t ! n" if "n \<noteq> i" for n using that t'(2) by (metis nth_list_update_neq)
  with t' assms(5) show ?thesis
    by (auto simp: idt_write_entry_def gate_offset_def gate_offset_join)
qed

theorem descriptor_roundtrip_witness:
  "\<exists>t' idt'. gdt_write_entry 1 0 0xFFFFF 0x9A 0xC (replicate 2 (replicate 8 0)) = Inr t' \<and>
    idt_write_entry 0 0xC0101234 8 0x8E [zero_gate] = Inr idt' \<and>
    seg_base (t' ! 1) = 0 \<and> seg_limit (t' ! 1) = 0xFFFFF \<and> seg_access (t' ! 1) = 0x9A \<and> seg_flags (t' ! 1) = 0xC \<and>
    gate_offset (idt' ! 0) = 0xC0101234"
proof -
  have "1 < length (replicate 2 (replicate 8 0) :: u8 list list)" "length ((replicate 2 (replicate 8 0) :: u8 list list) ! 1) = 8"
    by (simp_all add: numeral_2_eq_2)
  from descriptor_roundtrip [OF this, of "0xFFFFF" "0xC" 0 "[zero_gate]" 0 "0x9A" "0xC0101234" 8 "0x8E"]
  show ?thesis by auto
qed

section \<open>The tables after start-up\<close>

text \<open>
  After \<^verbatim>\<open>idt_load\<close> on the zeroed table the five handlers are installed as present gates on the kernel
  code segment, no other gate is present, and the only interrupt a user program may raise itself is
  0x80, the system call; the interrupt 0x20 by which a handler gives up the processor is closed to it.
\<close>

theorem idt_load_correct:
  "\<exists>idt. idt_load h (replicate IDT_LENGTH zero_gate) = Inr (idt, pic_remap) \<and> length idt = IDT_LENGTH \<and>
    map (\<lambda>n. gate_offset (idt ! n)) [0x0D, 0x0E, 0x20, 0x21, 0x80] =
      [gp_fault_handler h, page_fault_handler h, timer_interrupt_handler h, keyboard_interrupt_handler h, syscall_interrupt_handler h] \<and>
    {n. n < IDT_LENGTH \<and> gate_present (idt ! n)} = {0x0D, 0x0E, 0x20, 0x21, 0x80} \<and>
    segment ` (!) idt ` {0x0D, 0x0E, 0x20, 0x21, 0x80} = {0x08} \<and>
    {n. n < IDT_LENGTH \<and> gate_present (idt ! n) \<and> gate_dpl (idt ! n) = 3} = {0x80}"
proof -
  define z where "z = replicate IDT_LENGTH zero_gate"
  have z: "length z = 256" "\<And>n. n < 256 \<Longrightarrow> z ! n = zero_gate"
    unfolding z_def by (rule length_replicate) (rule nth_replicate)
  show ?thesis unfolding z_def [symmetric]
    using z by (auto simp: idt_load_def idt_write_entry_def gate_offset_def gate_offset_join nth_list_update
        gate_present_def gate_dpl_def zero_gate_def split: if_splits)
qed

end
