(* ===== verification/Boot.thy ===== *)
theory Boot
  imports SysStub Desc
begin

text \<open>
  Starting the kernel: \<^verbatim>\<open>kernel_main\<close> and \<^verbatim>\<open>higher_half_entry\<close> of \<^verbatim>\<open>kernel/src/main.c\<close>. The boot
  loader's information is a record of the fields the kernel uses; its memory map is read from
  physical memory, a byte memory. The loops over the map and over a region's pages end only if
  the numbers in the map let them, so they are partial functions. Reads from I/O ports return
  the values of a given sequence, writes are recorded; the waits on the keyboard controller end
  when that sequence lets them.
\<close>

section \<open>Memory from the boot loader\<close>

record multiboot_info =
  mb_flags :: u32
  mb_mem_upper :: u32
  mb_mmap_length :: u32
  mb_mmap_addr :: u32
  mb_fb_addr :: u32
  mb_fb_pitch :: u32
  mb_fb_width :: u32
  mb_fb_height :: u32
  mb_fb_bpp :: u8

record memory_map =
  mm_size :: u32
  mm_base_addr_low :: u32
  mm_length_low :: u32
  mm_type :: u32

definition read_memory_map :: "mem \<Rightarrow> u32 \<Rightarrow> memory_map" where
  "read_memory_map m a =
     \<lparr>mm_size = le32 m a, mm_base_addr_low = le32 m (a + 4), mm_length_low = le32 m (a + 12), mm_type = le32 m (a + 20)\<rparr>"

definition mark_free :: "u32 \<Rightarrow> pgalloc \<Rightarrow> pgalloc" where
  "mark_free addr pa =
     (let e = unat (addr div PGSIZE div 32)
      in pa\<lparr>page_free_map := (page_free_map pa)(e := page_free_map pa e OR push_bit (unat (addr div PGSIZE mod 32)) 1)\<rparr>)"

text \<open>
  The loop over the pages of a region up to \<open>lim\<close>; \<open>low\<close> is the address below which pages are skipped
  (4 MB with a memory map, none without). The second component counts the pages.
\<close>

partial_function (option) mark_region :: "u32 \<Rightarrow> u32 \<Rightarrow> u32 \<Rightarrow> pgalloc \<times> u32 \<Rightarrow> (pgalloc \<times> u32) option" where
  "mark_region low curr_addr lim s =
     (if curr_addr < lim then
        mark_region low (curr_addr + PGSIZE) lim (if curr_addr < low then s else (mark_free curr_addr (fst s), snd s + 1))
      else Some s)"

partial_function (option) mmap_loop :: "mem \<Rightarrow> u32 \<Rightarrow> u32 \<Rightarrow> u32 \<Rightarrow> pgalloc \<times> u32 \<Rightarrow> (pgalloc \<times> u32) option" where
  "mmap_loop m mmap_length a total_len s =
     (if total_len < mmap_length then
        (let e = read_memory_map m a; b = PAGE_ROUND_DOWN (mm_base_addr_low e)
         in (case (if mm_type e = 1 then mark_region 0x400000 b (b + mm_length_low e) s else Some s) of
               None \<Rightarrow> None
             | Some s \<Rightarrow> mmap_loop m mmap_length (a + mm_size e + 4) (total_len + (mm_size e + 4)) s))
      else Some s)"

definition boot_memory :: "mem \<Rightarrow> multiboot_info \<Rightarrow> pgalloc \<Rightarrow> (pgalloc \<times> u32) kres" where
  "boot_memory m mb pa =
     (if bit (mb_flags mb) 6 then kwait (mmap_loop m (mb_mmap_length mb) (mb_mmap_addr mb) 0 (pa, 0))
      else if bit (mb_flags mb) 0 then
        kbind (kwait (mark_region 0 0x100000 (0x100000 + mb_mem_upper mb) (pa, 0))) (\<lambda>(pa, _). Inr (pa, 0))
      else Inr (pa, 0))"

definition boot_graphics :: "multiboot_info \<Rightarrow> graphics_mode \<Rightarrow> graphics_mode" where
  "boot_graphics mb gm =
     (if bit (mb_flags mb) 12 then
        gm\<lparr>gm_type := VGA_GRAPHICS_MODE, gm_width := mb_fb_width mb, gm_height := mb_fb_height mb,
           gm_depth := ucast (mb_fb_bpp mb), gm_pitch := mb_fb_pitch mb, gm_framebuffer := mb_fb_addr mb\<rparr>
      else gm\<lparr>gm_type := VGA_TEXT_MODE\<rparr>)"

text \<open>\<^verbatim>\<open>kernel_main\<close> up to the jump to the higher half; the second result is \<^verbatim>\<open>free_pages\<close>.\<close>

definition kernel_main :: "mem \<Rightarrow> multiboot_info \<Rightarrow> kernel \<Rightarrow> (kernel \<times> u32) kres" where
  "kernel_main m mb k =
     kbind (boot_memory m mb (vpg (kvm k))) (\<lambda>(pa, free_pages).
       let gm = boot_graphics mb (gmode (kcon k))
       in kbind (paging_setup gm ((kvm k)\<lparr>vpg := pa\<rparr>)) (\<lambda>v.
            Inr (k\<lparr>kvm := v, kcon := (kcon k)\<lparr>gmode := gm\<rparr>, kcr3 := kernel_pgdir v\<rparr>, free_pages)))"

section \<open>The keyboard controller\<close>

text \<open>\<open>io_in n\<close> is the value the read number \<open>n\<close> returns.\<close>

record io =
  io_in :: "nat \<Rightarrow> u8"
  io_reads :: nat
  io_writes :: port_writes

definition inb :: "u16 \<Rightarrow> io \<Rightarrow> u8 \<times> io" where
  "inb port s = (io_in s (io_reads s), s\<lparr>io_reads := io_reads s + 1\<rparr>)"

definition outb :: "u16 \<Rightarrow> u8 \<Rightarrow> io \<Rightarrow> io" where
  "outb port val s = s\<lparr>io_writes := io_writes s @ [(port, val)]\<rparr>"

text \<open>\<^verbatim>\<open>while (inb(0x64) & b)\<close>, or its negation, with \<open>drain\<close> the read of the data port in the body.\<close>

partial_function (option) wait_io :: "u8 \<Rightarrow> bool \<Rightarrow> bool \<Rightarrow> io \<Rightarrow> io option" where
  "wait_io b while_set drain s =
     (let (v, s) = inb 0x64 s
      in if (v AND b \<noteq> 0) = while_set then wait_io b while_set drain (if drain then snd (inb 0x60 s) else s) else Some s)"

definition wait_ready :: "io \<Rightarrow> io kres" where
  "wait_ready s = kwait (wait_io 2 True False s)"

definition ps2_command :: "u8 \<Rightarrow> io \<Rightarrow> io kres" where
  "ps2_command c s = wait_ready (outb 0x64 c s)"

definition ps2_query :: "u8 \<Rightarrow> io \<Rightarrow> (u8 \<times> io) kres" where
  "ps2_query c s = kbind (kwait (wait_io 1 False False (outb 0x64 c s))) (\<lambda>s. Inr (inb 0x60 s))"

definition ps2_set_config :: "u8 \<Rightarrow> io \<Rightarrow> io kres" where
  "ps2_set_config config s = kbind (ps2_command 0x60 s) (\<lambda>s. wait_ready (outb 0x60 config s))"

definition ps2_setup :: "io \<times> console \<Rightarrow> (io \<times> console) kres" where
  "ps2_setup = (\<lambda>(s, con).
     kbind (ps2_command 0xAD s) (\<lambda>s.
     kbind (ps2_command 0xA7 s) (\<lambda>s.
     kbind (kwait (wait_io 1 True True s)) (\<lambda>s.
     kbind (ps2_query 0x20 s) (\<lambda>(config, s).
     kbind (kprintf (bytes_of ''Initial PS/2 config byte is %x'' @ [10]) [KNum (ucast config)] con) (\<lambda>con.
       let config = config AND 0xAE
       in kbind (ps2_set_config config s) (\<lambda>s.
          kbind (ps2_query 0xAA s) (\<lambda>(self_test_res, s).
            if self_test_res \<noteq> 0x55 then Inl Panic
            else
              kbind (ps2_set_config config s) (\<lambda>s.
              kbind (ps2_command 0xAE s) (\<lambda>s.
              kbind (ps2_command 0xA8 s) (\<lambda>s.
                let config = config OR 0x41
                in kbind (ps2_set_config config s) (\<lambda>s.
                   kbind (kprintf (bytes_of ''Modified PS/2 config byte is %x'' @ [10]) [KNum (ucast config)] con) (\<lambda>con.
                     Inr (s, con))))))))))))))"

section \<open>The higher half\<close>

text \<open>The greeting; a percent sign stands for a backslash in the literals.\<close>

definition banner :: "u8 list" where
  "banner =
     concat (map (\<lambda>l. map (\<lambda>c. if c = 37 then 92 else c) (bytes_of l) @ [10])
       [''////////                      //               ///   /////         |    '',
        ''////////                     ///                       ///       % | *  '',
        ''///       //////  ///  /// ////////  //////  //////    ///      % %|* * '',
        ''//////// ///   //  // ///    ///    //    //   ///     ///       % | *  '',
        ''//////// //    //   ////     ///      //////   ///     ///      % %|* * '',
        ''///      //    //   ////     ///    ////  //   ///     ///       % | *  '',
        ''///      //   ///  /// //    /// // //   ///   ///     ///        %|*   '',
        ''///       //////  ///  ///    ////   //////  /////// ///////       |    '', '''', '''',
        ''Welcome! Try `ls` to get started.''])"

text \<open>The first two processes: the idle process and the shell.\<close>

definition start_processes :: "u32 \<Rightarrow> kernel \<Rightarrow> kernel kres" where
  "start_processes idle_kernel_stack k =
     kbind (alloc_proc (kpt k)) (\<lambda>(idle, pt).
     kbind (upd_proc idle (\<lambda>p. p\<lparr>pname := bytes_of ''idle'', cr3 := kernel_pgdir (kvm k), status := RUNNABLE,
              kernel_sp := idle_kernel_stack + 2 * PGSIZE\<rparr>) (k\<lparr>kpt := pt\<rparr>)) (\<lambda>k.
     kbind (get_inode_by_path (kfs k) (Some get_root_inode) (bytes_of ''bin/sh'')) (\<lambda>sh.
       case sh of None \<Rightarrow> Inl Panic
       | Some sh \<Rightarrow>
           kbind (exec_helper sh 0 0 0 0 k) (\<lambda>(new, k).
           kbind (kderef new) (\<lambda>new.
           kbind (get_proc new k) (\<lambda>p.
             Inr (k\<lparr>kpt := (kpt k)\<lparr>sh_proc_pid := pid p\<rparr>\<rparr>)))))))"

record boot_env =
  be_gdt_addr :: u32
  be_tss_addr :: u32
  be_handlers :: handlers
  be_idle_stack :: u32

definition higher_half_entry ::
  "boot_env \<Rightarrow> gdt_state \<times> idt_entry list \<times> io \<times> kernel \<Rightarrow> (gdt_state \<times> idt_entry list \<times> io \<times> kernel) kres" where
  "higher_half_entry be = (\<lambda>(g, idt, s, k).
     let v = kvm k; k = k\<lparr>kvm := v\<lparr>pmem := (pmem v)(kernel_pgdir v := 0)\<rparr>\<rparr>
     in kbind (gdt_load (be_gdt_addr be) (be_tss_addr be) g) (\<lambda>g.
        kbind (vga_clear (vga_init (kcon k))) (\<lambda>con.
        kbind (ps2_setup (s, con)) (\<lambda>(s, con).
        kbind (idt_load (be_handlers be) idt) (\<lambda>(idt, pw).
        kbind (kprint banner con) (\<lambda>con.
        kbind (start_processes (be_idle_stack be) (k\<lparr>kcon := con, kports := kports k @ io_writes s @ pw\<rparr>)) (\<lambda>k.
          Inr (g, idt, s, k))))))))"

end
