(* ===== verification/KInv.thy ===== *)
theory KInv
  imports FsInv SysSpec Boot
begin

text \<open>
  An invariant of the whole kernel: the tables have the sizes of the source, and every reference
  held in them, from a descriptor to an inode or a pipe, from a process to its working directory, its parent or what
  it waits for, and from an inode to its parent, stays inside the table it refers to. Every system call,
  interrupt and fault handler keeps it (\<open>kpost_rules\<close>), so it holds in every state the system can reach from
  boot.
\<close>

section \<open>The invariant\<close>

definition fd_ok :: "fd \<Rightarrow> bool" where
  "fd_ok f \<longleftrightarrow>
     (fstatus f = FD_REGULAR_FILE \<or> fstatus f = FD_REGULAR_DIRECTORY \<longrightarrow> (\<exists>i < NUM_INODES. fdata f = DFile (Some i))) \<and>
     (fstatus f = FD_PIPE \<longrightarrow> (\<exists>i. fdata f = DPipe i \<and> unat i < NUM_PIPE_BUFS))"

definition proc_ok :: "proc \<Rightarrow> bool" where
  "proc_ok p \<longleftrightarrow> length (fds p) = 16 \<and> (\<forall>f \<in> set (fds p). fd_ok f) \<and> ref_ok (cwd p) \<and> unat (parent_idx p) < MAX_PROCS \<and>
     (status p = WAITING_ON_PID \<longrightarrow> unat (waiting_on p) < MAX_PROCS) \<and>
     (status p = WAITING_ON_PIPE \<longrightarrow> unat (waiting_on p) < NUM_PIPE_BUFS)"

definition table_ok :: "ptab \<Rightarrow> bool" where
  "table_ok pt \<longleftrightarrow> length (ptable pt) = MAX_PROCS \<and> unat (scheduler_proc_index pt) < MAX_PROCS \<and>
     (\<forall>p \<in> set (ptable pt). proc_ok p)"

definition pipes_ok :: "pipe_data list \<Rightarrow> u8 list list \<Rightarrow> bool" where
  "pipes_ok ds bs \<longleftrightarrow> length ds = NUM_PIPE_BUFS \<and> length bs = NUM_PIPE_BUFS \<and> (\<forall>b \<in> set bs. length b = 16384)"

definition ring_ok :: "tty_data \<Rightarrow> bool" where
  "ring_ok t \<longleftrightarrow> length (input_buffer t) = 1024 \<and> unat (tread_ptr t) < 1024 \<and> unat (twrite_ptr t) < 1024 \<and>
     unat (tinternal_write_ptr t) < 1024"

definition kernel_inv :: "kernel \<Rightarrow> bool" where
  "kernel_inv k \<longleftrightarrow> table_ok (kpt k) \<and> fs_inv (kfs k) \<and> pipes_ok (kpipes k) (kpipe_bufs k) \<and> ring_ok (ktty k)"

lemma kernel_inv_simps [simp]:
  "kernel_inv (k\<lparr>kcon := con\<rparr>) = kernel_inv k" "kernel_inv (k\<lparr>kvm := v\<rparr>) = kernel_inv k"
  "kernel_inv (k\<lparr>kumem := um\<rparr>) = kernel_inv k" "kernel_inv (k\<lparr>kelf := e\<rparr>) = kernel_inv k"
  "kernel_inv (k\<lparr>kargbuf := ab\<rparr>) = kernel_inv k" "kernel_inv (k\<lparr>kcr3 := c\<rparr>) = kernel_inv k"
  "kernel_inv (k\<lparr>kesp0 := u\<rparr>) = kernel_inv k" "kernel_inv (k\<lparr>kticks := n\<rparr>) = kernel_inv k"
  "kernel_inv (k\<lparr>kports := ps\<rparr>) = kernel_inv k" "kernel_inv (set_cur_mem m k) = kernel_inv k"
  by (simp_all add: kernel_inv_def set_cur_mem_def)

lemma kernel_inv_upd [simp]:
  assumes "kernel_inv k"
  shows "fs_inv fs \<Longrightarrow> kernel_inv (k\<lparr>kfs := fs\<rparr>)" "ring_ok t \<Longrightarrow> kernel_inv (k\<lparr>ktty := t\<rparr>)" "table_ok pt \<Longrightarrow> kernel_inv (k\<lparr>kpt := pt\<rparr>)"
    "pipes_ok ds bs \<Longrightarrow> kernel_inv (k\<lparr>kpipes := ds, kpipe_bufs := bs\<rparr>)" "length ds = NUM_PIPE_BUFS \<Longrightarrow> kernel_inv (k\<lparr>kpipes := ds\<rparr>)"
  using assms by (simp_all add: kernel_inv_def pipes_ok_def)

lemma kernel_inv_parts [simp]:
  assumes "kernel_inv k"
  shows "table_ok (kpt k)" "fs_inv (kfs k)" "pipes_ok (kpipes k) (kpipe_bufs k)" "ring_ok (ktty k)"
  using assms by (simp_all add: kernel_inv_def)

lemma proc_ok_fd [simp]: "proc_ok p \<Longrightarrow> i < length (fds p) \<Longrightarrow> fd_ok (fds p ! i)"
  by (simp add: proc_ok_def)

lemma proc_ok_parts: "proc_ok p \<Longrightarrow> length (fds p) = 16" "proc_ok p \<Longrightarrow> ref_ok (cwd p)"
  by (simp_all add: proc_ok_def)

lemma proc_ok_upd_fd:
  assumes "proc_ok p" "fd_ok (f (fds p ! i))"
  shows "proc_ok (upd_fd i f p)"
  using assms by (auto simp: proc_ok_def upd_fd_def dest!: set_update_subset_insert [THEN subsetD])

lemma zero_proc_ok [simp]: "proc_ok (zero_proc\<lparr>pid := n\<rparr>)" "proc_ok zero_proc"
  by (simp_all add: proc_ok_def zero_proc_def fd_ok_def zero_fd_def)

section \<open>Access to components\<close>

lemma kpost_get_proc [kpost_rules]:
  assumes "kernel_inv k" "\<And>p. i < MAX_PROCS \<Longrightarrow> proc_ok p \<Longrightarrow> Q p"
  shows "kpost (get_proc i k) Q"
  using kernel_inv_parts(1) [OF assms(1)] unfolding get_proc_def by (intro kpost_rules assms(2)) (auto simp: table_ok_def)

lemma kpost_cur_proc [kpost_rules]:
  "kernel_inv k \<Longrightarrow> (\<And>p. proc_ok p \<Longrightarrow> Q p) \<Longrightarrow> kpost (cur_proc k) Q"
  unfolding cur_proc_def by (rule kpost_get_proc)

lemma kpost_upd_proc [kpost_rules]:
  assumes "kernel_inv k" "\<And>p. proc_ok p \<Longrightarrow> proc_ok (f p)" "\<And>k'. kernel_inv k' \<Longrightarrow> Q k'"
  shows "kpost (upd_proc i f k) Q"
  using kernel_inv_parts(1) [OF assms(1)] assms(2) unfolding upd_proc_def
  by (intro kpost_rules assms(3) kernel_inv_upd(3) [OF assms(1)])
    (auto simp: table_ok_def dest!: set_update_subset_insert [THEN subsetD])

lemma kpost_upd_cur [kpost_rules]:
  "kernel_inv k \<Longrightarrow> (\<And>p. proc_ok p \<Longrightarrow> proc_ok (f p)) \<Longrightarrow> (\<And>k'. kernel_inv k' \<Longrightarrow> Q k') \<Longrightarrow> kpost (upd_cur f k) Q"
  unfolding upd_cur_def by (rule kpost_upd_proc)

lemma kpost_upd_pipe [kpost_rules]:
  assumes "kernel_inv k" "\<And>k'. kernel_inv k' \<Longrightarrow> Q k'"
  shows "kpost (upd_pipe i f k) Q"
  using kernel_inv_parts(3) [OF assms(1)] assms(1) unfolding upd_pipe_def
  by (intro kpost_rules assms(2)) (simp add: pipes_ok_def)

lemma kpost_get_inode [kpost_rules]:
  assumes "kernel_inv k" "\<And>x. i < NUM_INODES \<Longrightarrow> inode_ok x \<Longrightarrow> Q x"
  shows "kpost (get_inode i k) Q"
  using assms(1) fs_inv_length [of "kfs k"] unfolding get_inode_def by (intro kpost_rules assms(2)) auto

lemma kpost_fd_file [kpost_rules]: "(\<And>i. fdata f = DFile (Some i) \<Longrightarrow> Q i) \<Longrightarrow> kpost (fd_file f) Q"
  by (auto simp: fd_file_def kpost_def kres_simps split: fd_data.splits)

lemma kpost_fd_pipe [kpost_rules]: "(\<And>i. fdata f = DPipe i \<Longrightarrow> Q i) \<Longrightarrow> kpost (fd_pipe f) Q"
  by (auto simp: fd_pipe_def kpost_def split: fd_data.splits)

lemma kpost_user_str [kpost_rules]: "(\<And>s. Q s) \<Longrightarrow> kpost (user_str a k) Q"
  by (simp add: kpost_def)

lemma kpost_kprintf [kpost_rules]: "(\<And>con. Q con) \<Longrightarrow> kpost (kprintf fmt args c) Q"
  by (simp add: kpost_def)

lemma kpost_path_helper [kpost_rules]: "(\<And>r m. Q (r, m)) \<Longrightarrow> kpost (path_helper fs i buf n m0) Q"
  by (simp add: kpost_def split_paired_all)

lemma kpost_user_put32 [kpost_rules]:
  assumes "kernel_inv k" "\<And>k'. kernel_inv k' \<Longrightarrow> Q k'"
  shows "kpost (user_put32 a w k) Q"
  using assms(1) unfolding user_put32_def by (intro kpost_rules assms(2)) simp

lemma kpost_lookup_user_path [kpost_rules]:
  assumes "kernel_inv k" "\<And>r. ref_ok r \<Longrightarrow> Q r"
  shows "kpost (lookup_user_path a k) Q"
  using assms(1) unfolding lookup_user_path_def by (intro kpost_rules assms(2)) (simp_all add: proc_ok_parts)

lemma kpost_k_acquire [kpost_rules]:
  assumes "kernel_inv k" "\<And>k'. kernel_inv k' \<Longrightarrow> Q k'"
  shows "kpost (k_acquire i k) Q"
  using assms(1) unfolding k_acquire_def by (intro kpost_rules assms(2)) simp_all

lemma kpost_k_release [kpost_rules]:
  assumes "kernel_inv k" "\<And>k'. kernel_inv k' \<Longrightarrow> Q k'"
  shows "kpost (k_release i k) Q"
  using assms(1) unfolding k_release_def by (intro kpost_rules assms(2)) auto

lemma proc_ok_in: "proc_ok p \<Longrightarrow> f \<in> set (fds p) \<Longrightarrow> fd_ok f"
  by (simp add: proc_ok_def)

lemma kpost_close_fd_refs [kpost_rules]:
  assumes "kernel_inv k" "\<And>k'. kernel_inv k' \<Longrightarrow> Q k'"
  shows "kpost (close_fd_refs f k) Q"
  using assms(1) unfolding close_fd_refs_def by (intro kpost_rules assms(2))

lemma kpost_cleanup_pages [kpost_rules]: "(\<And>v. Q v) \<Longrightarrow> kpost (cleanup_pages pgdir v0) Q"
  by (simp add: kpost_def)

lemma proc_ok_simps [simp]:
  "proc_ok (p\<lparr>exit_code := e\<rparr>) = proc_ok p" "proc_ok (p\<lparr>present := b\<rparr>) = proc_ok p" "proc_ok (p\<lparr>brk := w\<rparr>) = proc_ok p"
  "proc_ok (p\<lparr>pname := nm\<rparr>) = proc_ok p" "proc_ok (p\<lparr>kernel_sp := w\<rparr>) = proc_ok p" "proc_ok (p\<lparr>kernel_bp := w\<rparr>) = proc_ok p"
  "proc_ok (p\<lparr>kernel_stack := w\<rparr>) = proc_ok p" "proc_ok (p\<lparr>cr3 := w\<rparr>) = proc_ok p" "proc_ok (p\<lparr>eflags := w\<rparr>) = proc_ok p"
  "proc_ok (p\<lparr>entry := w\<rparr>) = proc_ok p" "proc_ok (p\<lparr>parent_pid := w\<rparr>) = proc_ok p"
  by (simp_all add: proc_ok_def)

lemma proc_ok_upd:
  "proc_ok p \<Longrightarrow> st \<noteq> WAITING_ON_PID \<Longrightarrow> st \<noteq> WAITING_ON_PIPE \<Longrightarrow> proc_ok (p\<lparr>status := st\<rparr>)"
  "proc_ok p \<Longrightarrow> ref_ok r \<Longrightarrow> proc_ok (p\<lparr>cwd := r\<rparr>)"
  "proc_ok p \<Longrightarrow> unat i < MAX_PROCS \<Longrightarrow> proc_ok (p\<lparr>parent_idx := i\<rparr>)"
  "proc_ok p \<Longrightarrow> unat i < NUM_PIPE_BUFS \<Longrightarrow> proc_ok (p\<lparr>status := st, waiting_on := i\<rparr>)"
  "proc_ok p \<Longrightarrow> unat i < MAX_PROCS \<Longrightarrow> proc_ok (p\<lparr>status := WAITING_ON_PID, waiting_on := i\<rparr>)"
  "proc_ok p \<Longrightarrow> length fs = 16 \<Longrightarrow> \<forall>f \<in> set fs. fd_ok f \<Longrightarrow> proc_ok (p\<lparr>fds := fs\<rparr>)"
  by (auto simp: proc_ok_def)

lemma kpost_cleanup_proc [kpost_rules]:
  assumes "kernel_inv k" "\<And>k'. kernel_inv k' \<Longrightarrow> Q k'"
  shows "kpost (cleanup_proc i k) Q"
  using assms(1) unfolding cleanup_proc_def
  by (intro kpost_rules kpost_kfold [where P = kernel_inv] assms(2)) (simp_all add: proc_ok_upd)

section \<open>Creating processes\<close>

lemma kpost_map [kpost_rules]:
  "(\<And>s. Q1 s) \<Longrightarrow> kpost (map_segments prog k s0) Q1"
  "(\<And>t d v. Q2 (t, d, v)) \<Longrightarrow> kpost (map_stacks s1) Q2"
  "(\<And>n. Q3 n) \<Longrightarrow> kpost (total_argv_len argc argv k) Q3"
  "(\<And>d v. Q4 (d, v)) \<Longrightarrow> kpost (install_pgdir s2) Q4"
  "(\<And>b v. Q5 (b, v)) \<Longrightarrow> kpost (sbrk_helper d b0 n0 v0) Q5"
  "(\<And>m. Q6 m) \<Longrightarrow> kpost (load_image prog n1 k m1) Q6"
  "(\<And>s. Q7 s) \<Longrightarrow> kpost (user_arg argv i k) Q7"
  by (simp_all add: kpost_def split_paired_all)

lemma pack_args_inv: "kernel_inv k \<Longrightarrow> kpost (pack_args argc argv i dst k) (\<lambda>(n, k). kernel_inv k)"
proof (induction "unat argc - i" arbitrary: i dst k)
  case 0
  then show ?case by (subst pack_args.simps) (simp add: kpost_Inr)
next
  case (Suc d)
  then have lt: "i < unat argc" and d: "d = unat argc - (i + 1)" by simp_all
  show ?case
    by (subst pack_args.simps, simp only: lt if_True, intro kpost_rules Suc(1) [OF d]) (simp_all add: Suc.prems)
qed

lemma kpost_pack_args [kpost_rules]:
  "kernel_inv k \<Longrightarrow> (\<And>n k'. kernel_inv k' \<Longrightarrow> Q (n, k')) \<Longrightarrow> kpost (pack_args argc argv i dst k) Q"
  by (rule kpost_mono [OF pack_args_inv]) auto

lemma kpost_alloc_proc [kpost_rules]:
  assumes "table_ok pt" "\<And>i pt'. table_ok pt' \<Longrightarrow> Q (i, pt')"
  shows "kpost (alloc_proc pt) Q"
  using assms(1) unfolding alloc_proc_def
  by (intro kpost_rules assms(2)) (auto simp: table_ok_def dest!: set_update_subset_insert [THEN subsetD])

lemma kpost_read_elf_header [kpost_rules]:
  assumes "kernel_inv k" "\<And>k'. kernel_inv k' \<Longrightarrow> Q k'"
  shows "kpost (read_elf_header prog k) Q"
  using assms(1) unfolding read_elf_header_def by (intro kpost_rules assms(2)) auto

lemma kpost_dup_fd_refs [kpost_rules]:
  assumes "kernel_inv k" "\<And>k'. kernel_inv k' \<Longrightarrow> Q k'"
  shows "kpost (dup_fd_refs f k) Q"
  using assms(1) unfolding dup_fd_refs_def by (intro kpost_rules assms(2))

lemma kpost_custom_command [kpost_rules]:
  assumes "kernel_inv k" "\<And>k'. kernel_inv k' \<Longrightarrow> Q k'"
  shows "kpost (custom_command commands new i k) Q"
  using assms(1) unfolding custom_command_def
  by (intro kpost_rules assms(2)) (auto simp: proc_ok_parts proc_ok_in intro!: proc_ok_upd dest!: set_update_subset_insert [THEN subsetD])

lemma std_fds_ok: "proc_ok p \<Longrightarrow> length (std_fds (fds p)) = 16 \<and> (\<forall>f \<in> set (std_fds (fds p)). fd_ok f)"
  by (auto simp: std_fds_def fd_ok_def proc_ok_parts Let_def)

lemma kpost_exec_helper [kpost_rules]:
  assumes "kernel_inv k" "\<And>r k'. kernel_inv k' \<Longrightarrow> Q (r, k')"
  shows "kpost (exec_helper prog argc argv n cmds k) Q"
  using assms(1) unfolding exec_helper_def
  by (intro kpost_rules kpost_kfold [where P = kernel_inv] assms(2))
    (simp_all add: proc_ok_upd std_fds_ok get_root_inode_def get_inode_at_idx_def)

section \<open>The scheduler and the interrupts\<close>

lemma kernel_inv_index [simp]: "kernel_inv k \<Longrightarrow> i < MAX_PROCS \<Longrightarrow> kernel_inv (set_index i k)"
  using kernel_inv_parts(1) [of k] unfolding set_index_def by (intro kernel_inv_upd(3)) (simp_all add: table_ok_def)

lemma kernel_inv_sh_pid [simp]: "kernel_inv k \<Longrightarrow> kernel_inv (k\<lparr>kpt := (kpt k)\<lparr>sh_proc_pid := n\<rparr>\<rparr>)"
  using kernel_inv_parts(1) [of k] by (intro kernel_inv_upd(3)) (simp_all add: table_ok_def)

lemma kpost_wake [kpost_rules]:
  assumes "kernel_inv k" "i < MAX_PROCS" "\<And>b k'. kernel_inv k' \<Longrightarrow> Q (b, k')"
  shows "kpost (wake i k) Q"
  using assms(1,2) unfolding wake_def by (intro kpost_rules assms(3)) (simp_all add: proc_ok_upd)

lemma kpost_respawn_shell [kpost_rules]:
  assumes "kernel_inv k" "\<And>k'. kernel_inv k' \<Longrightarrow> Q k'"
  shows "kpost (respawn_shell k) Q"
  using assms(1) unfolding respawn_shell_def by (intro kpost_rules assms(2)) (simp_all add: get_root_inode_def get_inode_at_idx_def)

lemma kpost_reap [kpost_rules]:
  assumes "kernel_inv k" "\<And>k'. kernel_inv k' \<Longrightarrow> Q k'"
  shows "kpost (reap i k) Q"
  using assms(1) unfolding reap_def by (intro kpost_rules assms(2)) (simp_all add: proc_ok_upd)


lemma sched_visit_inv: "kernel_inv k \<Longrightarrow> kpost (sched_visit i k) (\<lambda>(b, k). kernel_inv k)"
  unfolding sched_visit_def
  by (rule kpost_bind, rule kpost_get_proc)
    (auto intro!: kpost_rules simp: proc_ok_upd split: proc_status.split)

lemma sched_loop_inv: "kernel_inv k \<Longrightarrow> kpost (sched_loop n i k) kernel_inv"
proof (induction n arbitrary: i k)
  case (Suc n)
  show ?case unfolding sched_loop.simps
    by (intro kpost_rules kpost_mono [OF sched_visit_inv [OF Suc.prems]]) (auto intro!: kpost_rules Suc.IH)
qed (simp add: kpost_Inl)

lemma kpost_scheduler [kpost_rules]: "kernel_inv k \<Longrightarrow> (\<And>k'. kernel_inv k' \<Longrightarrow> Q k') \<Longrightarrow> kpost (scheduler k) Q"
  unfolding scheduler_def by (rule kpost_mono [OF sched_loop_inv])

lemma kpost_timer_interrupt [kpost_rules]:
  assumes "kernel_inv k" "\<And>k'. kernel_inv k' \<Longrightarrow> Q k'"
  shows "kpost (timer_interrupt sp bp k) Q"
  using assms(1) unfolding timer_interrupt_def timer_interrupt_handler_inner_def set_curr_proc_runnable_def
  by (intro kpost_rules assms(2)) (simp_all add: proc_ok_upd)

lemma kpost_kill_current [kpost_rules]:
  assumes "kernel_inv k" "\<And>k'. kernel_inv k' \<Longrightarrow> Q k'"
  shows "kpost (kill_current why args k) Q"
  using assms(1) unfolding kill_current_def by (intro kpost_rules assms(2)) simp_all

lemma kpost_faults [kpost_rules]:
  assumes "kernel_inv k" "\<And>k'. kernel_inv k' \<Longrightarrow> Q k'"
  shows "kpost (gp_fault_handler_inner cs k) Q" "kpost (page_fault_handler_inner ec fa ip k) Q"
  using assms(1) unfolding gp_fault_handler_inner_def page_fault_handler_inner_def by (intro kpost_rules assms(2); simp)+

section \<open>The terminal and the pipes\<close>

lemma read_loop_keeps:
  assumes "P s" "\<And>s. P s \<Longrightarrow> kpost (pop s) (\<lambda>(b, s). P s)"
  shows "kpost (read_loop e pop buf target count (s, m)) (\<lambda>(n, s, m). P s)"
  using assms(1)
proof (induction "unat target - unat count" arbitrary: count s m)
  case 0
  then have "\<not> count < target" by (simp add: word_less_nat_alt)
  with 0 show ?case by (subst read_loop.simps) (simp add: kpost_Inr)
next
  case (Suc d)
  then have lt: "count < target" by (simp add: word_less_nat_alt)
  then have d: "d = unat target - unat (count + 1)" using Suc(2) by unat_arith
  show ?case
    by (subst read_loop.simps, simp only: lt if_True fst_conv snd_conv,
        intro kpost_rules kpost_mono [OF assms(2) [OF Suc.prems]]) (auto intro!: Suc.prems kpost_rules Suc(1) [OF d])
qed

lemma unat_mod_ring: "unat (w mod (1024 :: u32)) < 1024"
  by (simp add: unat_mod)

lemma kpost_tty_push [kpost_rules]:
  assumes "ring_ok t" "\<And>t'. ring_ok t' \<Longrightarrow> Q t'"
  shows "kpost (tty_push c t) Q"
  using assms(1) unfolding tty_push_def by (intro kpost_rules assms(2)) (simp add: ring_ok_def unat_mod_ring)

lemma tty_pop_ring: "ring_ok t \<Longrightarrow> kpost (tty_pop t) (\<lambda>(c, t). ring_ok t)"
  unfolding tty_pop_def by (intro kpost_rules) (simp add: ring_ok_def unat_mod_ring)

lemma kpost_kprint_char [kpost_rules]: "(\<And>con. Q con) \<Longrightarrow> kpost (kprint_char c con0) Q"
  by (simp add: kpost_def)

lemma kpost_char_event [kpost_rules]:
  assumes "ring_ok t" "\<And>t' con'. ring_ok t' \<Longrightarrow> Q (t', con')"
  shows "kpost (char_event c (t, con)) Q"
  using assms(1) unfolding char_event_def prod.case by (intro kpost_rules assms(2)) (simp_all add: ring_ok_def unat_mod_ring)

lemma kpost_keyboard [kpost_rules]:
  assumes "ring_ok t" "\<And>t' con' pw. ring_ok t' \<Longrightarrow> Q ((t', con'), pw)"
  shows "kpost (keyboard_interrupt_handler_inner st sc (t, con)) Q"
  using assms(1) unfolding keyboard_interrupt_handler_inner_def prod.case scancode_event_def
  by (intro kpost_rules kpost_mono [where P = "\<lambda>(t, con). ring_ok t"])
    (auto simp: ring_ok_def unat_mod_ring shift_event_def key_char_def intro!: kpost_rules assms(2))

lemma pipe_write_loop_length:
  "kpost (pipe_write_loop m buf n i v (d, b)) (\<lambda>(v, d', b'). length b' = length b)"
proof (induction "unat n - unat i" arbitrary: i d b)
  case 0
  then have "\<not> i < n" by (simp add: word_less_nat_alt)
  with 0 show ?case by (subst pipe_write_loop.simps) (simp add: kpost_Inr)
next
  case (Suc k)
  then have lt: "i < n" by (simp add: word_less_nat_alt)
  then have k: "k = unat n - unat (i + 1)" using Suc(2) by unat_arith
  show ?case
    by (subst pipe_write_loop.simps, simp only: lt if_True prod.case Let_def,
        intro kpost_rules kpost_mono [OF Suc(1) [OF k]]) auto
qed

lemma pipe_pop_length: "length (snd p) = n \<Longrightarrow> kpost (pipe_pop p) (\<lambda>(c, p). length (snd p) = n)"
  unfolding pipe_pop_def by (intro kpost_rules) auto

lemma kernel_inv_set_pipe: "kernel_inv k \<Longrightarrow> length (snd p) = 16384 \<Longrightarrow> kernel_inv (set_pipe i p k)"
  using kernel_inv_parts(3) [of k] unfolding set_pipe_def
  by (intro kernel_inv_upd(4)) (auto simp: pipes_ok_def dest!: set_update_subset_insert [THEN subsetD])

lemma kpost_get_pipe [kpost_rules]:
  assumes "kernel_inv k" "\<And>d b. length b = 16384 \<Longrightarrow> Q (d, b)"
  shows "kpost (get_pipe i k) Q"
  using kernel_inv_parts(3) [OF assms(1)] unfolding get_pipe_def
  by (intro kpost_rules assms(2)) (simp add: pipes_ok_def)

section \<open>The system calls\<close>

abbreviation inv_post :: "bool \<times> syscall_registers \<times> kernel \<Rightarrow> bool" where
  "inv_post \<equiv> \<lambda>(b, s, k). kernel_inv k"

lemma kpost_ret [kpost_rules]: "kernel_inv k \<Longrightarrow> kpost (ret v s k) inv_post"
  by (simp add: ret_def kpost_Inr)

lemma kpost_done [kpost_rules]: "kernel_inv k \<Longrightarrow> kpost (Inr (b, s, k)) inv_post"
  by (simp add: kpost_Inr)

lemma proc_ok_pipe:
  "fdata (fds p ! j) = DPipe i \<Longrightarrow> fstatus (fds p ! j) = FD_PIPE \<Longrightarrow> j < length (fds p) \<Longrightarrow> proc_ok p \<Longrightarrow> unat i < NUM_PIPE_BUFS"
  using proc_ok_fd [of p j] by (simp add: fd_ok_def)

lemma fd_ok_ptr [simp]: "fd_ok (f\<lparr>fptr := n\<rparr>) = fd_ok f"
  by (simp add: fd_ok_def)

lemma write_console_inv [kpost_rules]: "kernel_inv k \<Longrightarrow> (\<And>k'. kernel_inv k' \<Longrightarrow> Q k') \<Longrightarrow> kpost (write_console buf n k) Q"
  by (auto simp: write_console_def kpost_def elim!: kbindE)

lemma kpost_write_loop [kpost_rules]:
  "length b = 16384 \<Longrightarrow> (\<And>v d' b'. length b' = 16384 \<Longrightarrow> Q (v, d', b')) \<Longrightarrow> kpost (pipe_write_loop m buf n i v0 (d, b)) Q"
  by (rule kpost_mono [OF pipe_write_loop_length]) auto

lemma proc_ok_upd_ptr [simp]: "proc_ok p \<Longrightarrow> proc_ok (upd_fd i (\<lambda>f. f\<lparr>fptr := g f\<rparr>) p)"
  by (cases "i < length (fds p)") (simp_all add: proc_ok_upd_fd, simp add: upd_fd_def not_less list_update_beyond)

lemma sys_write_inv: "kernel_inv k \<Longrightarrow> kpost (sys_write s k) inv_post"
  unfolding sys_write_def by (intro kpost_rules) (auto simp: kernel_inv_set_pipe)

lemma read_stdin_inv [kpost_rules]:
  assumes "kernel_inv k" shows "kpost (read_stdin s k) inv_post"
  unfolding read_stdin_def
  by (intro kpost_rules kpost_mono [OF read_loop_keeps [where P = ring_ok, OF _ tty_pop_ring]]) (use assms in \<open>auto intro!: kpost_rules\<close>)

lemma read_pipe_inv [kpost_rules]:
  assumes "kernel_inv k" shows "kpost (read_pipe i s k) inv_post"
  unfolding read_pipe_def
  by (intro kpost_rules kpost_mono [OF read_loop_keeps [where P = "\<lambda>p. length (snd p) = 16384", OF _ pipe_pop_length]])
    (use assms in \<open>auto intro!: kpost_rules kernel_inv_set_pipe\<close>)

lemma sys_read_inv: "kernel_inv k \<Longrightarrow> kpost (sys_read s k) inv_post"
  unfolding sys_read_def by (intro kpost_rules) (auto simp: proc_ok_upd dest: proc_ok_pipe)

lemma sys_read_resume_inv: "kernel_inv k \<Longrightarrow> kpost (sys_read_resume s k) inv_post"
  unfolding sys_read_resume_def by (intro kpost_rules) simp_all

lemma open_status_regular [kpost_rules]:
  assumes "kernel_inv k" "\<And>st. st \<noteq> Some FD_PIPE \<Longrightarrow> Q st"
  shows "kpost (open_status i k) Q"
  using assms(1) unfolding open_status_def Let_def by (intro kpost_rules assms(2)) simp_all

lemma proc_ok_open: "proc_ok p \<Longrightarrow> t < NUM_INODES \<Longrightarrow> st \<noteq> FD_PIPE \<Longrightarrow>
    proc_ok (upd_fd i (\<lambda>f. f\<lparr>fstatus := st, fdata := DFile (Some t), fmode := md, fptr := n\<rparr>) p)"
  by (rule proc_ok_upd_fd) (simp_all add: fd_ok_def)

lemma proc_ok_unmap: "proc_ok p \<Longrightarrow> proc_ok (upd_fd i (\<lambda>f. f\<lparr>fstatus := FD_UNMAPPED\<rparr>) p)"
  by (rule proc_ok_upd_fd) (simp_all add: fd_ok_def)

lemma sys_open_inv: "kernel_inv k \<Longrightarrow> kpost (sys_open s k) inv_post"
  unfolding sys_open_def by (intro kpost_rules) (auto simp: proc_ok_open)

lemma sys_reopen_inv: "kernel_inv k \<Longrightarrow> kpost (sys_reopen s k) inv_post"
  unfolding sys_reopen_def by (intro kpost_rules) (auto simp: proc_ok_open)

lemma sys_close_inv: "kernel_inv k \<Longrightarrow> kpost (sys_close s k) inv_post"
  unfolding sys_close_def by (intro kpost_rules) (auto simp: proc_ok_unmap)

lemma sys_set_ptr_inv: "kernel_inv k \<Longrightarrow> kpost (sys_set_ptr s k) inv_post"
  unfolding sys_set_ptr_def by (intro kpost_rules) auto

lemma sys_ftype_inv: "kernel_inv k \<Longrightarrow> kpost (sys_ftype s k) inv_post"
  unfolding sys_ftype_def by (intro kpost_rules) (auto intro: kpost_rules split: filetype.split)

lemma kpost_fd_inode [kpost_rules]: "(\<And>x. Q x) \<Longrightarrow> kpost (fd_inode s k) Q"
  by (simp add: kpost_def)

lemma sys_info_inv:
  assumes "kernel_inv k"
  shows "kpost (sys_file_info s k) inv_post" "kpost (sys_dir_info s k) inv_post" "kpost (sys_dirent_info s k) inv_post"
    "kpost (sys_symlink_info s k) inv_post"
  unfolding sys_file_info_def sys_dir_info_def sys_dirent_info_def sys_symlink_info_def
  by (intro kpost_rules; simp add: assms)+

lemma sys_cd_inv: "kernel_inv k \<Longrightarrow> kpost (sys_cd s k) inv_post"
  unfolding sys_cd_def by (intro kpost_rules) (auto simp: proc_ok_upd)

lemma sys_pwd_inv: "kernel_inv k \<Longrightarrow> kpost (sys_pwd s k) inv_post"
  unfolding sys_pwd_def by (intro kpost_rules) auto

lemma sys_create_inv: "kernel_inv k \<Longrightarrow> kpost (sys_create s k) inv_post"
  unfolding sys_create_def by (intro kpost_rules) (auto simp: init_inode_ok)

lemma sys_link_inv: "kernel_inv k \<Longrightarrow> kpost (sys_link s k) inv_post"
  unfolding sys_link_def by (intro kpost_rules) (auto simp: init_inode_ok)

lemma sys_delete_inv: "kernel_inv k \<Longrightarrow> kpost (sys_delete s k) inv_post"
  unfolding sys_delete_def by (intro kpost_rules) (auto simp: inode_ok_length)

lemma sys_harden_inv: "kernel_inv k \<Longrightarrow> kpost (sys_harden s k) inv_post"
  unfolding sys_harden_def by (intro kpost_rules) auto

lemma current_in: "kernel_inv k \<Longrightarrow> unat (get_proc_idx (get_current_proc (kpt k))) < MAX_PROCS"
  using kernel_inv_parts(1) [of k] by (simp add: table_ok_def get_proc_idx_def get_current_proc_def)

lemma sys_spawn_proc_inv: "kernel_inv k \<Longrightarrow> kpost (sys_spawn_proc s k) inv_post"
  unfolding sys_spawn_proc_def by (intro kpost_rules) (auto simp: proc_ok_upd proc_ok_parts current_in)

lemma sys_getpid_inv: "kernel_inv k \<Longrightarrow> kpost (sys_getpid s k) inv_post"
  unfolding sys_getpid_def by (intro kpost_rules)

lemma sys_exit_inv: "kernel_inv k \<Longrightarrow> kpost (sys_exit s k) inv_post"
  unfolding sys_exit_def by (intro kpost_rules) auto

lemma sys_wait_inv: "kernel_inv k \<Longrightarrow> kpost (sys_wait s k) inv_post"
  using kernel_inv_parts(1) [of k] unfolding sys_wait_def
  by (intro kpost_rules) (auto simp: table_ok_def find_Some_iff intro!: proc_ok_upd(5))

lemma sys_wait_resume_inv: "kernel_inv k \<Longrightarrow> kpost (sys_wait_resume s k) inv_post"
  unfolding sys_wait_resume_def by (intro kpost_rules)

lemma sys_sbrk_inv: "kernel_inv k \<Longrightarrow> kpost (sys_sbrk s k) inv_post"
  unfolding sys_sbrk_def by (intro kpost_rules) auto

lemma sys_pipe_inv: "kernel_inv k \<Longrightarrow> kpost (sys_pipe s k) inv_post"
  using kernel_inv_parts(3) [of k] unfolding sys_pipe_def
  by (intro kpost_rules)
    (auto simp: pipes_ok_def pipe_fd_def fd_ok_def find_Some_iff intro!: proc_ok_upd_fd)

lemma sys_set_tty_mode_inv: "kernel_inv k \<Longrightarrow> kpost (sys_set_tty_mode s k) inv_post"
  using kernel_inv_parts(4) [of k] unfolding sys_set_tty_mode_def by (intro kpost_rules) (simp_all add: ring_ok_def)

lemmas sys_inv = sys_write_inv sys_read_inv sys_spawn_proc_inv sys_getpid_inv sys_exit_inv sys_wait_inv sys_sbrk_inv sys_cd_inv
  sys_pwd_inv sys_open_inv sys_reopen_inv sys_close_inv sys_set_ptr_inv sys_ftype_inv sys_info_inv sys_create_inv sys_delete_inv
  sys_link_inv sys_harden_inv sys_pipe_inv sys_set_tty_mode_inv

lemma syscall_inv: "kernel_inv k \<Longrightarrow> kpost (syscall_interrupt_handler_inner s k) inv_post"
  unfolding syscall_interrupt_handler_inner_def
proof (intro kpost_rules)
  fix c assume "kernel_inv k"
  then show "kpost (syscall_handler c s k) inv_post" by (cases c) (simp_all add: sys_inv)
qed simp

end
