(* ===== verification/Reach.thy ===== *)
theory Reach
  imports KInv
begin

text \<open>
  The kernel as a transition system: its steps are boot, system calls, interrupts, faults and the running process's own
  writes. The invariant of \<open>KInv\<close> holds in every state that can be reached, and from there some calls cannot
  fail.
\<close>

section \<open>Boot\<close>

lemma kpost_boot [kpost_rules]:
  "(\<And>pa n. Q1 (pa, n)) \<Longrightarrow> kpost (boot_memory m mb pa0) Q1" "(\<And>v. Q2 v) \<Longrightarrow> kpost (paging_setup gm v0) Q2"
  "(\<And>g. Q3 g) \<Longrightarrow> kpost (gdt_load ga ta g0) Q3" "(\<And>con. Q4 con) \<Longrightarrow> kpost (vga_clear c) Q4"
  "(\<And>s con. Q5 (s, con)) \<Longrightarrow> kpost (ps2_setup s0) Q5" "(\<And>i pw. Q6 (i, pw)) \<Longrightarrow> kpost (idt_load h idt0) Q6"
  "(\<And>con. Q7 con) \<Longrightarrow> kpost (kprint str c) Q7"
  by (simp_all add: kpost_def split_paired_all)

lemma start_processes_inv: "kernel_inv k \<Longrightarrow> kpost (start_processes stk k) kernel_inv"
  unfolding start_processes_def
  by (intro kpost_rules) (auto simp: proc_ok_upd get_root_inode_def get_inode_at_idx_def)

lemma kernel_main_inv: "kernel_inv k \<Longrightarrow> kpost (kernel_main m mb k) (\<lambda>(k, n). kernel_inv k)"
  unfolding kernel_main_def Let_def by (intro kpost_rules) auto

lemma higher_half_entry_inv: "kernel_inv k \<Longrightarrow> kpost (higher_half_entry be (g, idt, s, k)) (\<lambda>(g, idt, s, k). kernel_inv k)"
  unfolding higher_half_entry_def prod.case Let_def
  by (intro kpost_rules kpost_mono [OF start_processes_inv]) auto

lemma zero_pipe_bufs_length: "b \<in> set zero_pipe_bufs \<Longrightarrow> length b = 16384"
  by (simp only: zero_pipe_bufs_def in_set_replicate length_replicate)

lemma power_on_inv: "fs_inv fs \<Longrightarrow> kernel_inv (power_on fs con v argbuf)"
proof -
  have "length (replicate 1024 (0 :: u8)) = 1024" by (rule length_replicate)
  moreover have "\<forall>b \<in> set zero_pipe_bufs. length b = 16384" by (blast intro: zero_pipe_bufs_length)
  moreover assume "fs_inv fs"
  ultimately show ?thesis
    by (simp only: kernel_inv_def power_on_def kernel.select_convs table_ok_def ptab.select_convs pipes_ok_def ring_ok_def tty_init_def
        tty_data.select_convs) simp
qed

section \<open>The transitions of the system\<close>

text \<open>
  Everything that can happen: the two halves of the boot code, a system call and its second half after a process had to
  wait, the four kinds of interrupts and faults, and the running process writing to its own memory.
  The processor and the boot loader decide which happens when; a step that panics or leaves defined behaviour is no step.
\<close>

inductive kstep :: "kernel \<Rightarrow> kernel \<Rightarrow> bool" where
  boot_low: "kernel_main m mb k = Inr (k', n) \<Longrightarrow> kstep k k'"
| boot_high: "higher_half_entry be (g, idt, io, k) = Inr (g', idt', io', k') \<Longrightarrow> kstep k k'"
| syscall: "syscall_interrupt_handler_inner s k = Inr (b, s', k') \<Longrightarrow> kstep k k'"
| read_again: "sys_read_resume s k = Inr (b, s', k') \<Longrightarrow> kstep k k'"
| wait_again: "sys_wait_resume s k = Inr (b, s', k') \<Longrightarrow> kstep k k'"
| timer: "timer_interrupt sp bp k = Inr k' \<Longrightarrow> kstep k k'"
| keyboard: "keyboard_interrupt_handler_inner st sc (ktty k, kcon k) = Inr ((t, con), pw) \<Longrightarrow>
    kstep k (k\<lparr>ktty := t, kcon := con, kports := kports k @ pw\<rparr>)"
| gp_fault: "gp_fault_handler_inner cs k = Inr k' \<Longrightarrow> kstep k k'"
| page_fault: "page_fault_handler_inner ec fa ip k = Inr k' \<Longrightarrow> kstep k k'"
| user: "kstep k (set_cur_mem m k)"

definition power_on_state :: "kernel \<Rightarrow> bool" where
  "power_on_state k \<longleftrightarrow> (\<exists>fs con v argbuf. fs_inv fs \<and> k = power_on fs con v argbuf)"

locale transition_system =
  fixes init :: "'s \<Rightarrow> bool" and step :: "'s \<Rightarrow> 's \<Rightarrow> bool" and inv :: "'s \<Rightarrow> bool"
  assumes init_inv: "init s \<Longrightarrow> inv s"
    and step_inv: "inv s \<Longrightarrow> step s t \<Longrightarrow> inv t"
begin

lemma always: "step\<^sup>*\<^sup>* s t \<Longrightarrow> init s \<Longrightarrow> inv t"
  by (induction rule: rtranclp_induct) (auto intro: init_inv step_inv)

end

lemma kstep_inv: "kstep k k' \<Longrightarrow> kernel_inv k \<Longrightarrow> kernel_inv k'"
proof (induction rule: kstep.induct)
  case (keyboard st sc k t con pw)
  have "kpost (keyboard_interrupt_handler_inner st sc (ktty k, kcon k)) (\<lambda>((t, con), pw). ring_ok t)"
    by (intro kpost_rules) (simp_all add: keyboard.prems)
  from kpostD [OF this keyboard.hyps] show ?case using keyboard.prems by simp
next
  case (timer sp bp k k')
  show ?case by (rule kpostD [OF _ timer.hyps]) (intro kpost_rules timer.prems)
next
  case (gp_fault cs k k')
  show ?case by (rule kpostD [OF _ gp_fault.hyps]) (intro kpost_rules gp_fault.prems)
next
  case (page_fault ec fa ip k k')
  show ?case by (rule kpostD [OF _ page_fault.hyps]) (intro kpost_rules page_fault.prems)
qed (auto dest: kpostD [OF kernel_main_inv] kpostD [OF higher_half_entry_inv] kpostD [OF syscall_inv]
    kpostD [OF sys_read_resume_inv] kpostD [OF sys_wait_resume_inv])

interpretation kernel_system: transition_system power_on_state kstep kernel_inv
proof
  show "kernel_inv k" if "power_on_state k" for k using that power_on_inv by (auto simp: power_on_state_def)
qed (rule kstep_inv)

section \<open>What holds in every reachable state\<close>

text \<open>
  C22: in every state that the system can reach from power-on with a well-formed inode table, by any sequence of boot
  steps, system calls, resumed calls, interrupts and faults, the kernel's tables have their sizes, the current process
  is a slot of the table, each of the 16 descriptors of each process that claims to be a file, directory or pipe refers to an
  inode or pipe that exists, working directories, parents and what a process waits for are slots of their tables, and the
  terminal's three pointers are inside its buffer.
\<close>

theorem reachable_inv:
  assumes "power_on_state k0" "kstep\<^sup>*\<^sup>* k0 k"
  shows "kernel_inv k"
  using assms(2,1) by (rule kernel_system.always)

definition blank_fs :: fsys where
  "blank_fs = \<lparr>inodes = replicate NUM_INODES \<lparr>iname = [], itype = FT_UNALLOCATED, iparent = 0, idata = 0,
     iblocks = replicate NDIRECT 0, ivalid = 0, irefs = 0\<rparr>, fsbytes = (\<lambda>_. 0)\<rparr>"

definition blank_kernel :: kernel where
  "blank_kernel = power_on blank_fs text_console (kvm sample_kernel) 0xC0120000"

lemma blank_fs_inv: "fs_inv blank_fs"
  by (simp only: fs_inv_def blank_fs_def fsys.select_convs length_replicate in_set_replicate inode_ok_def simp_thms) simp

lemma blank_power_on: "power_on_state blank_kernel"
  using blank_fs_inv unfolding power_on_state_def blank_kernel_def by blast

lemma blank_raw: "kstep blank_kernel (blank_kernel\<lparr>ktty := (ktty blank_kernel)\<lparr>tmode := TTY_MODE_RAW\<rparr>\<rparr>)"
  by (rule kstep.syscall [of "(regs 1 0 0)\<lparr>eax := 23\<rparr>" _ False "(regs 1 0 0)\<lparr>eax := 0\<rparr>"])
    (simp add: syscall_interrupt_handler_inner_def syscall_code_of_def syscall_codes_def sys_set_tty_mode_def ret_def
      tty_mode_of_def regs_def word_le_nat_alt)

theorem reachable_inv_witness: "kernel_inv (blank_kernel\<lparr>ktty := (ktty blank_kernel)\<lparr>tmode := TTY_MODE_RAW\<rparr>\<rparr>)"
  by (rule reachable_inv [OF blank_power_on]) (rule r_into_rtranclp, rule blank_raw)

text \<open>The scheduler does not leave its tables.\<close>

lemma get_proc_in: "kernel_inv k \<Longrightarrow> i < MAX_PROCS \<Longrightarrow> get_proc i k = Inr (ptable (kpt k) ! i) \<and> proc_ok (ptable (kpt k) ! i)"
  using kernel_inv_parts(1) [of k] by (simp add: get_proc_def table_ok_def)

lemma upd_proc_in: "kernel_inv k \<Longrightarrow> i < MAX_PROCS \<Longrightarrow> upd_proc i f k = Inr (with_table ((ptable (kpt k))[i := f (ptable (kpt k) ! i)]) k)"
  using kernel_inv_parts(1) [of k] by (simp add: upd_proc_def table_ok_def with_table_def)

lemma cur_proc_in: "kernel_inv k \<Longrightarrow> \<exists>p. cur_proc k = Inr p \<and> proc_ok p"
  using kernel_inv_parts(1) [of k] get_proc_in [of k] by (simp add: cur_proc_def table_ok_def get_current_proc_def)

lemma pipe_in: "kernel_inv k \<Longrightarrow> i < NUM_PIPE_BUFS \<Longrightarrow> kget (kpipes k) i = Inr (kpipes k ! i)"
  using kernel_inv_parts(3) [of k] by (simp add: pipes_ok_def)

lemma reap_total:
  assumes "kernel_inv k" "i < MAX_PROCS" "\<not> shell_dead k"
  shows "\<exists>k'. reap i k = Inr k' \<and> \<not> shell_dead k'"
proof -
  have i: "proc_ok (ptable (kpt k) ! i)" "length (ptable (kpt k)) = MAX_PROCS"
    using get_proc_in [OF assms(1,2)] kernel_inv_parts(1) [OF assms(1)] by (simp_all add: table_ok_def)
  then have "unat (parent_idx (ptable (kpt k) ! i)) < MAX_PROCS" by (simp add: proc_ok_def)
  then show ?thesis
    using assms i get_proc_in [OF assms(1)]
    by (auto simp: reap_def upd_proc_in shell_dead_def with_table_def dest!: set_update_subset_insert [THEN subsetD])
qed

lemma sched_visit_total:
  assumes "kernel_inv k" "i < MAX_PROCS" "\<not> shell_dead k"
  shows "\<exists>b k'. sched_visit i k = Inr (b, k') \<and> (\<not> b \<longrightarrow> \<not> shell_dead k')"
proof -
  let ?p = "ptable (kpt k) ! i"
  have p: "get_proc i k = Inr ?p" "proc_ok ?p" using get_proc_in [OF assms(1,2)] by simp_all
  have w: "\<exists>k'. wake i k1 = Inr (True, k')" if "kernel_inv k1" for k1
    using that assms(2) by (simp add: wake_def upd_proc_in)
  have e: "kernel_inv (with_table ((ptable (kpt k))[i := ?p\<lparr>exit_code := c\<rparr>]) k)" for c
    using kpostD [OF kpost_upd_proc [OF assms(1), of "\<lambda>p. p\<lparr>exit_code := c\<rparr>" kernel_inv i]] upd_proc_in [OF assms(1,2)] by simp
  have "?p \<in> set (ptable (kpt k))" using assms(2) kernel_inv_parts(1) [OF assms(1)] by (simp add: table_ok_def)
  then have dead: "status ?p = KILLED \<Longrightarrow> pid ?p \<noteq> sh_proc_pid (kpt k)" using assms(3) by (auto simp: shell_dead_def)
  show ?thesis
  proof (cases "status ?p")
    case WAITING_ON_PID
    then have "unat (waiting_on ?p) < MAX_PROCS" using p(2) by (simp add: proc_ok_def)
    then show ?thesis
      using WAITING_ON_PID p get_proc_in [OF assms(1)] upd_proc_in [OF assms(1,2)] assms(3)
        w [OF e [of "exit_code (ptable (kpt k) ! unat (waiting_on ?p))"]] by (auto simp: sched_visit_def)
  next
    case WAITING_ON_PIPE
    then have "unat (waiting_on ?p) < NUM_PIPE_BUFS" using p(2) by (simp add: proc_ok_def)
    then show ?thesis using WAITING_ON_PIPE p w [OF assms(1)] pipe_in [OF assms(1)] assms(3) by (auto simp: sched_visit_def)
  next
    case KILLED
    then show ?thesis using p dead reap_total [OF assms] by (auto simp: sched_visit_def)
  qed (use p w [OF assms(1)] assms(3) in \<open>auto simp: sched_visit_def\<close>)
qed

lemma sched_loop_total:
  assumes "kernel_inv k" "\<not> shell_dead k"
  shows "sched_loop n i k = Inl Hang \<or> (\<exists>k'. sched_loop n i k = Inr k')"
  using assms
proof (induction n arbitrary: i k)
  case (Suc n)
  let ?i = "(i + 1) mod MAX_PROCS"
  have "?i < MAX_PROCS" by simp
  from sched_visit_total [OF Suc.prems(1) this Suc.prems(2)] obtain b k' where
    v: "sched_visit ?i k = Inr (b, k')" "\<not> b \<longrightarrow> \<not> shell_dead k'" by blast
  then have "kernel_inv k'" using kpostD [OF sched_visit_inv [OF Suc.prems(1)] v(1)] by simp
  then show ?case using v Suc.IH [of k' ?i] by (cases b) (simp_all add: Let_def)
qed simp

text \<open>
  C24: calls that cannot go wrong. In every reachable state \<^verbatim>\<open>getpid\<close>, \<^verbatim>\<open>wait\<close>, \<^verbatim>\<open>set_ptr\<close> and
  \<^verbatim>\<open>set_tty_mode\<close> return to their caller or block it, whatever their arguments, a process that waited gets
  its answer, and the scheduler, unless it has to start a new shell, chooses a process or keeps looking for one: none of
  them panics, follows a null pointer or leaves a table.
\<close>

theorem reachable_calls_safe:
  assumes "power_on_state k0" "kstep\<^sup>*\<^sup>* k0 k"
  shows "(\<forall>call \<in> {sys_getpid, sys_wait, sys_wait_resume, sys_set_ptr, sys_set_tty_mode}. \<exists>r. call s k = Inr r) \<and>
    (\<not> shell_dead k \<longrightarrow> scheduler k = Inl Hang \<or> (\<exists>k'. scheduler k = Inr k'))"
proof -
  have inv: "kernel_inv k" using assms(2,1) by (rule kernel_system.always)
  obtain p where p: "cur_proc k = Inr p" "proc_ok p" using cur_proc_in [OF inv] by blast
  have c: "get_current_proc (kpt k) < MAX_PROCS"
    using kernel_inv_parts(1) [OF inv] by (simp add: get_current_proc_def table_ok_def)
  note upd = upd_proc_in [OF inv c, folded upd_cur_def]
  have "\<exists>r. sys_wait s k = Inr r"
    using p(1) upd by (auto simp: sys_wait_def ret_def split: option.split)
  moreover have "\<exists>r. sys_set_ptr s k = Inr r"
  proof (cases "ebx s \<ge> MAX_FDS")
    case False
    then have j: "unat (ebx s) < length (fds p)" using p(2) by (simp add: proc_ok_parts word_le_nat_alt)
    then have f: "fd_ok (fds p ! unat (ebx s))" using p(2) by simp
    show ?thesis
    proof (cases "fstatus (fds p ! unat (ebx s)) = FD_REGULAR_FILE")
      case True
      then obtain i where i: "i < NUM_INODES" "fdata (fds p ! unat (ebx s)) = DFile (Some i)" using f by (auto simp: fd_ok_def)
      then have "\<exists>x. get_inode i k = Inr x" using fs_inv_length [OF kernel_inv_parts(2) [OF inv]] by (simp add: get_inode_def)
      then show ?thesis
        using False True i j p(1) upd by (auto simp: sys_set_ptr_def fd_file_def ret_def Let_def)
    qed (use False j p(1) in \<open>auto simp: sys_set_ptr_def ret_def\<close>)
  qed (auto simp: sys_set_ptr_def ret_def)
  ultimately show ?thesis
    using p(1) sched_loop_total [OF inv] by (auto simp: sys_getpid_def sys_wait_resume_def sys_set_tty_mode_def ret_def scheduler_def)
qed

theorem reachable_calls_safe_witness:
  "(\<exists>r. sys_wait (regs 7 0 0) (blank_kernel\<lparr>ktty := (ktty blank_kernel)\<lparr>tmode := TTY_MODE_RAW\<rparr>\<rparr>) = Inr r) \<and>
   (\<exists>r. sys_getpid (regs 0 0 0) blank_kernel = Inr r)"
  using reachable_calls_safe [OF blank_power_on r_into_rtranclp [where r = kstep, OF blank_raw], of "regs 7 0 0"]
    reachable_calls_safe [OF blank_power_on rtranclp.rtrancl_refl, of "regs 0 0 0"] by simp

end
