(* ===== verification/Malloc.thy ===== *)
theory Malloc
  imports Kernel
begin

text \<open>
  The memory allocator of user programs, \<^verbatim>\<open>user/include/malloc.h\<close>, on the bytes of a process's memory. A block is a
  header of 12 bytes (size, address of the next block, a byte that tells whether it is free) and the memory handed out behind it; all
  blocks are on one list in the order of their addresses. \<^verbatim>\<open>sbrk\<close> is the system call: it returns the old break and moves it as
  the kernel's \<^verbatim>\<open>sbrk_helper\<close> does. The walks along the list are \<open>option\<close>-valued, since a list that is not
  well-formed may be cyclic.
\<close>

section \<open>Definitions\<close>

record uheap =
  hmem :: mem
  hbrk :: u32
  free_list :: u32

abbreviation HEADER :: u32 where "HEADER \<equiv> 12"

definition blk_size :: "mem \<Rightarrow> u32 \<Rightarrow> u32" where "blk_size m b = le32 m b"
definition blk_next :: "mem \<Rightarrow> u32 \<Rightarrow> u32" where "blk_next m b = le32 m (b + 4)"
definition blk_free :: "mem \<Rightarrow> u32 \<Rightarrow> bool" where "blk_free m b \<longleftrightarrow> m (b + 8) \<noteq> 0"

definition align_up :: "u32 \<Rightarrow> u32" where
  "align_up x = (x + 7) AND NOT 7"

text \<open>The break after a call of \<^verbatim>\<open>sbrk\<close>.\<close>

definition break_after :: "u32 \<Rightarrow> u32 \<Rightarrow> u32" where
  "break_after b delta =
     (let d = round_delta delta
      in if d = 0 then b else if d <s 0 then b + umax d (0x80000000 - b) else b + d)"

definition usbrk :: "u32 \<Rightarrow> uheap \<Rightarrow> u32 \<times> uheap" where
  "usbrk delta h = (hbrk h, h\<lparr>hbrk := break_after (hbrk h) delta\<rparr>)"

partial_function (option) find_free_block :: "mem \<Rightarrow> u32 \<Rightarrow> u32 \<Rightarrow> u32 option" where
  "find_free_block m cur sz =
     (if cur = 0 then Some 0
      else if blk_free m cur \<and> blk_size m cur \<ge> sz then Some cur
      else find_free_block m (blk_next m cur) sz)"

definition request_mem :: "u32 \<Rightarrow> uheap \<Rightarrow> u32 \<times> uheap" where
  "request_mem sz h =
     (let (block, h) = usbrk (HEADER + sz) h
      in (block, h\<lparr>hmem := (put_le32 (block + 4) 0 (put_le32 block sz (hmem h)))(block + 8 := 0)\<rparr>))"

partial_function (option) last_block :: "mem \<Rightarrow> u32 \<Rightarrow> u32 option" where
  "last_block m cur = (if blk_next m cur = 0 then Some cur else last_block m (blk_next m cur))"

definition malloc :: "u32 \<Rightarrow> uheap \<Rightarrow> (u32 \<times> uheap) option" where
  "malloc sz h =
     (if sz = 0 then Some (0, h)
      else
        let sz = align_up sz
        in if free_list h = 0 then
             (let (block, h) = request_mem sz h in Some (block + HEADER, h\<lparr>free_list := block\<rparr>))
           else
             Option.bind (find_free_block (hmem h) (free_list h) sz) (\<lambda>block.
               if block \<noteq> 0 then Some (block + HEADER, h\<lparr>hmem := (hmem h)(block + 8 := 0)\<rparr>)
               else
                 let (block, h) = request_mem sz h
                 in Option.bind (last_block (hmem h) (free_list h)) (\<lambda>cur.
                      Some (block + HEADER, h\<lparr>hmem := put_le32 (cur + 4) block (hmem h)\<rparr>))))"

definition ufree :: "u32 \<Rightarrow> uheap \<Rightarrow> uheap" where
  "ufree ptr h = (if ptr = 0 then h else h\<lparr>hmem := (hmem h)(ptr - HEADER + 8 := 1)\<rparr>)"

definition calloc :: "u32 \<Rightarrow> u32 \<Rightarrow> uheap \<Rightarrow> (u32 \<times> uheap) option" where
  "calloc nmemb sz h =
     (let total = nmemb * sz
      in Option.bind (malloc total h) (\<lambda>(ptr, h).
           if ptr \<noteq> 0 then Some (ptr, h\<lparr>hmem := memset (hmem h) ptr 0 total\<rparr>) else Some (ptr, h)))"

text \<open>The copy loop of \<^verbatim>\<open>realloc\<close>, which reads the sz of the old block again in every round.\<close>

function realloc_copy :: "mem \<Rightarrow> u32 \<Rightarrow> u32 \<Rightarrow> u32 \<Rightarrow> u32 \<Rightarrow> mem" where
  "realloc_copy m dst src sz i =
     (if i < blk_size m (src - HEADER) \<and> i < sz
      then realloc_copy (m(dst + i := m (src + i))) dst src sz (i + 1) else m)"
  by pat_completeness auto
termination
  by (relation "measure (\<lambda>(m, dst, src, sz, i). unat sz - unat i)") (auto, unat_arith)

declare realloc_copy.simps [simp del]

definition realloc :: "u32 \<Rightarrow> u32 \<Rightarrow> uheap \<Rightarrow> (u32 \<times> uheap) option" where
  "realloc ptr sz h =
     (if ptr = 0 then malloc sz h
      else if sz = 0 then Some (0, ufree ptr h)
      else if blk_size (hmem h) (ptr - HEADER) \<ge> sz then Some (ptr, h)
      else
        Option.bind (malloc sz h) (\<lambda>(new_ptr, h).
          Some (new_ptr, ufree ptr (h\<lparr>hmem := realloc_copy (hmem h) new_ptr ptr sz 0\<rparr>))))"

section \<open>The list of blocks\<close>

type_synonym blk = "u32 \<times> u32 \<times> bool"

text \<open>\<open>chain m p bs q\<close>: following the list from \<open>p\<close>, the headers in memory are those of \<open>bs\<close>, and then comes \<open>q\<close>.\<close>

fun chain :: "mem \<Rightarrow> u32 \<Rightarrow> blk list \<Rightarrow> u32 \<Rightarrow> bool" where
  "chain m p [] q \<longleftrightarrow> p = q"
| "chain m p ((a, s, f) # bs) q \<longleftrightarrow>
     p = a \<and> a \<noteq> 0 \<and> blk_size m a = s \<and> blk_free m a = f \<and> chain m (blk_next m a) bs q"

text \<open>The blocks lie one after the other between two addresses.\<close>

fun layout :: "nat \<Rightarrow> blk list \<Rightarrow> nat \<Rightarrow> bool" where
  "layout lo [] hi \<longleftrightarrow> lo \<le> hi"
| "layout lo ((a, s, f) # bs) hi \<longleftrightarrow> lo \<le> unat a \<and> layout (unat a + 12 + unat s) bs hi"

abbreviation HEAP_START :: nat where "HEAP_START \<equiv> 0x80000000"

definition heap_ok :: "uheap \<Rightarrow> blk list \<Rightarrow> bool" where
  "heap_ok h bs \<longleftrightarrow> chain (hmem h) (free_list h) bs 0 \<and> layout HEAP_START bs (unat (hbrk h))"

lemma chain_append: "chain m p (xs @ ys) q \<longleftrightarrow> (\<exists>r. chain m p xs r \<and> chain m r ys q)"
  by (induction xs arbitrary: p) auto

lemma find_free_block_chain:
  "chain m p bs 0 \<Longrightarrow> find_free_block m p sz =
     Some (case find (\<lambda>(a, s, f). f \<and> sz \<le> s) bs of None \<Rightarrow> 0 | Some (a, s, f) \<Rightarrow> a)"
proof (induction bs arbitrary: p)
  case Nil
  then show ?case by (subst find_free_block.simps) simp
next
  case (Cons b bs)
  then show ?case by (subst find_free_block.simps) (cases b, auto)
qed

lemma last_block_chain: "chain m p (bs @ [(a, s, f)]) 0 \<Longrightarrow> last_block m p = Some a"
proof (induction bs arbitrary: p)
  case Nil
  then show ?case by (subst last_block.simps) simp
next
  case (Cons b bs)
  then have "blk_next m p \<noteq> 0" by (cases b; cases bs) auto
  with Cons show ?case by (subst last_block.simps) (cases b, auto)
qed

lemma layout_weaken: "layout lo bs hi \<Longrightarrow> lo' \<le> lo \<Longrightarrow> layout lo' bs hi"
  by (cases bs) auto

lemma layout_append: "layout lo (xs @ ys) hi \<longleftrightarrow> (\<exists>mid. layout lo xs mid \<and> layout mid ys hi)"
  by (induction xs arbitrary: lo) (auto intro: layout_weaken)

lemma layout_le: "layout lo bs hi \<Longrightarrow> lo \<le> hi"
  by (induction bs arbitrary: lo) fastforce+

lemma layout_bounds: "layout lo bs hi \<Longrightarrow> (a, s, f) \<in> set bs \<Longrightarrow> lo \<le> unat a \<and> unat a + 12 + unat s \<le> hi"
proof (induction bs arbitrary: lo)
  case (Cons b bs)
  obtain a' s' f' where b: "b = (a', s', f')" by (cases b)
  have "unat a' + 12 + unat s' \<le> hi" using Cons.prems(1) b by (auto dest: layout_le)
  then show ?case using Cons b by fastforce
qed simp

section \<open>Memory outside a header\<close>

definition same_header :: "mem \<Rightarrow> mem \<Rightarrow> u32 \<Rightarrow> bool" where
  "same_header m m' a \<longleftrightarrow> unat a + 12 \<le> 4294967296 \<and> (\<forall>x. unat a \<le> unat x \<and> unat x < unat a + 12 \<longrightarrow> m' x = m x)"

lemma same_header_at: "same_header m m' a \<Longrightarrow> j < 12 \<Longrightarrow> m' (a + of_nat j) = m (a + of_nat j)"
proof -
  assume "same_header m m' a" "j < 12"
  moreover from this have "unat (a + of_nat j) = unat a + j" by (simp add: same_header_def unat_word_ariths)
  ultimately show ?thesis by (simp add: same_header_def)
qed

lemma same_header_blk:
  assumes "same_header m m' a"
  shows "blk_size m' a = blk_size m a" "blk_next m' a = blk_next m a" "blk_free m' a = blk_free m a"
  using same_header_at [OF assms, of 0] same_header_at [OF assms, of 1] same_header_at [OF assms, of 2] same_header_at [OF assms, of 3]
    same_header_at [OF assms, of 4] same_header_at [OF assms, of 5] same_header_at [OF assms, of 6] same_header_at [OF assms, of 7]
    same_header_at [OF assms, of 8]
  by (simp_all add: blk_size_def blk_next_def blk_free_def le32_def add.assoc)

lemma chain_cong: "chain m p bs q \<Longrightarrow> \<forall>b \<in> set bs. same_header m m' (fst b) \<Longrightarrow> chain m' p bs q"
  by (induction bs arbitrary: p) (auto simp: same_header_blk)

lemma layout_split:
  assumes "layout lo (xs @ (a, s, f) # ys) hi"
  shows "(a', s', f') \<in> set xs \<Longrightarrow> unat a' + 12 + unat s' \<le> unat a" "(a', s', f') \<in> set ys \<Longrightarrow> unat a + 12 + unat s \<le> unat a'"
    "unat a + 12 + unat s \<le> hi"
  using assms layout_bounds layout_le by (fastforce simp: layout_append)+

text \<open>Writes inside one block leave the headers of the others alone.\<close>

lemma chain_others:
  assumes "chain m p (xs @ (a, s, f) # ys) q" "layout lo (xs @ (a, s, f) # ys) hi" "hi < 4294967296"
    and "\<forall>x. m' x \<noteq> m x \<longrightarrow> unat a \<le> unat x \<and> unat x < unat a + 12 + unat s"
  shows "chain m' p xs a" "chain m' (blk_next m a) ys q"
proof -
  note lay = layout_split [OF assms(2)]
  have other: "\<forall>b \<in> set xs \<union> set ys. same_header m m' (fst b)"
  proof
    fix b assume b: "b \<in> set xs \<union> set ys"
    obtain a' s' f' where b': "b = (a', s', f')" by (cases b)
    have "unat a' + 12 + unat s' \<le> hi" using b b' layout_bounds [OF assms(2), of a' s' f'] by auto
    moreover have "unat a' + 12 \<le> unat a \<or> unat a + 12 + unat s \<le> unat a'" using b b' lay(1,2) by fastforce
    ultimately show "same_header m m' (fst b)" using assms(3,4) b' unfolding same_header_def by force
  qed
  then show "chain m' p xs a" "chain m' (blk_next m a) ys q"
    using assms(1) chain_cong [of m p xs a m'] chain_cong [of m "blk_next m a" ys q m'] by (auto simp: chain_append)
qed

lemma unat_add32: "unat (a :: u32) + n < 4294967296 \<Longrightarrow> unat (a + of_nat n) = unat a + n"
  by (simp add: unat_word_ariths)

lemma chain_mark:
  assumes "chain m p (xs @ (a, s, f) # ys) q" "layout lo (xs @ (a, s, f) # ys) hi" "hi < 4294967296"
  shows "chain (m(a + 8 := v)) p (xs @ (a, s, v \<noteq> 0) # ys) q"
proof -
  let ?m = "m(a + 8 := v)"
  have u: "unat (a + 8) = unat a + 8" using unat_add32 [of a 8] layout_split(3) [OF assms(2)] assms(3) by simp
  have "\<forall>x. ?m x \<noteq> m x \<longrightarrow> unat a \<le> unat x \<and> unat x < unat a + 12 + unat s" using u by (auto split: if_splits)
  note others = chain_others [where m' = ?m, OF assms this]
  have "blk_size ?m a = blk_size m a" "blk_next ?m a = blk_next m a" "blk_free ?m a = (v \<noteq> 0)"
    by (simp_all add: blk_size_def blk_next_def blk_free_def le32_def add.assoc)
  then show ?thesis using assms(1) others by (auto simp: chain_append)
qed

section \<open>Sizes\<close>

lemma align_up_bounds:
  assumes "unat sz < 4294967288"
  shows "unat sz \<le> unat (align_up sz)" "unat (align_up sz) \<le> unat sz + 7"
proof -
  have "(sz + 7) AND NOT 7 = push_bit 3 (drop_bit 3 (sz + 7))"
  proof (rule bit_word_eqI)
    fix n assume "n < LENGTH(32)"
    have "bit (7 :: u32) n = (n < 3)" if "n < 32" using bit_mask_iff [of 3 n, where 'a = "32 word"] that by (simp add: mask_eq_exp_minus_1)
    then show "bit ((sz + 7) AND NOT 7) n = bit (push_bit 3 (drop_bit 3 (sz + 7))) n" using \<open>n < LENGTH(32)\<close>
      by (auto simp: bit_simps)
  qed
  moreover have "unat (sz + 7) = unat sz + 7" using assms by (simp add: unat_word_ariths)
  moreover have "unat (push_bit 3 (drop_bit 3 (sz + 7))) = unat (sz + 7) div 8 * 8"
    using u32_bound [of "sz + 7"] by (simp add: unat_drop_bit_eq push_bit_eq_mult drop_bit_eq_div unat_word_ariths)
  ultimately have "unat (align_up sz) = (unat sz + 7) div 8 * 8" by (simp add: align_up_def)
  then show "unat sz \<le> unat (align_up sz)" "unat (align_up sz) \<le> unat sz + 7" by linarith+
qed

definition pages :: "nat \<Rightarrow> nat" where
  "pages n = (n + 4095) div 4096 * 4096"

lemma pages_ge: "n \<le> pages n"
  unfolding pages_def by linarith

lemma break_after_grow:
  assumes "0 < n" "n \<le> 0x7FFFF000"
  shows "break_after b (of_nat n) = b + of_nat (pages n)"
proof -
  have p: "pages n < 2147483648" "0 < pages n" using assms unfolding pages_def by linarith+
  then have "of_nat (pages n) \<noteq> (0 :: u32)" "\<not> (of_nat (pages n) :: u32) <s 0"
    using sint_of_int32 [of "int (pages n)"] unat_of_nat32 [of "pages n"] by (auto simp: word_sless_alt)
  then show ?thesis using round_delta_up [OF assms(2)] by (simp add: break_after_def pages_def [symmetric])
qed

text \<open>This is the break that the kernel's \<^verbatim>\<open>sbrk_helper\<close> gives the process.\<close>

lemma sbrk_helper_break: "sbrk_helper pgdir b delta v = Inr (b', v') \<Longrightarrow> b' = break_after b delta"
  by (auto simp: sbrk_helper_def break_after_def Let_def elim!: kbindE split: if_splits)

section \<open>First fit\<close>

text \<open>The abstract allocator: the first free block that is large enough, or a new one at the break.\<close>

fun alloc_in :: "u32 \<Rightarrow> u32 \<Rightarrow> blk list \<Rightarrow> u32 \<times> blk list" where
  "alloc_in sz b [] = (b, [(b, sz, False)])"
| "alloc_in sz b ((a, s, f) # bs) =
     (if f \<and> sz \<le> s then (a, (a, s, False) # bs)
      else let (r, bs') = alloc_in sz b bs in (r, (a, s, f) # bs'))"

lemma alloc_in_reuse: "find (\<lambda>(a, s, f). f \<and> sz \<le> s) bs = Some (a, s, f) \<Longrightarrow>
    \<exists>xs ys. bs = xs @ (a, s, True) # ys \<and> alloc_in sz b bs = (a, xs @ (a, s, False) # ys) \<and> sz \<le> s"
proof (induction bs)
  case (Cons x bs)
  obtain a' s' f' where x: "x = (a', s', f')" by (cases x)
  show ?case
  proof (cases "f' \<and> sz \<le> s'")
    case True
    then show ?thesis using Cons.prems x by (intro exI [of _ "[]"] exI [of _ bs]) auto
  next
    case False
    then obtain xs ys where "bs = xs @ (a, s, True) # ys" "alloc_in sz b bs = (a, xs @ (a, s, False) # ys)" "sz \<le> s"
      using Cons x by auto
    then show ?thesis using False x by (intro exI [of _ "x # xs"] exI [of _ ys]) auto
  qed
qed simp

lemma alloc_in_new: "find (\<lambda>(a, s, f). f \<and> sz \<le> s) bs = None \<Longrightarrow> alloc_in sz b bs = (b, bs @ [(b, sz, False)])"
  by (induction bs) (auto split: if_splits)

text \<open>A new block at the break.\<close>

lemma layout_new:
  assumes "layout lo bs (unat b)" "unat b + 12 + unat sz \<le> hi"
  shows "layout lo (bs @ [(b, sz, False)]) hi"
  using assms by (auto simp: layout_append)

lemma request_mem_eq:
  assumes "12 + unat sz \<le> 0x7FFFF000"
  shows "request_mem sz h = (hbrk h, h\<lparr>hbrk := hbrk h + of_nat (pages (12 + unat sz)),
    hmem := (put_le32 (hbrk h + 4) 0 (put_le32 (hbrk h) sz (hmem h)))(hbrk h + 8 := 0)\<rparr>)"
proof -
  have "HEADER + sz = of_nat (12 + unat sz)" by simp
  then show ?thesis using break_after_grow [of "12 + unat sz" "hbrk h"] assms by (simp add: request_mem_def usbrk_def)
qed

lemma new_header:
  fixes b sz m
  defines "m' \<equiv> (put_le32 (b + 4) 0 (put_le32 b sz m))(b + 8 := 0)"
  assumes "unat b + 12 \<le> 4294967296"
  shows "blk_size m' b = sz" "blk_next m' b = 0" "\<not> blk_free m' b"
    "m' x \<noteq> m x \<Longrightarrow> unat b \<le> unat x \<and> unat x < unat b + 12"
proof -
  have "blk_size m' b = le32 (put_le32 b sz m) b"
    unfolding blk_size_def m'_def by (simp add: le32_def put_le32_def add.assoc)
  then show "blk_size m' b = sz" by simp
  have "blk_next m' b = le32 (put_le32 (b + 4) 0 (put_le32 b sz m)) (b + 4)"
    unfolding blk_next_def m'_def by (simp add: le32_def put_le32_def add.assoc)
  then show "blk_next m' b = 0" by simp
  show "\<not> blk_free m' b" by (simp add: m'_def blk_free_def)
  assume ne: "m' x \<noteq> m x"
  have u: "unat (b + of_nat n) = unat b + n" if "n < 12" for n using that assms(2) by (intro unat_add32) simp
  have "\<exists>n < 12. x = b + of_nat n"
  proof (rule ccontr)
    assume "\<nexists>n. n < 12 \<and> x = b + of_nat n"
    then have "\<forall>n < 12. x \<noteq> b + of_nat n" by blast
    from this [rule_format, of 0] this [rule_format, of 1] this [rule_format, of 2] this [rule_format, of 3]
      this [rule_format, of 4] this [rule_format, of 5] this [rule_format, of 6] this [rule_format, of 7] this [rule_format, of 8]
    have "m' x = m x" by (simp add: m'_def put_le32_def add.assoc)
    with ne show False ..
  qed
  then show "unat b \<le> unat x \<and> unat x < unat b + 12" using u by auto
qed

definition in_header :: "blk list \<Rightarrow> u32 \<Rightarrow> bool" where
  "in_header bs x \<longleftrightarrow> (\<exists>(a, s, f) \<in> set bs. unat a \<le> unat x \<and> unat x < unat a + 12)"

lemma same_headerI:
  "unat a + 12 \<le> 4294967296 \<Longrightarrow> (\<And>x. m' x \<noteq> m x \<Longrightarrow> unat x < unat a \<or> unat a + 12 \<le> unat x) \<Longrightarrow> same_header m m' a"
  unfolding same_header_def by (metis not_le)

lemma put_next:
  fixes a v m
  defines "m' \<equiv> put_le32 (a + 4) v m"
  assumes "unat a + 12 \<le> 4294967296"
  shows "blk_size m' a = blk_size m a" "blk_next m' a = v" "blk_free m' a = blk_free m a"
    "m' x \<noteq> m x \<Longrightarrow> unat a \<le> unat x \<and> unat x < unat a + 12"
proof -
  show "blk_size m' a = blk_size m a" "blk_next m' a = v" by (simp_all add: m'_def blk_size_def blk_next_def)
  show "blk_free m' a = blk_free m a" by (simp add: m'_def blk_free_def put_le32_def add.assoc)
  assume ne: "m' x \<noteq> m x"
  have u: "unat (a + of_nat n) = unat a + n" if "n < 12" for n using that assms(2) by (intro unat_add32) simp
  from ne have "x = a + of_nat 4 \<or> x = a + of_nat 5 \<or> x = a + of_nat 6 \<or> x = a + of_nat 7"
    by (auto simp: m'_def put_le32_def add.assoc split: if_splits)
  then show "unat a \<le> unat x \<and> unat x < unat a + 12" using u [of 4] u [of 5] u [of 6] u [of 7] by auto
qed

lemma chain_append_new:
  assumes "chain m p (xs @ [(a, s, f)]) 0" "layout lo (xs @ [(a, s, f)]) (unat b)" "unat b + 12 < 4294967296" "b \<noteq> 0"
    and m1: "m1 = (put_le32 (b + 4) 0 (put_le32 b sz m))(b + 8 := 0)"
  shows "last_block m1 p = Some a" "chain (put_le32 (a + 4) b m1) p (xs @ [(a, s, f), (b, sz, False)]) 0"
proof -
  let ?m = "put_le32 (a + 4) b m1"
  note new = new_header [of b sz m, folded m1]
  have b: "unat b + 12 \<le> 4294967296" "unat b < 4294967296" using assms(3) by simp_all
  have a: "unat a + 12 \<le> unat b" "unat a + 12 + unat s \<le> unat b" using layout_split(3) [OF assms(2)] by simp_all
  have "\<forall>x \<in> set (xs @ [(a, s, f)]). same_header m m1 (fst x)"
  proof
    fix x assume "x \<in> set (xs @ [(a, s, f)])"
    then have "unat (fst x) + 12 \<le> unat b" using layout_bounds [OF assms(2), of "fst x" "fst (snd x)" "snd (snd x)"] by simp
    then show "same_header m m1 (fst x)" using b(2) by (intro same_headerI) (linarith, meson new(4) [OF b(1)] le_trans)
  qed
  then have c1: "chain m1 p (xs @ [(a, s, f)]) 0" using chain_cong [OF assms(1)] by blast
  then show "last_block m1 p = Some a" by (rule last_block_chain)
  have a12: "unat a + 12 \<le> 4294967296" using a(1) b(2) by linarith
  note put = put_next [OF a12, of b m1]
  have "\<forall>x. ?m x \<noteq> m1 x \<longrightarrow> unat a \<le> unat x \<and> unat x < unat a + 12 + unat s" using put(4) by force
  note xs = chain_others(1) [where m' = ?m, OF c1 assms(2) b(2) this]
  have "same_header m1 ?m b" using a(1) b by (intro same_headerI) (linarith, meson put(4) less_le_trans)
  then have "chain ?m b [(b, sz, False)] 0" using new(1-3) [OF b(1)] assms(4) by (simp add: same_header_blk)
  then show "chain ?m p (xs @ [(a, s, f), (b, sz, False)]) 0" using xs c1 put(1-3) by (auto simp: chain_append)
qed

abbreviation HEAP_LIMIT :: nat where "HEAP_LIMIT \<equiv> 0xBFFFD000"

lemma malloc_reuse:
  assumes "heap_ok h bs" "find (\<lambda>(a, s, f). f \<and> align_up sz \<le> s) bs = Some (a, s, f)" "sz \<noteq> 0"
  shows "\<exists>h'. malloc sz h = Some (a + HEADER, h') \<and> heap_ok h' (snd (alloc_in (align_up sz) b bs)) \<and> hbrk h' = hbrk h \<and>
    (\<forall>x. hmem h' x \<noteq> hmem h x \<longrightarrow> in_header bs x)"
proof -
  obtain xs ys where bs: "bs = xs @ (a, s, True) # ys" "snd (alloc_in (align_up sz) b bs) = xs @ (a, s, False) # ys"
    using alloc_in_reuse [OF assms(2), of b] by auto
  have c: "chain (hmem h) (free_list h) bs 0" and l: "layout HEAP_START bs (unat (hbrk h))" using assms(1) by (simp_all add: heap_ok_def)
  have fl: "free_list h \<noteq> 0" using c bs(1) by (cases xs) auto
  have "HEAP_START \<le> unat a" using layout_bounds [OF l, of a s True] bs(1) by simp
  then have a: "a \<noteq> 0" by auto
  have "find_free_block (hmem h) (free_list h) (align_up sz) = Some a"
    using find_free_block_chain [OF c, of "align_up sz"] assms(2) by simp
  then have m: "malloc sz h = Some (a + HEADER, h\<lparr>hmem := (hmem h)(a + 8 := 0)\<rparr>)" using fl a assms(3) by (simp add: malloc_def)
  have u: "unat (a + 8) = unat a + 8"
    using unat_add32 [of a 8] layout_split(3) [OF l [unfolded bs(1)]] u32_bound [of "hbrk h"] by simp
  then have "in_header bs (a + 8)" unfolding in_header_def by (intro bexI [of _ "(a, s, True)"]) (simp_all add: bs(1))
  moreover have "chain ((hmem h)(a + 8 := 0)) (free_list h) (xs @ (a, s, False) # ys) 0"
    using chain_mark [OF c [unfolded bs(1)] l [unfolded bs(1)], of 0] by simp
  moreover have "layout HEAP_START (xs @ (a, s, False) # ys) (unat (hbrk h))" using l by (simp add: bs(1) layout_append)
  ultimately show ?thesis using m bs(2) by (auto simp: heap_ok_def)
qed

lemma malloc_new:
  assumes "heap_ok h bs" "find (\<lambda>(a, s, f). f \<and> align_up sz \<le> s) bs = None" "sz \<noteq> 0"
    and size: "12 + unat (align_up sz) \<le> 0x7FFFF000" "unat (hbrk h) + pages (12 + unat (align_up sz)) \<le> HEAP_LIMIT"
  shows "\<exists>h'. malloc sz h = Some (hbrk h + HEADER, h') \<and> heap_ok h' (bs @ [(hbrk h, align_up sz, False)]) \<and>
    unat (hbrk h') = unat (hbrk h) + pages (12 + unat (align_up sz)) \<and>
    (\<forall>x. hmem h' x \<noteq> hmem h x \<longrightarrow> in_header (bs @ [(hbrk h, align_up sz, False)]) x)"
proof -
  let ?b = "hbrk h" and ?sz = "align_up sz"
  let ?m1 = "(put_le32 (?b + 4) 0 (put_le32 ?b ?sz (hmem h)))(?b + 8 := 0)"
  have c: "chain (hmem h) (free_list h) bs 0" and l: "layout HEAP_START bs (unat ?b)" using assms(1) by (simp_all add: heap_ok_def)
  have "HEAP_START \<le> unat ?b" by (rule layout_le [OF l])
  then have b0: "?b \<noteq> 0" by auto
  have pg: "12 + unat ?sz \<le> pages (12 + unat ?sz)" by (rule pages_ge)
  then have b: "unat ?b + 12 < 4294967296" "unat ?b + 12 \<le> 4294967296" using size by simp_all
  have u: "unat (?b + of_nat (pages (12 + unat ?sz))) = unat ?b + pages (12 + unat ?sz)" using size by (intro unat_add32) simp
  have lay: "layout HEAP_START (bs @ [(?b, ?sz, False)]) (unat ?b + pages (12 + unat ?sz))"
    using l pg by (intro layout_new) simp_all
  note req = request_mem_eq [OF size(1)]
  note new = new_header [OF b(2), of ?sz "hmem h"]
  show ?thesis
  proof (cases bs rule: rev_cases)
    case Nil
    then have "malloc sz h = Some (?b + HEADER, h\<lparr>hbrk := ?b + of_nat (pages (12 + unat ?sz)), hmem := ?m1, free_list := ?b\<rparr>)"
      using c assms(3) req by (simp add: malloc_def Let_def)
    moreover have "\<forall>x. ?m1 x \<noteq> hmem h x \<longrightarrow> in_header [(?b, ?sz, False)] x" using new(4) by (simp add: in_header_def)
    ultimately show ?thesis using Nil u new(1-3) b0 lay by (simp add: heap_ok_def)
  next
    case (snoc xs x)
    obtain a s f where x: "x = (a, s, f)" by (cases x)
    note bs = snoc [unfolded x]
    let ?m2 = "put_le32 (a + 4) ?b ?m1"
    note app = chain_append_new [OF c [unfolded bs] l [unfolded bs] b(1) b0 refl, of ?sz]
    have "free_list h \<noteq> 0" using c bs by (cases xs) auto
    moreover have "find_free_block (hmem h) (free_list h) ?sz = Some 0" using find_free_block_chain [OF c, of ?sz] assms(2) by simp
    ultimately have "malloc sz h = Some (?b + HEADER, h\<lparr>hbrk := ?b + of_nat (pages (12 + unat ?sz)), hmem := ?m2\<rparr>)"
      using assms(3) req app(1) by (simp add: malloc_def Let_def)
    moreover have "in_header (bs @ [(?b, ?sz, False)]) y" if "?m2 y \<noteq> hmem h y" for y
    proof -
      have "unat a + 12 \<le> 4294967296" using layout_split(3) [OF l [unfolded bs]] u32_bound [of ?b] by linarith
      note put = put_next(4) [OF this, where v = ?b and m = ?m1]
      have "?m2 y \<noteq> ?m1 y \<or> ?m1 y \<noteq> hmem h y" using that by metis
      then show ?thesis using put new(4) unfolding in_header_def bs by auto
    qed
    ultimately show ?thesis using u lay app(2) by (simp add: heap_ok_def bs)
  qed
qed

section \<open>Memory in use\<close>

text \<open>The regions handed out and not freed: start and length.\<close>

definition live :: "blk list \<Rightarrow> (u32 \<times> nat) set" where
  "live bs = {(a + HEADER, unat s) | a s. (a, s, False) \<in> set bs}"

definition disjoint_in :: "(u32 \<times> nat) set \<Rightarrow> nat \<Rightarrow> bool" where
  "disjoint_in R hi \<longleftrightarrow> (\<forall>(p, k) \<in> R. HEAP_START < unat p \<and> unat p + k \<le> hi \<and>
     (\<forall>(q, l) \<in> R. (p, k) = (q, l) \<or> unat p + k \<le> unat q \<or> unat q + l \<le> unat p))"

lemma layout_apart:
  assumes "layout lo bs hi" "(a, s, f) \<in> set bs" "(a', s', f') \<in> set bs"
  shows "(a, s, f) = (a', s', f') \<or> unat a + 12 + unat s \<le> unat a' \<or> unat a' + 12 + unat s' \<le> unat a"
proof -
  obtain xs ys where bs: "bs = xs @ (a, s, f) # ys" using split_list [OF assms(2)] by blast
  have "(a', s', f') \<in> set xs \<or> (a', s', f') = (a, s, f) \<or> (a', s', f') \<in> set ys" using assms(3) bs by auto
  then show ?thesis using layout_split(1,2) [OF assms(1) [unfolded bs], of a' s' f'] by auto
qed

lemma heap_unat:
  fixes b :: u32
  assumes "layout lo bs (unat b)" "(a, s, f) \<in> set bs" "j \<le> unat s"
  shows "unat (a + HEADER) = unat a + 12" "unat (a + HEADER + of_nat j) = unat a + 12 + j"
proof -
  have "unat a + 12 + unat s < 4294967296"
    using layout_bounds [OF assms(1,2)] u32_bound [of b] by linarith
  then show "unat (a + HEADER) = unat a + 12" "unat (a + HEADER + of_nat j) = unat a + 12 + j"
    using unat_add32 [of a 12] unat_add32 [of a "12 + j"] assms(3) by (simp_all add: add.assoc)
qed

lemma live_disjoint:
  assumes "heap_ok h bs"
  shows "disjoint_in (live bs) (unat (hbrk h))"
proof -
  have l: "layout HEAP_START bs (unat (hbrk h))" using assms by (simp add: heap_ok_def)
  have "HEAP_START < unat (a + HEADER) \<and> unat (a + HEADER) + unat s \<le> unat (hbrk h)" if "(a, s, False) \<in> set bs" for a s
    using layout_bounds [OF l that] heap_unat(1) [OF l that, of 0] by simp
  moreover have "(a, s) = (a', s') \<or> unat (a + HEADER) + unat s \<le> unat (a' + HEADER) \<or> unat (a' + HEADER) + unat s' \<le> unat (a + HEADER)"
    if "(a, s, False) \<in> set bs" "(a', s', False) \<in> set bs" for a s a' s'
    using layout_apart [OF l that] heap_unat(1) [OF l that(1), of 0] heap_unat(1) [OF l that(2), of 0] by auto
  ultimately show ?thesis unfolding disjoint_in_def live_def by blast
qed

lemma live_not_header:
  assumes "heap_ok h bs" "(p, k) \<in> live bs" "j < k"
  shows "\<not> in_header bs (p + of_nat j)"
proof
  assume "in_header bs (p + of_nat j)"
  then obtain a' s' f' where h: "(a', s', f') \<in> set bs" "unat a' \<le> unat (p + of_nat j)" "unat (p + of_nat j) < unat a' + 12"
    by (auto simp: in_header_def)
  obtain a s where a: "(a, s, False) \<in> set bs" "p = a + HEADER" "k = unat s" using assms(2) by (auto simp: live_def)
  have l: "layout HEAP_START bs (unat (hbrk h))" using assms(1) by (simp add: heap_ok_def)
  have "unat (p + of_nat j) = unat a + 12 + j" using heap_unat(2) [OF l a(1), of j] assms(3) a(2,3) by simp
  then show False using layout_apart [OF l a(1) h(1)] h(2,3) assms(3) a(3) by auto
qed

text \<open>Marking one block as used or free changes exactly its membership.\<close>

lemma live_mark:
  assumes "layout lo (xs @ (a, s, f) # ys) (unat b)"
  shows "live (xs @ (a, s, False) # ys) = insert (a + HEADER, unat s) (live (xs @ (a, s, True) # ys))"
    "(a + HEADER, unat s) \<notin> live (xs @ (a, s, True) # ys)"
proof -
  show "live (xs @ (a, s, False) # ys) = insert (a + HEADER, unat s) (live (xs @ (a, s, True) # ys))"
    by (auto simp: live_def)
  show "(a + HEADER, unat s) \<notin> live (xs @ (a, s, True) # ys)"
    using layout_split(1,2) [OF assms] by (fastforce simp: live_def)
qed

lemma alloc_keeps:
  assumes "heap_ok h bs" "0 < unat sz" "unat sz < 4294967288"
    and "unat (hbrk h) + pages (12 + unat (align_up sz)) \<le> HEAP_LIMIT"
  shows "\<exists>ptr n h' bs'. malloc sz h = Some (ptr, h') \<and> heap_ok h' bs' \<and>
    alloc_in (align_up sz) (hbrk h) bs = (ptr - HEADER, bs') \<and> unat sz \<le> n \<and>
    (ptr, n) \<notin> live bs \<and> live bs' = insert (ptr, n) (live bs) \<and> disjoint_in (live bs') (unat (hbrk h')) \<and>
    (\<forall>(p, k) \<in> live bs. \<forall>j < k. hmem h' (p + of_nat j) = hmem h (p + of_nat j)) \<and>
    (\<forall>x. hmem h' x \<noteq> hmem h x \<longrightarrow> in_header bs' x)"
proof -
  have l: "layout HEAP_START bs (unat (hbrk h))" using assms(1) by (simp add: heap_ok_def)
  have sz: "sz \<noteq> 0" "unat sz \<le> unat (align_up sz)" using assms(2) align_up_bounds [OF assms(3)] by auto
  have "12 + unat (align_up sz) \<le> 0x7FFFF000"
    using pages_ge [of "12 + unat (align_up sz)"] layout_le [OF l] assms(4) by linarith
  note room = this assms(4)
  show ?thesis
  proof (cases "find (\<lambda>(a, s, f). f \<and> align_up sz \<le> s) bs")
    case None
    let ?bs = "bs @ [(hbrk h, align_up sz, False)]"
    obtain h' where h': "malloc sz h = Some (hbrk h + HEADER, h')" "heap_ok h' ?bs"
      "\<forall>x. hmem h' x \<noteq> hmem h x \<longrightarrow> in_header ?bs x"
      using malloc_new [OF assms(1) None sz(1) room] by auto
    have lv: "live ?bs = insert (hbrk h + HEADER, unat (align_up sz)) (live bs)" by (auto simp: live_def)
    have "\<forall>(p, k) \<in> live bs. \<forall>j < k. hmem h' (p + of_nat j) = hmem h (p + of_nat j)"
      using live_not_header [OF h'(2)] h'(3) lv by blast
    moreover have "(hbrk h + HEADER, unat (align_up sz)) \<notin> live bs"
      using layout_split(1) [OF h'(2) [unfolded heap_ok_def, THEN conjunct2]] by (fastforce simp: live_def)
    moreover note live_disjoint [OF h'(2)] alloc_in_new [OF None, of "hbrk h"] sz(2) h' lv
    ultimately show ?thesis
      by (intro exI [of _ "hbrk h + HEADER"] exI [of _ "unat (align_up sz)"] exI [of _ h'] exI [of _ ?bs]) simp
  next
    case (Some b)
    obtain a s f where b: "b = (a, s, f)" by (cases b)
    note found = Some [unfolded b]
    obtain xs ys where bs: "bs = xs @ (a, s, True) # ys"
      "alloc_in (align_up sz) (hbrk h) bs = (a, xs @ (a, s, False) # ys)" "align_up sz \<le> s"
      using alloc_in_reuse [OF found, of "hbrk h"] by auto
    let ?bs = "xs @ (a, s, False) # ys"
    obtain h' where h': "malloc sz h = Some (a + HEADER, h')" "heap_ok h' ?bs" "\<forall>x. hmem h' x \<noteq> hmem h x \<longrightarrow> in_header bs x"
      using malloc_reuse [OF assms(1) found sz(1), of "hbrk h"] bs(2) by auto
    have mark: "live ?bs = insert (a + HEADER, unat s) (live bs)" "(a + HEADER, unat s) \<notin> live bs"
      using live_mark [OF l [unfolded bs(1)]] bs(1) by simp_all
    have "\<forall>(p, k) \<in> live bs. \<forall>j < k. hmem h' (p + of_nat j) = hmem h (p + of_nat j)"
      using live_not_header [OF assms(1)] h'(3) by blast
    moreover have "unat sz \<le> unat s" using sz(2) bs(3) by (simp add: word_le_nat_alt)
    moreover have "\<forall>x. hmem h' x \<noteq> hmem h x \<longrightarrow> in_header ?bs x" using h'(3) bs(1) by (auto simp: in_header_def)
    moreover note live_disjoint [OF h'(2)] mark h'(1,2) bs(2)
    ultimately show ?thesis
      by (intro exI [of _ "a + HEADER"] exI [of _ "unat s"] exI [of _ h'] exI [of _ ?bs]) simp
  qed
qed

text \<open>
  C25: allocation. On a well-formed heap with room below the stacks, a request of \<open>sz\<close> bytes, not zero and at most \<open>2\<^sup>32 - 8\<close>,
  returns; the region it gets has at least \<open>sz\<close> bytes, was not in use, lies below the break and overlaps no region
  in use, no byte of any region in use changes, and the heap stays well-formed: its blocks are those of
  first fit on the list of blocks.
\<close>

theorem malloc_correct:
  assumes "heap_ok h bs" "0 < unat sz" "unat sz < 4294967288"
    and "unat (hbrk h) + pages (12 + unat (align_up sz)) \<le> HEAP_LIMIT"
  shows "\<exists>ptr n h' bs'. malloc sz h = Some (ptr, h') \<and> heap_ok h' bs' \<and>
    alloc_in (align_up sz) (hbrk h) bs = (ptr - HEADER, bs') \<and> unat sz \<le> n \<and>
    (ptr, n) \<notin> live bs \<and> live bs' = insert (ptr, n) (live bs) \<and> disjoint_in (live bs') (unat (hbrk h')) \<and>
    (\<forall>(p, k) \<in> live bs. \<forall>j < k. hmem h' (p + of_nat j) = hmem h (p + of_nat j))"
  using alloc_keeps [OF assms] by blast

text \<open>An empty heap whose break is at its start.\<close>

definition empty_heap :: uheap where
  "empty_heap = \<lparr>hmem = (\<lambda>_. 0), hbrk = 0x80000000, free_list = 0\<rparr>"

lemma empty_heap_ok: "heap_ok empty_heap []"
  by (simp add: heap_ok_def empty_heap_def)

theorem malloc_correct_witness:
  "\<exists>h' bs'. malloc 100 empty_heap = Some (0x8000000C, h') \<and> heap_ok h' bs' \<and> live bs' = {(0x8000000C, 104)}"
proof -
  have a: "align_up 100 = 104" by (simp add: align_up_def)
  have "\<exists>ptr n h' bs'. malloc 100 empty_heap = Some (ptr, h') \<and> heap_ok h' bs' \<and>
    alloc_in (align_up 100) (hbrk empty_heap) [] = (ptr - HEADER, bs') \<and> unat (100 :: u32) \<le> n \<and>
    (ptr, n) \<notin> live [] \<and> live bs' = insert (ptr, n) (live []) \<and> disjoint_in (live bs') (unat (hbrk h')) \<and>
    (\<forall>(p, k) \<in> live []. \<forall>j < k. hmem h' (p + of_nat j) = hmem empty_heap (p + of_nat j))"
    by (rule malloc_correct [OF empty_heap_ok]) (simp_all add: a pages_def empty_heap_def)
  then obtain ptr n h' bs' where *: "malloc 100 empty_heap = Some (ptr, h')" "heap_ok h' bs'" "0x80000000 = ptr - HEADER"
    "[(0x80000000, 104, False)] = bs'" "live bs' = insert (ptr, n) (live [])" by (auto simp: a empty_heap_def)
  then have "live bs' = {(0x8000000C, 104)}" by (auto simp: live_def)
  then show ?thesis using * by (intro exI [of _ h'] exI [of _ bs']) (auto simp: algebra_simps)
qed

section \<open>Freeing and resizing\<close>

lemma chain_header: "chain m p bs q \<Longrightarrow> (a, s, f) \<in> set bs \<Longrightarrow> blk_size m a = s \<and> blk_free m a = f"
  by (induction bs arbitrary: p) auto

lemma ufree_block:
  assumes "heap_ok h bs" "(ptr, n) \<in> live bs"
  obtains a s xs ys where "ptr = a + HEADER" "n = unat s" "bs = xs @ (a, s, False) # ys"
    "heap_ok (ufree ptr h) (xs @ (a, s, True) # ys)" "live (xs @ (a, s, True) # ys) = live bs - {(ptr, n)}"
    "blk_size (hmem h) (ptr - HEADER) = s"
    "\<And>x. hmem (ufree ptr h) x \<noteq> hmem h x \<Longrightarrow> in_header bs x"
proof -
  obtain a s where a: "(a, s, False) \<in> set bs" "ptr = a + HEADER" "n = unat s" using assms(2) by (auto simp: live_def)
  obtain xs ys where bs: "bs = xs @ (a, s, False) # ys" using split_list [OF a(1)] by blast
  have c: "chain (hmem h) (free_list h) bs 0" and l: "layout HEAP_START bs (unat (hbrk h))" using assms(1) by (simp_all add: heap_ok_def)
  have u: "unat (a + 8) = unat a + 8"
    using unat_add32 [of a 8] layout_split(3) [OF l [unfolded bs]] u32_bound [of "hbrk h"] by simp
  have nz: "ptr \<noteq> 0" using heap_unat(1) [OF l a(1), of 0] a(2) by auto
  have fr: "ufree ptr h = h\<lparr>hmem := (hmem h)(a + 8 := 1)\<rparr>" using nz a(2) by (simp add: ufree_def)
  show ?thesis
  proof (rule that [OF a(2,3) bs])
    show "heap_ok (ufree ptr h) (xs @ (a, s, True) # ys)"
      using chain_mark [OF c [unfolded bs] l [unfolded bs], of 1] l by (simp add: heap_ok_def fr bs layout_append)
    show "live (xs @ (a, s, True) # ys) = live bs - {(ptr, n)}"
      using live_mark [OF l [unfolded bs]] a(2,3) bs by auto
    show "blk_size (hmem h) (ptr - HEADER) = s" using chain_header [OF c a(1)] a(2) by simp
    show "in_header bs x" if "hmem (ufree ptr h) x \<noteq> hmem h x" for x
    proof -
      have "x = a + 8" using that fr by (auto split: if_splits)
      then show ?thesis using u a(1) unfolding in_header_def by (intro bexI [of _ "(a, s, False)"]) simp_all
    qed
  qed
qed

text \<open>
  Freeing. Freeing a region in use takes exactly that region out of use, changes no byte of any region and keeps the heap well-formed;
  the memory is available again: any later request, as long as nothing else happens, that fits the freed region is
  served without moving the break.
\<close>

theorem free_correct:
  assumes "heap_ok h bs" "(ptr, n) \<in> live bs"
  shows "\<exists>bs'. heap_ok (ufree ptr h) bs' \<and> live bs' = live bs - {(ptr, n)} \<and> hbrk (ufree ptr h) = hbrk h \<and>
    (\<forall>(p, k) \<in> live bs. \<forall>j < k. hmem (ufree ptr h) (p + of_nat j) = hmem h (p + of_nat j)) \<and>
    (\<forall>sz. sz \<noteq> 0 \<and> unat (align_up sz) \<le> n \<longrightarrow> (\<exists>p h'. malloc sz (ufree ptr h) = Some (p, h') \<and> hbrk h' = hbrk h))"
proof -
  obtain a s xs ys where b: "ptr = a + HEADER" "n = unat s" "bs = xs @ (a, s, False) # ys"
    "heap_ok (ufree ptr h) (xs @ (a, s, True) # ys)" "live (xs @ (a, s, True) # ys) = live bs - {(ptr, n)}"
    "\<And>x. hmem (ufree ptr h) x \<noteq> hmem h x \<Longrightarrow> in_header bs x"
    using ufree_block [OF assms] by metis
  have brk: "hbrk (ufree ptr h) = hbrk h" by (simp add: ufree_def)
  have "\<exists>p h'. malloc sz (ufree ptr h) = Some (p, h') \<and> hbrk h' = hbrk h" if "sz \<noteq> 0" "unat (align_up sz) \<le> n" for sz
  proof -
    have "find (\<lambda>(a, s, f). f \<and> align_up sz \<le> s) (xs @ (a, s, True) # ys) \<noteq> None"
      using that(2) b(2) by (auto simp: find_None_iff word_le_nat_alt)
    then obtain a' s' f' where "find (\<lambda>(a, s, f). f \<and> align_up sz \<le> s) (xs @ (a, s, True) # ys) = Some (a', s', f')" by auto
    from malloc_reuse [OF b(4) this that(1), of 0] show ?thesis using brk by auto
  qed
  moreover have "\<forall>(p, k) \<in> live bs. \<forall>j < k. hmem (ufree ptr h) (p + of_nat j) = hmem h (p + of_nat j)"
    using live_not_header [OF assms(1)] b(6) by blast
  ultimately show ?thesis using b(4,5) brk by blast
qed

text \<open>The copy loop.\<close>

lemma realloc_copy_from:
  assumes "n = unat (blk_size m (src - HEADER))" "N = min n (unat sz)" "i \<le> N"
    and apart: "\<And>j. j < 12 + n \<Longrightarrow> N \<le> unat (src - HEADER + of_nat j - dst)"
  shows "realloc_copy (upd_range m dst i (\<lambda>j. m (src + of_nat j))) dst src sz (of_nat i) = upd_range m dst N (\<lambda>j. m (src + of_nat j))"
proof -
  have keep: "blk_size (upd_range m dst i f) (src - HEADER) = blk_size m (src - HEADER)" if "i \<le> N" for i f
  proof -
    have "upd_range m dst i f (src - HEADER + of_nat j) = m (src - HEADER + of_nat j)" if "j < 4" for j
      using apart [of j] that \<open>i \<le> N\<close> by (intro upd_range_notin) simp
    from this [of 0] this [of 1] this [of 2] this [of 3] show ?thesis by (simp add: blk_size_def le32_def)
  qed
  show ?thesis
  using assms(3)
proof (induction "N - i" arbitrary: i)
  case 0
  then have i: "i = N" by simp
  have N: "N < 4294967296" unfolding assms(2) using u32_bound [of sz] by linarith
  have "unat (of_nat N :: u32) = N" using N by simp
  moreover have "N = n \<or> N = unat sz" using assms(2) by auto
  ultimately show ?case using keep [of N] assms(1) unfolding i
    by (subst realloc_copy.simps) (auto simp: word_less_nat_alt)
next
  case (Suc k)
  have N: "N < 4294967296" unfolding assms(2) using u32_bound [of sz] by linarith
  then have i: "i < N" "i < 4294967296" using Suc(2) by linarith+
  let ?m = "upd_range m dst i (\<lambda>j. m (src + of_nat j))"
  have src: "?m (src + of_nat i) = m (src + of_nat i)"
  proof (rule upd_range_notin)
    have "N \<le> unat (src + of_nat i - dst)" using apart [of "12 + i"] i assms(2) by (simp add: algebra_simps)
    then show "i \<le> unat (src + of_nat i - dst)" using i by linarith
  qed
  then have step: "?m(dst + of_nat i := ?m (src + of_nat i)) = upd_range m dst (Suc i) (\<lambda>j. m (src + of_nat j))"
    using i by (subst upd_range_Suc) (auto intro!: upd_range_cong simp: less_Suc_eq)
  have u: "unat (of_nat i :: u32) = i" using i by simp
  have "(of_nat i :: u32) < blk_size ?m (src - HEADER) \<and> of_nat i < sz"
    using keep [of i] assms(1,2) i u by (simp add: word_less_nat_alt)
  then have "realloc_copy ?m dst src sz (of_nat i) = realloc_copy (upd_range m dst (Suc i) (\<lambda>j. m (src + of_nat j))) dst src sz (of_nat (Suc i))"
    unfolding step [symmetric] by (subst realloc_copy.simps) (simp add: add.commute)
  also have "\<dots> = upd_range m dst N (\<lambda>j. m (src + of_nat j))" using Suc(2) i by (intro Suc(1)) simp_all
  finally show ?case .
qed
qed

lemma live_apart:
  assumes "heap_ok h bs" "(p, k) \<in> live bs" "(q, l) \<in> live bs" "(p, k) \<noteq> (q, l)" "j < 12 + l"
  shows "k \<le> unat (q - HEADER + of_nat j - p)"
proof -
  obtain a s where a: "(a, s, False) \<in> set bs" "p = a + HEADER" "k = unat s" using assms(2) by (auto simp: live_def)
  obtain a' s' where a': "(a', s', False) \<in> set bs" "q = a' + HEADER" "l = unat s'" using assms(3) by (auto simp: live_def)
  have lay: "layout HEAP_START bs (unat (hbrk h))" using assms(1) by (simp add: heap_ok_def)
  have ub: "unat a + 12 + unat s < 4294967296" "unat a' + 12 + unat s' < 4294967296"
    using layout_bounds [OF lay a(1)] layout_bounds [OF lay a'(1)] u32_bound [of "hbrk h"] by linarith+
  have q: "unat (q - HEADER + of_nat j) = unat a' + j" using a'(2,3) assms(5) ub(2) unat_add32 [of a' j] by simp
  have p: "unat p = unat a + 12" using a(2) ub(1) unat_add32 [of a 12] by simp
  have "unat a + 12 + unat s \<le> unat a' \<or> unat a' + 12 + unat s' \<le> unat a" using layout_apart [OF lay a(1) a'(1)] assms(4) a a' by auto
  then show ?thesis
  proof
    assume "unat a + 12 + unat s \<le> unat a'"
    then show ?thesis using q p a(3) by (simp add: unat_sub_le)
  next
    assume le: "unat a' + 12 + unat s' \<le> unat a"
    let ?y = "q - HEADER + of_nat j"
    have "unat (?y - p) = 4294967296 + unat ?y - unat p"
      using le q p assms(5) a'(3) by (simp add: unat_sub_if' word_size)
    then show ?thesis using q p a(3) ub(1) by linarith
  qed
qed

lemma realloc_copy_apart:
  assumes "heap_ok h bs" "(dst, k) \<in> live bs" "(src, n) \<in> live bs" "(dst, k) \<noteq> (src, n)" "unat sz \<le> k"
  shows "realloc_copy (hmem h) dst src sz 0 = upd_range (hmem h) dst (min n (unat sz)) (\<lambda>j. hmem h (src + of_nat j))"
proof -
  obtain s where "blk_size (hmem h) (src - HEADER) = s" "n = unat s" using ufree_block [OF assms(1,3)] by metis
  then have "n = unat (blk_size (hmem h) (src - HEADER))" by simp
  moreover have "min n (unat sz) \<le> unat (src - HEADER + of_nat j - dst)" if "j < 12 + n" for j
    using live_apart [OF assms(1-4) that] assms(5) by linarith
  ultimately show ?thesis using realloc_copy_from [of n "hmem h" src "min n (unat sz)" sz 0 dst] by simp
qed

lemma chain_payload:
  assumes "heap_ok h bs" "\<And>x. m' x \<noteq> hmem h x \<Longrightarrow> \<not> in_header bs x"
  shows "heap_ok (h\<lparr>hmem := m'\<rparr>) bs"
proof -
  have c: "chain (hmem h) (free_list h) bs 0" and l: "layout HEAP_START bs (unat (hbrk h))" using assms(1) by (simp_all add: heap_ok_def)
  have "same_header (hmem h) m' (fst b)" if "b \<in> set bs" for b
  proof (rule same_headerI)
    show "unat (fst b) + 12 \<le> 4294967296"
      using layout_bounds [OF l, of "fst b" "fst (snd b)" "snd (snd b)"] that u32_bound [of "hbrk h"] by (simp del: u32_bound)
    show "unat x < unat (fst b) \<or> unat (fst b) + 12 \<le> unat x" if "m' x \<noteq> hmem h x" for x
      using assms(2) [OF that] \<open>b \<in> set bs\<close> by (cases b) (force simp: in_header_def)
  qed
  then show ?thesis using chain_cong [OF c] l by (simp add: heap_ok_def)
qed

lemma ufree_live:
  assumes "heap_ok h bs" "(ptr, n) \<in> live bs"
  shows "\<exists>bs'. heap_ok (ufree ptr h) bs' \<and> live bs' = live bs - {(ptr, n)} \<and> (\<forall>x. hmem (ufree ptr h) x \<noteq> hmem h x \<longrightarrow> in_header bs x)"
  by (rule ufree_block [OF assms]) blast

lemma upd_range_changed:
  assumes "upd_range m p k f x \<noteq> m x"
  obtains j where "j < k" "x = p + of_nat j"
proof
  show "unat (x - p) < k" using assms by (auto simp: upd_range_def split: if_splits)
  show "x = p + of_nat (unat (x - p))" by simp
qed

text \<open>
  C26: resizing. Resizing a region in use to \<open>sz\<close> bytes returns a region of at least that size in its place, in use and disjoint from the
  others, that starts with the bytes of the old one as far as both go; the other regions in use keep their bytes.
\<close>

theorem realloc_correct:
  assumes "heap_ok h bs" "(ptr, n) \<in> live bs" "0 < unat sz" "unat sz < 4294967288"
    and "unat (hbrk h) + pages (12 + unat (align_up sz)) \<le> HEAP_LIMIT"
  shows "\<exists>ptr' n' h' bs'. realloc ptr sz h = Some (ptr', h') \<and> heap_ok h' bs' \<and>
    live bs' = insert (ptr', n') (live bs - {(ptr, n)}) \<and> disjoint_in (live bs') (unat (hbrk h')) \<and> unat sz \<le> n' \<and>
    (\<forall>j < min n (unat sz). hmem h' (ptr' + of_nat j) = hmem h (ptr + of_nat j)) \<and>
    (\<forall>(p, k) \<in> live bs - {(ptr, n)}. \<forall>j < k. hmem h' (p + of_nat j) = hmem h (p + of_nat j))"
proof -
  obtain a s where a: "ptr = a + HEADER" "n = unat s" "blk_size (hmem h) (ptr - HEADER) = s"
    using ufree_block [OF assms(1,2)] by metis
  have nz: "ptr \<noteq> 0" "sz \<noteq> 0" using live_disjoint [OF assms(1)] assms(2,3) by (auto simp: disjoint_in_def)
  show ?thesis
  proof (cases "sz \<le> s")
    case True
    have "realloc ptr sz h = Some (ptr, h)" using True nz a(3) by (simp add: realloc_def)
    moreover have "unat sz \<le> n" using True a(2) by (simp add: word_le_nat_alt)
    moreover have "live bs = insert (ptr, n) (live bs - {(ptr, n)})" using assms(2) by blast
    ultimately show ?thesis using assms(1) live_disjoint [OF assms(1)]
      by (intro exI [of _ ptr] exI [of _ n] exI [of _ h] exI [of _ bs]) auto
  next
    case False
    obtain p1 n1 h1 bs1 where m: "malloc sz h = Some (p1, h1)" "heap_ok h1 bs1" "unat sz \<le> n1" "(p1, n1) \<notin> live bs"
      "live bs1 = insert (p1, n1) (live bs)" "\<forall>(p, k) \<in> live bs. \<forall>j < k. hmem h1 (p + of_nat j) = hmem h (p + of_nat j)"
      using alloc_keeps [OF assms(1,3-5)] by blast
    let ?m = "upd_range (hmem h1) p1 (min n (unat sz)) (\<lambda>j. hmem h1 (ptr + of_nat j))"
    let ?h = "h1\<lparr>hmem := ?m\<rparr>"
    have mem: "(p1, n1) \<in> live bs1" "(ptr, n) \<in> live bs1" "(p1, n1) \<noteq> (ptr, n)" using m(4,5) assms(2) by auto
    have copy: "realloc_copy (hmem h1) p1 ptr sz 0 = ?m" using realloc_copy_apart [OF m(2) mem m(3)] .
    have "heap_ok ?h bs1"
      using live_not_header [OF m(2) mem(1)] m(3) by (intro chain_payload [OF m(2)]) (auto elim!: upd_range_changed)
    from ufree_live [OF this mem(2)] obtain bs2 where f: "heap_ok (ufree ptr ?h) bs2" "live bs2 = live bs1 - {(ptr, n)}"
      "\<forall>x. hmem (ufree ptr ?h) x \<noteq> ?m x \<longrightarrow> in_header bs1 x" by auto
    have lv: "live bs2 = insert (p1, n1) (live bs - {(ptr, n)})" using f(2) m(4,5) mem(3) by auto
    have keep: "hmem (ufree ptr ?h) (p + of_nat j) = ?m (p + of_nat j)" if "(p, k) \<in> live bs1" "j < k" for p k j
      using f(3) live_not_header [OF m(2) that] by blast
    have "hmem (ufree ptr ?h) (p1 + of_nat j) = hmem h (ptr + of_nat j)" if "j < min n (unat sz)" for j
    proof -
      have "min n (unat sz) \<le> 4294967296" using u32_bound [of sz] by linarith
      then have "?m (p1 + of_nat j) = hmem h1 (ptr + of_nat j)" using that by (intro upd_range_at)
      moreover have "hmem h1 (ptr + of_nat j) = hmem h (ptr + of_nat j)" using m(6) assms(2) that by fastforce
      ultimately show ?thesis using keep [OF mem(1), of j] that m(3) by simp
    qed
    moreover have "hmem (ufree ptr ?h) (p + of_nat j) = hmem h (p + of_nat j)" if pk: "(p, k) \<in> live bs - {(ptr, n)}" "j < k" for p k j
    proof -
      have "(p, k) \<in> live bs1" "(p1, n1) \<noteq> (p, k)" using pk m(4,5) by auto
      from live_apart [OF m(2) mem(1) this, of "12 + j"] have "n1 \<le> unat (p + of_nat j - p1)" using pk(2) by (simp add: algebra_simps)
      then have "?m (p + of_nat j) = hmem h1 (p + of_nat j)" using m(3) by (intro upd_range_notin) linarith
      then show ?thesis using keep [OF \<open>(p, k) \<in> live bs1\<close> pk(2)] m(6) pk by fastforce
    qed
    moreover have "realloc ptr sz h = Some (p1, ufree ptr ?h)" using False nz a(3) m(1) copy by (simp add: realloc_def)
    ultimately show ?thesis using f(1) lv live_disjoint [OF f(1)] m(3)
      by (intro exI [of _ p1] exI [of _ n1] exI [of _ "ufree ptr ?h"] exI [of _ bs2]) auto
  qed
qed

definition two_heap :: uheap where
  "two_heap = \<lparr>hmem = (put_le32 0x80001000 8 (put_le32 0x80000004 0x80001000 (put_le32 0x80000000 8 (\<lambda>_. 0))))(0x8000000C := 65),
     hbrk = 0x80002000, free_list = 0x80000000\<rparr>"

lemma two_heap_ok: "heap_ok two_heap [(0x80000000, 8, False), (0x80001000, 8, False)]"
  by (simp add: heap_ok_def two_heap_def blk_size_def blk_free_def blk_next_def le32_def put_le32_def)

lemma two_heap_live: "live [(0x80000000, 8, False), (0x80001000, 8, False)] = {(0x8000000C, 8), (0x8000100C, 8)}"
  by (auto simp: live_def)

theorem free_correct_witness:
  "\<exists>bs'. heap_ok (ufree 0x8000000C two_heap) bs' \<and> live bs' = {(0x8000100C, 8)}"
  using free_correct [OF two_heap_ok, where ptr = "0x8000000C" and n = 8] by (auto simp: two_heap_live)

theorem realloc_correct_witness:
  "\<exists>ptr' n' h' bs'. realloc 0x8000000C 100 two_heap = Some (ptr', h') \<and> heap_ok h' bs' \<and> live bs' = {(ptr', n'), (0x8000100C, 8)} \<and>
     100 \<le> n' \<and> hmem h' ptr' = 65"
proof -
  have m: "hmem two_heap 0x8000000C = 65" by (simp add: two_heap_def)
  have "\<exists>ptr' n' h' bs'. realloc 0x8000000C 100 two_heap = Some (ptr', h') \<and> heap_ok h' bs' \<and>
    live bs' = insert (ptr', n') ({(0x8000000C, 8), (0x8000100C, 8)} - {(0x8000000C, 8)}) \<and> disjoint_in (live bs') (unat (hbrk h')) \<and> unat (100 :: u32) \<le> n' \<and>
    (\<forall>j < min 8 (unat (100 :: u32)). hmem h' (ptr' + of_nat j) = hmem two_heap (0x8000000C + of_nat j)) \<and>
    (\<forall>(p, k) \<in> {(0x8000000C, 8), (0x8000100C, 8)} - {(0x8000000C, 8)}. \<forall>j < k. hmem h' (p + of_nat j) = hmem two_heap (p + of_nat j))"
    unfolding two_heap_live [symmetric]
    by (rule realloc_correct [OF two_heap_ok]) (simp_all add: two_heap_live two_heap_def align_up_def pages_def)
  then obtain ptr' n' h' bs' where *: "realloc 0x8000000C 100 two_heap = Some (ptr', h')" "heap_ok h' bs'"
    "live bs' = {(ptr', n'), (0x8000100C, 8)}" "unat (100 :: u32) \<le> n'"
    "\<forall>j < min 8 (unat (100 :: u32)). hmem h' (ptr' + of_nat j) = hmem two_heap (0x8000000C + of_nat j)" by auto
  then show ?thesis using *(5) [rule_format, of 0] m by auto
qed

text \<open>
  A request of more than \<open>2\<^sup>32 - 8\<close> bytes wraps around to a block of no bytes when its size is aligned.
\<close>

lemma malloc_wraps: "align_up (- 1) = 0" "malloc (- 1) empty_heap = Some (0x8000000C, snd (request_mem 0 empty_heap)\<lparr>free_list := 0x80000000\<rparr>)"
  by (simp_all add: align_up_def malloc_def empty_heap_def request_mem_def usbrk_def Let_def)

end
