(* ===== verification/UString.thy ===== *)
theory UString
  imports KString
begin

text \<open>
  The string routines of user programs, \<^verbatim>\<open>user/include/string.h\<close>, on the bytes of a process's memory. A loop that may run for
  ever is \<open>option\<close>-valued. The loops that the library shares with the kernel's \<^verbatim>\<open>kstring.c\<close> line by line are those of
  \<open>KString\<close>; \<^verbatim>\<open>char\<close> is signed.
\<close>

section \<open>Definitions\<close>

definition u_strlen :: "mem \<Rightarrow> u32 \<Rightarrow> u32 option" where
  "u_strlen m str = strlen_loop m str 0"

definition u_strcmp :: "mem \<Rightarrow> u32 \<Rightarrow> u32 \<Rightarrow> u32 option" where
  "u_strcmp m a b = strcmp_loop m a b 0"

fun strncmp_loop :: "nat \<Rightarrow> mem \<Rightarrow> u32 \<Rightarrow> u32 \<Rightarrow> int" where
  "strncmp_loop 0 m a b = 0"
| "strncmp_loop (Suc n) m a b =
     (if m a = 0 \<or> m b = 0 then sint (m a) - sint (m b)
      else if m a \<noteq> m b then sint (m a) - sint (m b)
      else strncmp_loop n m (a + 1) (b + 1))"

definition strncmp :: "mem \<Rightarrow> u32 \<Rightarrow> u32 \<Rightarrow> int \<Rightarrow> int" where
  "strncmp m a b n = strncmp_loop (nat n) m a b"

definition u_strcpy :: "mem \<Rightarrow> u32 \<Rightarrow> u32 \<Rightarrow> mem option" where
  "u_strcpy m dst src = (if dst = 0 \<or> src = 0 then Some m else map_option snd (strcpy_loop m dst src 0))"

definition u_memcpy :: "mem \<Rightarrow> u32 \<Rightarrow> u32 \<Rightarrow> u32 \<Rightarrow> mem" where
  "u_memcpy m dst src sz = memcpy_loop (unat sz) m dst src"

definition u_memset :: "mem \<Rightarrow> u32 \<Rightarrow> u8 \<Rightarrow> u32 \<Rightarrow> mem" where
  "u_memset m dst val sz = memset_loop (unat sz) m dst val"

partial_function (option) strchr_loop :: "mem \<Rightarrow> u32 \<Rightarrow> u8 \<Rightarrow> u32 option" where
  "strchr_loop m s c =
     (if m s \<noteq> 0 then if m s = c then Some s else strchr_loop m (s + 1) c
      else Some (if c = 0 then s else 0))"

definition strchr :: "mem \<Rightarrow> u32 \<Rightarrow> u32 \<Rightarrow> u32 option" where
  "strchr m s c =
     (if ucast c = (0 :: u8) \<and> c \<noteq> 0 then map_option (\<lambda>_. 0) (strchr_loop m s 0) else strchr_loop m s (ucast c))"

definition strcat :: "mem \<Rightarrow> u32 \<Rightarrow> u32 \<Rightarrow> mem option" where
  "strcat m dst src = Option.bind (u_strlen m dst) (\<lambda>dst_len. u_strcpy m (dst + dst_len) src)"

abbreviation SPACE :: u8 where "SPACE \<equiv> 32"

partial_function (option) skip_spaces :: "mem \<Rightarrow> u32 \<Rightarrow> u32 option" where
  "skip_spaces m s = (if m s = SPACE then skip_spaces m (s + 1) else Some s)"

partial_function (option) find_end :: "mem \<Rightarrow> u32 \<Rightarrow> u32 option" where
  "find_end m s = (if m s \<noteq> 0 then find_end m (s + 1) else Some s)"

partial_function (option) trim_end :: "mem \<Rightarrow> u32 \<Rightarrow> u32 \<Rightarrow> mem option" where
  "trim_end m start e = (if e > start \<and> m e = SPACE then trim_end (m(e := 0)) start (e - 1) else Some m)"

definition trim :: "mem \<Rightarrow> u32 \<Rightarrow> (u32 \<times> mem) option" where
  "trim m s =
     Option.bind (skip_spaces m s) (\<lambda>start.
       if m start = 0 then Some (start, m)
       else
         Option.bind (find_end m start) (\<lambda>e.
         Option.bind (trim_end m start (e - 1)) (\<lambda>m. Some (start, m))))"

section \<open>The routines on strings as lists of bytes\<close>

lemma strchr_loop_str_at:
  "str_at m s xs \<Longrightarrow> c \<noteq> 0 \<Longrightarrow>
     strchr_loop m s c = Some (if c \<in> set xs then s + of_nat (length (takeWhile (\<lambda>x. x \<noteq> c) xs)) else 0)"
proof (induction xs arbitrary: s)
  case Nil
  then show ?case by (subst strchr_loop.simps) simp
next
  case (Cons x xs)
  then show ?case by (subst strchr_loop.simps) (auto simp: add.assoc)
qed

lemma skip_spaces_str_at:
  "str_at m s xs \<Longrightarrow> \<exists>n. skip_spaces m s = Some (s + of_nat n) \<and> str_at m (s + of_nat n) (dropWhile (\<lambda>x. x = SPACE) xs) \<and>
     n + length (dropWhile (\<lambda>x. x = SPACE) xs) = length xs"
proof (induction xs arbitrary: s)
  case Nil
  then show ?case by (subst skip_spaces.simps) (intro exI [of _ 0], simp)
next
  case (Cons x xs)
  show ?case
  proof (cases "x = SPACE")
    case True
    then obtain n where "skip_spaces m (s + 1) = Some (s + 1 + of_nat n)" "str_at m (s + 1 + of_nat n) (dropWhile (\<lambda>x. x = SPACE) xs)"
      "n + length (dropWhile (\<lambda>x. x = SPACE) xs) = length xs" using Cons by force
    then show ?thesis using True Cons.prems by (subst skip_spaces.simps) (intro exI [of _ "Suc n"], simp add: add.assoc)
  next
    case False
    then show ?thesis using Cons.prems by (subst skip_spaces.simps) (intro exI [of _ 0], simp)
  qed
qed

lemma find_end_str_at: "str_at m s xs \<Longrightarrow> find_end m s = Some (s + of_nat (length xs))"
proof (induction xs arbitrary: s)
  case Nil
  then show ?case by (subst find_end.simps) simp
next
  case (Cons x xs)
  then show ?case by (subst find_end.simps) (auto simp: add.assoc)
qed

lemma str_at_cut:
  assumes "str_at m p (ys @ [y])" "length ys < 4294967296"
  shows "str_at (m(p + of_nat (length ys) := 0)) p ys"
proof -
  have "p + of_nat i \<noteq> p + of_nat (length ys)" if "i < length ys" for i
    using that assms(2) by (metis add_left_cancel less_imp_neq order.strict_trans unat_of_nat32)
  then show ?thesis using assms(1) by (auto simp: str_at_nth nth_append All_less_Suc)
qed

lemma trim_end_str_at:
  assumes "str_at m p xs" "xs \<noteq> []" "hd xs \<noteq> SPACE" "unat p + length xs < 4294967296"
  shows "\<exists>m'. trim_end m p (p + of_nat (length xs - 1)) = Some m' \<and> str_at m' p (rev (dropWhile (\<lambda>x. x = SPACE) (rev xs))) \<and>
    (\<forall>a. length xs \<le> unat (a - p) \<longrightarrow> m' a = m a)"
  using assms
proof (induction xs arbitrary: m rule: rev_induct)
  case (snoc y ys)
  let ?e = "p + of_nat (length ys)"
  have y: "m ?e = y" using snoc.prems(1) by (simp add: str_at_nth nth_append All_less_Suc)
  have e: "unat ?e = unat p + length ys" using snoc.prems(4) by (simp add: unat_word_ariths)
  show ?case
  proof (cases "y = SPACE")
    case True
    then have ys: "ys \<noteq> []" "hd ys \<noteq> SPACE" using snoc.prems(3) by (cases ys; simp)+
    then have gt: "p < ?e" using e by (simp add: word_less_nat_alt)
    have e1: "?e - 1 = p + of_nat (length ys - 1)" using ys(1) by (simp add: of_nat_diff Suc_leI)
    obtain m' where m': "trim_end (m(?e := 0)) p (p + of_nat (length ys - 1)) = Some m'"
      "str_at m' p (rev (dropWhile (\<lambda>x. x = SPACE) (rev ys)))" "\<forall>a. length ys \<le> unat (a - p) \<longrightarrow> m' a = (m(?e := 0)) a"
      using snoc.IH [OF str_at_cut [OF snoc.prems(1)] ys] snoc.prems(4) by fastforce
    have "trim_end m p ?e = Some m'" using True y gt m'(1) by (subst trim_end.simps) (simp add: e1 del: of_nat_diff)
    moreover have "m' a = m a" if "Suc (length ys) \<le> unat (a - p)" for a
    proof -
      have "a \<noteq> ?e" using that snoc.prems(4) by auto
      then show ?thesis using m'(3) that by simp
    qed
    ultimately show ?thesis using True m'(2) by auto
  next
    case False
    then have "trim_end m p ?e = Some m" using y by (subst trim_end.simps) simp
    then show ?thesis using False snoc.prems(1) by auto
  qed
qed simp

definition strip :: "u8 list \<Rightarrow> u8 list" where
  "strip xs = rev (dropWhile (\<lambda>x. x = SPACE) (rev (dropWhile (\<lambda>x. x = SPACE) xs)))"

lemma str_at_append:
  "str_at m p (xs @ ys) \<longleftrightarrow> (\<forall>i < length xs. m (p + of_nat i) = xs ! i \<and> xs ! i \<noteq> 0) \<and> str_at m (p + of_nat (length xs)) ys"
  by (induction xs arbitrary: p) (auto simp: All_less_Suc2 add.assoc)

lemma strcat_str_at:
  assumes "str_at m s xs" "str_at m src ys" "s \<noteq> 0" "src \<noteq> 0" "unat s + length xs + length ys < 4294967296"
      "\<forall>j \<le> length ys. length ys < unat (src + of_nat j - (s + of_nat (length xs)))"
  shows "\<exists>m'. strcat m s src = Some m' \<and> str_at m' s (xs @ ys)"
proof -
  let ?d = "s + of_nat (length xs)"
  let ?m = "upd_range m ?d (length ys + 1) (\<lambda>j. m (src + of_nat j))"
  have d: "unat ?d = unat s + length xs" using assms(5) by (simp add: unat_word_ariths)
  then have "?d \<noteq> 0" using assms(3) by (metis add_is_0 unat_0 unat_eq_zero)
  then have "strcat m s src = Some ?m"
    using strlen_loop_str_at [of m s 0 xs] assms(1,4) strcpy_loop_upd [OF assms(2) _ le0, of ?d] assms(5,6)
    by (simp add: strcat_def u_strlen_def u_strcpy_def)
  moreover have "str_at ?m s (xs @ ys)"
  proof -
    have "?m (s + of_nat i) = m (s + of_nat i)" if "i < length xs" for i
    proof (rule upd_range_notin)
      have "unat (s + of_nat i) = unat s + i" using that assms(5) by (simp add: unat_word_ariths)
      then have "unat (s + of_nat i - ?d) = 4294967296 + (unat s + i) - (unat s + length xs)"
        using d that by (subst unat_sub_if') (simp add: word_size)
      then show "length ys + 1 \<le> unat (s + of_nat i - ?d)" using assms(5) that by linarith
    qed
    moreover have "?m (?d + of_nat j) = m (src + of_nat j)" if "j \<le> length ys" for j
      using that assms(5) by (intro upd_range_at) auto
    then have "str_at ?m ?d ys" using assms(2) by (simp add: str_at_nth)
    ultimately show ?thesis using iffD1 [OF str_at_nth assms(1)] unfolding str_at_append by simp
  qed
  ultimately show ?thesis by blast
qed

lemma trim_in_place:
  assumes "str_at m s xs" "unat s + length xs < 4294967296"
  shows "\<exists>n m'. trim m s = Some (s + of_nat n, m') \<and> str_at m' (s + of_nat n) (strip xs) \<and> n + length (dropWhile (\<lambda>x. x = SPACE) xs) = length xs \<and>
    (\<forall>a. length xs \<le> unat (a - s) \<longrightarrow> m' a = m a) \<and> (\<forall>j < n. m' (s + of_nat j) = m (s + of_nat j))"
proof -
  let ?ys = "dropWhile (\<lambda>x. x = SPACE) xs"
  obtain n where n: "skip_spaces m s = Some (s + of_nat n)" "str_at m (s + of_nat n) ?ys" "n + length ?ys = length xs"
    using skip_spaces_str_at [OF assms(1)] by blast
  let ?p = "s + of_nat n"
  show ?thesis
  proof (cases "?ys = []")
    case True
    then have "strip xs = []" "m ?p = 0" using n(2) by (simp_all only: strip_def rev.simps dropWhile.simps str_at.simps)
    then show ?thesis using n(1,3) by (intro exI [of _ n] exI [of _ m]) (simp add: trim_def)
  next
    case False
    then have z: "m ?p \<noteq> 0" "hd ?ys \<noteq> SPACE" using n(2) hd_dropWhile [of "\<lambda>x. x = SPACE" xs] by (cases ?ys; force)+
    have p: "unat ?p = unat s + n" using n(3) assms(2) by (simp add: unat_word_ariths)
    obtain m' where m': "trim_end m ?p (?p + of_nat (length ?ys - 1)) = Some m'" "str_at m' ?p (strip xs)"
      "\<forall>a. length ?ys \<le> unat (a - ?p) \<longrightarrow> m' a = m a"
      using trim_end_str_at [OF n(2) False z(2)] p n(3) assms(2) unfolding strip_def by auto
    have "?p + of_nat (length ?ys) - 1 = ?p + of_nat (length ?ys - 1)" using False by (simp add: of_nat_diff Suc_leI)
    then have "trim_end m ?p (?p + of_nat (length ?ys) - 1) = Some m'" using m'(1) by (simp only:)
    then have "trim m s = Some (?p, m')" using n(1) z(1) find_end_str_at [OF n(2)] by (simp add: trim_def)
    moreover have "m' a = m a" if "length xs \<le> unat (a - s)" for a
      using that n(3) unat_diff_add(2) [of 0 n a s] m'(3) assms(2) by simp
    moreover have "m' (s + of_nat j) = m (s + of_nat j)" if "j < n" for j
    proof -
      have "unat (s + of_nat j) = unat s + j" using that n(3) assms(2) by (simp add: unat_word_ariths)
      then have "unat (s + of_nat j - ?p) = 4294967296 + (unat s + j) - (unat s + n)"
        using p that by (subst unat_sub_if') (simp add: word_size)
      then show ?thesis using m'(3) n(3) assms(2) by simp
    qed
    ultimately show ?thesis using m'(2) n(3) by (intro exI [of _ n] exI [of _ m']) simp
  qed
qed

lemma trim_str_at:
  assumes "str_at m s xs" "unat s + length xs < 4294967296"
  shows "\<exists>p m'. trim m s = Some (p, m') \<and> str_at m' p (strip xs) \<and> (\<forall>a. length xs \<le> unat (a - s) \<longrightarrow> m' a = m a)"
  using trim_in_place [OF assms] by blast

text \<open>
  C35: the string routines. On a NUL-terminated string that does not run past the end of memory, \<^verbatim>\<open>strchr\<close> gives the first
  occurrence of a character or null, \<^verbatim>\<open>strcat\<close> appends a string that does not overlap the destination, and
  \<^verbatim>\<open>trim\<close> returns the string without the spaces at both ends; \<^verbatim>\<open>trim\<close> changes no byte outside the string.
\<close>

theorem string_routines_correct:
  assumes "str_at m s xs" "c \<noteq> 0" "str_at m src ys" "s \<noteq> 0" "src \<noteq> 0" "unat s + length xs + length ys < 4294967296"
      "\<forall>j \<le> length ys. length ys < unat (src + of_nat j - (s + of_nat (length xs)))"
  shows "strchr m s (ucast c) = Some (if c \<in> set xs then s + of_nat (length (takeWhile (\<lambda>x. x \<noteq> c) xs)) else 0) \<and>
    (\<exists>m'. strcat m s src = Some m' \<and> str_at m' s (xs @ ys)) \<and>
    (\<exists>p m'. trim m s = Some (p, m') \<and> str_at m' p (strip xs) \<and> (\<forall>a. length xs \<le> unat (a - s) \<longrightarrow> m' a = m a))"
proof -
  have "ucast (ucast c :: u32) = c" by (rule bit_word_eqI) (auto simp: bit_simps)
  then show ?thesis
    using strchr_loop_str_at [OF assms(1,2)] strcat_str_at [OF assms(1,3-7)] trim_str_at [OF assms(1)] assms(2,6)
    by (simp add: strchr_def)
qed

theorem string_routines_correct_witness:
  "let m = (\<lambda>_. 0)(100 := 32, 101 := 97, 102 := 32, 200 := 98) :: mem
   in strchr m 100 97 = Some 101 \<and> (\<exists>m'. strcat m 100 200 = Some m' \<and> str_at m' 100 [32, 97, 32, 98]) \<and>
     (\<exists>p m'. trim m 100 = Some (p, m') \<and> str_at m' p [97])"
proof -
  let ?m = "(\<lambda>_. 0)(100 := 32, 101 := 97, 102 := 32, 200 := 98) :: mem"
  have s: "strip [32, 97, 32] = [97]" by (simp add: strip_def)
  have "\<forall>j \<le> length [98 :: u8]. length [98 :: u8] < unat (200 + of_nat j - (100 + of_nat (length [32, 97, 32 :: u8])) :: u32)"
    by (auto simp: le_Suc_eq)
  then show ?thesis
    using string_routines_correct [of ?m 100 "[32, 97, 32]" 97 200 "[98]"] by (simp add: s) blast
qed

end
