(* ===== verification/UPrintf.thy ===== *)
theory UPrintf
  imports Malloc UString
begin

text \<open>
  Formatted output of user programs, \<^verbatim>\<open>user/include/printf.h\<close>. The variable arguments are the words on the stack, a function from the
  number of an argument to its value. The format and the strings are read from memory while the output is written to it, so the model
  runs on the bytes of memory; the local digit buffers are lists. \<^verbatim>\<open>printf\<close> formats into a block of 1024 bytes from \<^verbatim>\<open>malloc\<close>,
  writes it to descriptor 0 and frees it; the system calls of a program are recorded in order.
\<close>

section \<open>Numbers\<close>

fun dec_lsb :: "nat \<Rightarrow> u8 list" where
  "dec_lsb n = (if n = 0 then [] else (48 + of_nat (n mod 10)) # dec_lsb (n div 10))"

declare dec_lsb.simps [simp del]

definition itoa :: "u32 \<Rightarrow> u8 list" where
  "itoa num =
     (if num = 0 then [48]
      else
        let is_negative = num <s 0; num = (if is_negative then - num else num)
        in rev (dec_lsb (if 0 <s num then unat num else 0) @ (if is_negative then [45] else [])))"

definition hex_char :: "nat \<Rightarrow> u8" where
  "hex_char d = bytes_of ''0123456789abcdef'' ! d"

fun hex_lsb :: "nat \<Rightarrow> u8 list" where
  "hex_lsb n = (if n = 0 then [] else hex_char (n mod 16) # hex_lsb (n div 16))"

declare hex_lsb.simps [simp del]

definition utoa_hex :: "u32 \<Rightarrow> u8 list" where
  "utoa_hex num = (if num = 0 then [48] else rev (hex_lsb (unat num)))"

section \<open>Formatting\<close>

partial_function (option) copy_str :: "mem \<Rightarrow> u32 \<Rightarrow> u32 \<Rightarrow> u32 \<Rightarrow> (u32 \<times> mem) option" where
  "copy_str m s buf pos =
     (if m s = 0 then Some (pos, m) else copy_str (m(buf + pos := m s)) (s + 1) buf (pos + 1))"

text \<open>
  One round of the loop: the new position in the format, the number of arguments used, the position in the output, and the
  memory.
\<close>

definition fmt_step :: "u32 \<Rightarrow> (nat \<Rightarrow> u32) \<Rightarrow> u32 \<Rightarrow> u32 \<times> nat \<times> u32 \<times> mem \<Rightarrow> (u32 \<times> nat \<times> u32 \<times> mem) option" where
  "fmt_step fmt args buf = (\<lambda>(i, n, pos, m).
     if m (fmt + i) = 37 \<and> m (fmt + i + 1) \<noteq> 0 then
       let i = i + 1; c = m (fmt + i)
       in if c = 100 then
            let s = itoa (args n) in Some (i + 1, n + 1, pos + of_nat (length s), put_bytes s (buf + pos) m)
          else if c = 120 then
            let s = utoa_hex (args n) in Some (i + 1, n + 1, pos + of_nat (length s), put_bytes s (buf + pos) m)
          else if c = 115 then
            if args n = 0 then Some (i + 1, n + 1, pos + 6, put_bytes (bytes_of ''(null)'') (buf + pos) m)
            else map_option (\<lambda>(pos, m). (i + 1, n + 1, pos, m)) (copy_str m (args n) buf pos)
          else if c = 99 then Some (i + 1, n + 1, pos + 1, m(buf + pos := ucast (args n)))
          else if c = 37 then Some (i + 1, n, pos + 1, m(buf + pos := 37))
          else
            let m = m(buf + pos := 37) in Some (i + 1, n, pos + 2, m(buf + pos + 1 := m (fmt + i)))
     else Some (i + 1, n, pos + 1, m(buf + pos := m (fmt + i))))"

partial_function (option) printf_loop :: "u32 \<Rightarrow> (nat \<Rightarrow> u32) \<Rightarrow> u32 \<Rightarrow> u32 \<times> nat \<times> u32 \<times> mem \<Rightarrow> (u32 \<times> mem) option" where
  "printf_loop fmt args buf s =
     (case s of (i, n, pos, m) \<Rightarrow>
        if m (fmt + i) \<noteq> 0 then
          Option.bind (fmt_step fmt args buf s) (\<lambda>s.
            case s of (i, n, pos, m) \<Rightarrow> if 1023 \<le>s pos then Some (pos, m) else printf_loop fmt args buf s)
        else Some (pos, m))"

partial_function (option) sprintf_loop :: "u32 \<Rightarrow> (nat \<Rightarrow> u32) \<Rightarrow> u32 \<Rightarrow> u32 \<times> nat \<times> u32 \<times> mem \<Rightarrow> (u32 \<times> mem) option" where
  "sprintf_loop fmt args buf s =
     (case s of (i, n, pos, m) \<Rightarrow>
        if m (fmt + i) \<noteq> 0 then Option.bind (fmt_step fmt args buf s) (sprintf_loop fmt args buf) else Some (pos, m))"

definition sprintf :: "u32 \<Rightarrow> u32 \<Rightarrow> (nat \<Rightarrow> u32) \<Rightarrow> mem \<Rightarrow> (u32 \<times> mem) option" where
  "sprintf str fmt args m =
     Option.bind (sprintf_loop fmt args str (0, 0, 0, m)) (\<lambda>(pos, m). Some (pos, m(str + pos := 0)))"

section \<open>Output\<close>

text \<open>The writes of a program, in order; \<open>ans\<close> gives the kernel's answer to each.\<close>

record uout =
  uheap_of :: uheap
  written :: "(u32 \<times> u8 list) list"

definition uwrite :: "(nat \<Rightarrow> u32) \<Rightarrow> u32 \<Rightarrow> u32 \<Rightarrow> u32 \<Rightarrow> uout \<Rightarrow> u32 \<times> uout" where
  "uwrite ans fd buf n u =
     (ans (length (written u)),
      u\<lparr>written := written u @ [(fd, map (\<lambda>j. hmem (uheap_of u) (buf + of_nat j)) [0..<unat n])]\<rparr>)"

definition puts :: "(nat \<Rightarrow> u32) \<Rightarrow> u32 \<Rightarrow> uout \<Rightarrow> (u32 \<times> uout) option" where
  "puts ans str u = Option.bind (u_strlen (hmem (uheap_of u)) str) (\<lambda>n. Some (uwrite ans 0 str n u))"

definition printf :: "(nat \<Rightarrow> u32) \<Rightarrow> u32 \<Rightarrow> (nat \<Rightarrow> u32) \<Rightarrow> uout \<Rightarrow> (u32 \<times> uout) option" where
  "printf ans fmt args u =
     Option.bind (malloc 1024 (uheap_of u)) (\<lambda>(buffer, h).
       if buffer = 0 then Some (- 1, u\<lparr>uheap_of := h\<rparr>)
       else
         Option.bind (printf_loop fmt args buffer (0, 0, 0, hmem h)) (\<lambda>(pos, m).
         Option.bind (puts ans buffer (u\<lparr>uheap_of := h\<lparr>hmem := m(buffer + pos := 0)\<rparr>\<rparr>)) (\<lambda>(result, u).
           Some (result, u\<lparr>uheap_of := ufree buffer (uheap_of u)\<rparr>))))"

section \<open>What a format stands for\<close>

text \<open>
  A format is a list of pieces: a byte to copy, or the number of an argument with the way to show it. \<open>render\<close> gives the bytes of a
  piece; \<open>strs k\<close> is the string that argument \<open>k\<close> points to.
\<close>

datatype piece = Lit u8 | Dec nat | Hex nat | Str nat | Chr nat

fun pieces :: "nat \<Rightarrow> u8 list \<Rightarrow> piece list" where
  "pieces n [] = []"
| "pieces n [c] = [Lit c]"
| "pieces n (c # d # cs) =
     (if c \<noteq> 37 then Lit c # pieces n (d # cs)
      else if d = 100 then Dec n # pieces (Suc n) cs
      else if d = 120 then Hex n # pieces (Suc n) cs
      else if d = 115 then Str n # pieces (Suc n) cs
      else if d = 99 then Chr n # pieces (Suc n) cs
      else if d = 37 then Lit 37 # pieces n cs
      else Lit 37 # Lit d # pieces n cs)"

fun render :: "(nat \<Rightarrow> u8 list) \<Rightarrow> (nat \<Rightarrow> u32) \<Rightarrow> piece \<Rightarrow> u8 list" where
  "render strs args (Lit c) = [c]"
| "render strs args (Dec k) = itoa (args k)"
| "render strs args (Hex k) = utoa_hex (args k)"
| "render strs args (Str k) = (if args k = 0 then bytes_of ''(null)'' else strs k)"
| "render strs args (Chr k) = [ucast (args k)]"

definition expansion :: "(nat \<Rightarrow> u8 list) \<Rightarrow> (nat \<Rightarrow> u32) \<Rightarrow> nat \<Rightarrow> u8 list \<Rightarrow> u8 list" where
  "expansion strs args n cs = concat (map (render strs args) (pieces n cs))"

text \<open>The string at \<open>p\<close>, its NUL included, has no byte among the \<open>k\<close> bytes at \<open>q\<close>.\<close>

definition str_apart :: "mem \<Rightarrow> u32 \<Rightarrow> u8 list \<Rightarrow> u32 \<Rightarrow> nat \<Rightarrow> bool" where
  "str_apart m p xs q k \<longleftrightarrow> str_at m p xs \<and> (\<forall>j \<le> length xs. k \<le> unat (p + of_nat j - q))"

lemma str_apart_cong:
  assumes "str_apart m p xs q k" "\<And>a. k \<le> unat (a - q) \<Longrightarrow> m' a = m a"
  shows "str_apart m' p xs q k"
  using assms by (auto simp: str_apart_def str_at_nth)

lemma copy_str_eq:
  assumes "str_at m s xs" "\<And>i j. i < length xs \<Longrightarrow> j \<le> length xs \<Longrightarrow> s + of_nat j \<noteq> buf + pos + of_nat i"
  shows "copy_str m s buf pos = Some (pos + of_nat (length xs), put_bytes xs (buf + pos) m)"
  using assms
proof (induction xs arbitrary: m s pos)
  case Nil
  then show ?case by (subst copy_str.simps) simp
next
  case (Cons x xs)
  have ne: "s + 1 + of_nat j \<noteq> buf + pos" if "j \<le> length xs" for j
    using Cons.prems(2) [of 0 "Suc j"] that by (simp add: add_ac)
  have "str_at (m(buf + pos := x)) (s + 1) xs"
    using Cons.prems(1) [unfolded str_at.simps] ne by (simp add: str_at_nth)
  moreover have "s + 1 + of_nat j \<noteq> buf + (pos + 1) + of_nat i" if "i < length xs" "j \<le> length xs" for i j
    using Cons.prems(2) [of "Suc i" "Suc j"] that by (simp add: add_ac)
  ultimately have "copy_str (m(buf + pos := x)) (s + 1) buf (pos + 1) =
      Some (pos + 1 + of_nat (length xs), put_bytes xs (buf + (pos + 1)) (m(buf + pos := x)))" by (rule Cons.IH)
  then show ?case using Cons.prems(1) by (subst copy_str.simps) (simp add: add.assoc)
qed

lemma copy_str_apart:
  assumes "str_apart m s xs buf k" "unat pos + length xs \<le> k" "k < 4294967296"
  shows "copy_str m s buf pos = Some (pos + of_nat (length xs), put_bytes xs (buf + pos) m)"
proof (rule copy_str_eq)
  show "str_at m s xs" using assms(1) by (simp add: str_apart_def)
  fix i j assume i: "i < length xs" and j: "j \<le> length xs"
  have "unat (buf + pos + of_nat i - buf) = unat pos + i" using i assms(2,3) by (simp add: unat_add32)
  moreover have "k \<le> unat (s + of_nat j - buf)" using assms(1) j by (simp add: str_apart_def)
  ultimately show "s + of_nat j \<noteq> buf + pos + of_nat i" using i assms(2) by auto
qed

text \<open>The strings that the arguments of a format point to.\<close>

definition strs_apart :: "(nat \<Rightarrow> u8 list) \<Rightarrow> (nat \<Rightarrow> u32) \<Rightarrow> mem \<Rightarrow> u32 \<Rightarrow> nat \<Rightarrow> piece list \<Rightarrow> bool" where
  "strs_apart strs args m q k ps \<longleftrightarrow> (\<forall>n. Str n \<in> set ps \<longrightarrow> args n = 0 \<or> str_apart m (args n) (strs n) q k)"

lemma strs_apart_Cons:
  "strs_apart strs args m q k (p # ps) \<longleftrightarrow> strs_apart strs args m q k [p] \<and> strs_apart strs args m q k ps"
  by (auto simp: strs_apart_def)

lemma expansion_Cons: "concat (map (render strs args) (p # ps)) = render strs args p @ concat (map (render strs args) ps)"
  by simp

lemma fmt_step_eq:
  assumes "str_apart m (fmt + i) (c # cs) buf k" "strs_apart strs args m buf k (pieces n (c # cs))"
    and "unat pos + length (expansion strs args n (c # cs)) \<le> k" "k < 4294967296"
  shows "\<exists>n' cs' out j. fmt_step fmt args buf (i, n, pos, m) =
      Some (i + of_nat j, n', pos + of_nat (length out), put_bytes out (buf + pos) m) \<and>
    c # cs = take j (c # cs) @ cs' \<and> length cs' < length (c # cs) \<and> j \<le> length (c # cs) \<and>
    expansion strs args n (c # cs) = out @ expansion strs args n' cs' \<and> set (pieces n' cs') \<subseteq> set (pieces n (c # cs))"
proof -
  have s: "str_at m (fmt + i) (c # cs)" using assms(1) by (simp add: str_apart_def)
  then have c: "m (fmt + i) = c" "c \<noteq> 0" by auto
  show ?thesis
  proof (cases "c = 37 \<and> cs \<noteq> []")
    case False
    then have "c \<noteq> 37 \<or> m (fmt + i + 1) = 0" using s by (cases cs) auto
    then have "fmt_step fmt args buf (i, n, pos, m) = Some (i + of_nat 1, n, pos + of_nat (length [c]), put_bytes [c] (buf + pos) m)"
      using c by (elim disjE) (simp_all add: fmt_step_def)
    moreover have "pieces n (c # cs) = Lit c # pieces n cs" using False by (cases cs) auto
    ultimately show ?thesis
      by (intro exI [of _ n] exI [of _ cs] exI [of _ "[c]"] exI [of _ 1]) (auto simp: expansion_def)
  next
    case True
    then obtain d ds where cs: "cs = d # ds" and c37: "c = 37" by (cases cs) auto
    have d: "m (fmt + i + 1) = d" "d \<noteq> 0" using s cs by auto
    have d': "m (fmt + (i + 1)) = d" using d(1) by (simp add: add.assoc)
    consider "d = 100" | "d = 120" | "d = 115" | "d = 99" | "d = 37" | "d \<notin> {100, 120, 115, 99, 37}" by auto
    then show ?thesis
    proof cases
      case 1
      then show ?thesis using c c37 cs d' d
        by (intro exI [of _ "Suc n"] exI [of _ ds] exI [of _ "itoa (args n)"] exI [of _ 2])
          (auto simp: fmt_step_def Let_def expansion_def)
    next
      case 2
      then show ?thesis using c c37 cs d' d
        by (intro exI [of _ "Suc n"] exI [of _ ds] exI [of _ "utoa_hex (args n)"] exI [of _ 2])
          (auto simp: fmt_step_def Let_def expansion_def)
    next
      case 3
      let ?s = "render strs args (Str n)"
      have ps: "pieces n (c # cs) = Str n # pieces (Suc n) ds" using 3 c37 cs by simp
      have len: "unat pos + length ?s \<le> k" using assms(3) ps by (simp add: expansion_def)
      have "fmt_step fmt args buf (i, n, pos, m) = Some (i + of_nat 2, Suc n, pos + of_nat (length ?s), put_bytes ?s (buf + pos) m)"
      proof (cases "args n = 0")
        case True
        then show ?thesis using 3 c c37 cs d' d by (simp add: fmt_step_def Let_def bytes_of_def)
      next
        case False
        then have "str_apart m (args n) (strs n) buf k" using assms(2) ps by (auto simp: strs_apart_def)
        from copy_str_apart [OF this _ assms(4), of pos] show ?thesis
          using False len 3 c c37 cs d' d by (simp add: fmt_step_def Let_def)
      qed
      then show ?thesis using 3 cs ps
        by (intro exI [of _ "Suc n"] exI [of _ ds] exI [of _ ?s] exI [of _ 2]) (auto simp: expansion_def)
    next
      case 4
      then show ?thesis using c c37 cs d' d
        by (intro exI [of _ "Suc n"] exI [of _ ds] exI [of _ "[ucast (args n)]"] exI [of _ 2])
          (auto simp: fmt_step_def Let_def expansion_def)
    next
      case 5
      then show ?thesis using c c37 cs d' d
        by (intro exI [of _ n] exI [of _ ds] exI [of _ "[37]"] exI [of _ 2])
          (auto simp: fmt_step_def Let_def expansion_def)
    next
      case 6
      have "unat (buf + pos - buf) < k" using assms(3) 6 c37 cs by (simp add: expansion_def)
      moreover have "k \<le> unat (fmt + i + of_nat 1 - buf)" using assms(1) cs unfolding str_apart_def by (metis One_nat_def le_add1 length_Cons plus_1_eq_Suc)
      ultimately have "fmt + (i + 1) \<noteq> buf + pos" by (auto simp: add.assoc)
      then show ?thesis using 6 c c37 cs d' d
        by (intro exI [of _ n] exI [of _ ds] exI [of _ "[37, d]"] exI [of _ 2])
          (auto simp: fmt_step_def Let_def expansion_def)
    qed
  qed
qed


lemma str_apart_drop:
  assumes "str_apart m p xs q k" "j \<le> length xs"
  shows "str_apart m (p + of_nat j) (drop j xs) q k"
proof -
  have "str_at m (p + of_nat j) (drop j xs)"
    using assms by (auto simp: str_apart_def str_at_nth add.assoc simp flip: of_nat_add)
  moreover have "k \<le> unat (p + of_nat j + of_nat l - q)" if "l \<le> length (drop j xs)" for l
    using assms that by (auto simp: str_apart_def add.assoc simp flip: of_nat_add)
  ultimately show ?thesis by (simp add: str_apart_def)
qed

lemma put_bytes_append: "put_bytes (xs @ ys) p m = put_bytes ys (p + of_nat (length xs)) (put_bytes xs p m)"
  by (induction xs arbitrary: p m) (simp_all add: add_ac)

lemma put_bytes_apart:
  assumes "unat pos + length xs \<le> k" "k < 4294967296" "k \<le> unat (a - buf)"
  shows "put_bytes xs (buf + pos) m a = m a"
proof -
  have "\<not> unat (a - (buf + of_nat (unat pos))) < length xs"
    using assms unat_diff_add(1) [of "length xs" "unat pos" a buf] by simp
  then show ?thesis using assms(1,2) by (simp add: put_bytes_eq upd_range_def)
qed

text \<open>One round keeps the format and the strings and does one part of the work; both loops follow from it.\<close>

lemma fmt_step_progress:
  assumes "str_apart m (fmt + i) cs buf k" "cs \<noteq> []" "strs_apart strs args m buf k (pieces n cs)"
    and "unat pos + length (expansion strs args n cs) \<le> k" "k < 4294967296"
  obtains i' n' pos' m' cs' out where
    "fmt_step fmt args buf (i, n, pos, m) = Some (i', n', pos', m')" "m (fmt + i) \<noteq> 0" "length cs' < length cs"
    "expansion strs args n cs = out @ expansion strs args n' cs'" "m' = put_bytes out (buf + pos) m"
    "pos' = pos + of_nat (length out)" "unat pos' = unat pos + length out"
    "str_apart m' (fmt + i') cs' buf k" "strs_apart strs args m' buf k (pieces n' cs')"
proof -
  obtain c ds where cs: "cs = c # ds" using assms(2) by (cases cs) auto
  obtain n' cs' out j where st: "fmt_step fmt args buf (i, n, pos, m) =
      Some (i + of_nat j, n', pos + of_nat (length out), put_bytes out (buf + pos) m)"
    "cs = take j cs @ cs'" "length cs' < length cs" "j \<le> length cs"
    "expansion strs args n cs = out @ expansion strs args n' cs'" "set (pieces n' cs') \<subseteq> set (pieces n cs)"
    using fmt_step_eq [OF assms(1) [unfolded cs] assms(3) [unfolded cs] assms(4) [unfolded cs] assms(5)] unfolding cs by blast
  let ?m = "put_bytes out (buf + pos) m"
  have len: "unat pos + length out \<le> k" using assms(4) st(5) by simp
  have same: "?m a = m a" if "k \<le> unat (a - buf)" for a using put_bytes_apart [OF len assms(5) that] .
  have "cs' = drop j cs" using st(2,4) by (metis append_take_drop_id same_append_eq)
  then have "str_apart m (fmt + (i + of_nat j)) cs' buf k" using str_apart_drop [OF assms(1) st(4)] by (simp add: add.assoc)
  then have "str_apart ?m (fmt + (i + of_nat j)) cs' buf k" using same by (rule str_apart_cong)
  moreover have "strs_apart strs args ?m buf k (pieces n' cs')"
    using assms(3) st(6) str_apart_cong [where m' = ?m and m = m, OF _ same] unfolding strs_apart_def by blast
  moreover have "unat (pos + of_nat (length out)) = unat pos + length out" using len assms(5) by (simp add: unat_add32)
  moreover have "m (fmt + i) \<noteq> 0" using assms(1) cs by (auto simp: str_apart_def)
  ultimately show thesis using that st by blast
qed

lemma sprintf_loop_eq:
  assumes "str_apart m (fmt + i) cs buf k" "strs_apart strs args m buf k (pieces n cs)"
    and "unat pos + length (expansion strs args n cs) \<le> k" "k < 4294967296"
  shows "sprintf_loop fmt args buf (i, n, pos, m) =
    Some (pos + of_nat (length (expansion strs args n cs)), put_bytes (expansion strs args n cs) (buf + pos) m)"
  using assms
proof (induction "length cs" arbitrary: cs i n pos m rule: less_induct)
  case less
  show ?case
  proof (cases "cs = []")
    case True
    then have "m (fmt + i) = 0" using less.prems(1) by (simp add: str_apart_def)
    then show ?thesis using True by (subst sprintf_loop.simps) (simp add: expansion_def)
  next
    case False
    from fmt_step_progress [OF less.prems(1) False less.prems(2-4)] obtain i' n' pos' m' cs' out where
      s: "fmt_step fmt args buf (i, n, pos, m) = Some (i', n', pos', m')" "m (fmt + i) \<noteq> 0" "length cs' < length cs"
      "expansion strs args n cs = out @ expansion strs args n' cs'" "m' = put_bytes out (buf + pos) m"
      "pos' = pos + of_nat (length out)" "unat pos' = unat pos + length out"
      "str_apart m' (fmt + i') cs' buf k" "strs_apart strs args m' buf k (pieces n' cs')" .
    have "unat pos' + length (expansion strs args n' cs') \<le> k" using less.prems(3) s(4,7) by simp
    from less.hyps [OF s(3,8,9) this less.prems(4)] show ?thesis
      using s(1,2,4,5,6) by (subst sprintf_loop.simps) (simp add: put_bytes_append add.assoc)
  qed
qed

lemma sint_small: "unat (x :: u32) < 2147483648 \<Longrightarrow> sint x = int (unat x)"
  using sint_of_int32 [of "int (unat x)"] by (simp add: uint_nat del: of_nat_unat) simp

lemma printf_loop_eq:
  assumes "str_apart m (fmt + i) cs buf k" "strs_apart strs args m buf k (pieces n cs)"
    and "unat pos + length (expansion strs args n cs) < 1023" "1023 \<le> k" "k < 4294967296"
  shows "printf_loop fmt args buf (i, n, pos, m) =
    Some (pos + of_nat (length (expansion strs args n cs)), put_bytes (expansion strs args n cs) (buf + pos) m)"
  using assms
proof (induction "length cs" arbitrary: cs i n pos m rule: less_induct)
  case less
  show ?case
  proof (cases "cs = []")
    case True
    then have "m (fmt + i) = 0" using less.prems(1) by (simp add: str_apart_def)
    then show ?thesis using True by (subst printf_loop.simps) (simp add: expansion_def)
  next
    case False
    have "unat pos + length (expansion strs args n cs) \<le> k" using less.prems(3,4) by simp
    from fmt_step_progress [OF less.prems(1) False less.prems(2) this less.prems(5)] obtain i' n' pos' m' cs' out where
      s: "fmt_step fmt args buf (i, n, pos, m) = Some (i', n', pos', m')" "m (fmt + i) \<noteq> 0" "length cs' < length cs"
      "expansion strs args n cs = out @ expansion strs args n' cs'" "m' = put_bytes out (buf + pos) m"
      "pos' = pos + of_nat (length out)" "unat pos' = unat pos + length out"
      "str_apart m' (fmt + i') cs' buf k" "strs_apart strs args m' buf k (pieces n' cs')" .
    have l: "unat pos' + length (expansion strs args n' cs') < 1023" using less.prems(3) s(4,7) by simp
    then have "\<not> 1023 \<le>s pos'" using sint_small [of pos'] by (simp add: word_sle_eq del: of_nat_unat)
    with less.hyps [OF s(3,8,9) l less.prems(4,5)] show ?thesis
      using s(1,2,4,5,6) by (subst printf_loop.simps) (simp add: put_bytes_append add.assoc)
  qed
qed

text \<open>
  \<^verbatim>\<open>sprintf\<close>. If the format and the strings it names do not overlap the output, \<^verbatim>\<open>sprintf\<close> returns, writes exactly the
  expansion of the format and a terminating NUL, changes nothing else, and returns the number of bytes.
\<close>

theorem sprintf_correct:
  assumes "str_apart m fmt cs str (length out + 1)" "strs_apart strs args m str (length out + 1) (pieces 0 cs)"
    and "out = expansion strs args 0 cs" "length out < 4294967295"
  shows "sprintf str fmt args m = Some (of_nat (length out), upd_range m str (length out + 1) (\<lambda>j. (out @ [0]) ! j))"
proof -
  have "sprintf_loop fmt args str (0, 0, 0, m) = Some (of_nat (length out), put_bytes out str m)"
    using sprintf_loop_eq [of m fmt 0 cs str "length out + 1" strs args 0 0] assms by simp
  moreover have "(put_bytes out str m)(str + of_nat (length out) := 0) = put_bytes (out @ [0]) str m"
    by (simp add: put_bytes_append)
  ultimately show ?thesis using put_bytes_eq [of "out @ [0]" str m] assms(4) by (simp add: sprintf_def)
qed

section \<open>Printing\<close>

text \<open>
  The bytes a program may rely on while the heap routines run: those below the heap (its code, constants and static data) and those
  of the regions in use.
\<close>

definition kept :: "blk list \<Rightarrow> u32 \<Rightarrow> bool" where
  "kept bs a \<longleftrightarrow> unat a < HEAP_START \<or> (\<exists>(p, k) \<in> live bs. \<exists>j < k. a = p + of_nat j)"

definition str_kept :: "blk list \<Rightarrow> mem \<Rightarrow> u32 \<Rightarrow> u8 list \<Rightarrow> bool" where
  "str_kept bs m p xs \<longleftrightarrow> str_at m p xs \<and> (\<forall>j \<le> length xs. kept bs (p + of_nat j))"

lemma kept_not_header:
  assumes "heap_ok h bs" "kept bs a"
  shows "\<not> in_header bs a"
proof -
  have "layout HEAP_START bs (unat (hbrk h))" using assms(1) by (simp add: heap_ok_def)
  then show ?thesis
    using assms(2) live_not_header [OF assms(1)] layout_bounds unfolding kept_def in_header_def by fastforce
qed

lemma live_bounds: "heap_ok h bs \<Longrightarrow> (p, k) \<in> live bs \<Longrightarrow> HEAP_START < unat p \<and> unat p + k \<le> unat (hbrk h)"
  using live_disjoint unfolding disjoint_in_def by fast

lemma kept_apart:
  assumes "heap_ok h bs'" "live bs' = insert (ptr, n) (live bs)" "(ptr, n) \<notin> live bs" "kept bs a"
  shows "n \<le> unat (a - ptr)"
proof -
  have d: "HEAP_START < unat ptr" "unat ptr + n \<le> unat (hbrk h)"
    using live_bounds [OF assms(1)] assms(2) by auto
  show ?thesis
  proof (cases "unat a < HEAP_START")
    case True
    then have "unat (a - ptr) = 4294967296 + unat a - unat ptr" using d(1) by (simp add: unat_sub_if' word_size)
    then show ?thesis using d(2) u32_bound [of "hbrk h"] by linarith
  next
    case False
    then obtain q l j where q: "(q, l) \<in> live bs" "j < l" "a = q + of_nat j" using assms(4) by (auto simp: kept_def)
    have "(ptr, n) \<in> live bs'" "(q, l) \<in> live bs'" "(ptr, n) \<noteq> (q, l)" using q(1) assms(2,3) by auto
    from live_apart [OF assms(1) this, of "12 + j"] show ?thesis using q(2,3) by simp
  qed
qed

lemma str_kept_apart:
  assumes "heap_ok h' bs'" "live bs' = insert (ptr, n) (live bs)" "(ptr, n) \<notin> live bs"
    and "\<And>a. kept bs a \<Longrightarrow> m' a = m a" "str_kept bs m p xs"
  shows "str_apart m' p xs ptr n"
  using assms(4,5) kept_apart [OF assms(1-3)] by (auto simp: str_kept_def str_apart_def str_at_nth)

lemma put_str:
  assumes "0 \<notin> set xs" "length xs < 4294967295"
  shows "str_at (put_bytes (xs @ [0]) p m) p xs"
proof -
  have e: "put_bytes (xs @ [0]) p m = upd_range m p (length xs + 1) (\<lambda>k. (xs @ [0]) ! k)"
    using assms(2) put_bytes_eq [of "xs @ [0]" p m] by simp
  have "put_bytes (xs @ [0]) p m (p + of_nat j) = (xs @ [0]) ! j" if "j \<le> length xs" for j
    unfolding e using assms(2) that by (intro upd_range_at) auto
  then show ?thesis using assms(1) by (auto simp: str_at_nth nth_append) (metis nth_mem)
qed

lemma put_bytes_changed:
  assumes "put_bytes xs p m a \<noteq> m a" "length xs \<le> 4294967296"
  obtains j where "j < length xs" "a = p + of_nat j"
  using assms upd_range_changed by (metis put_bytes_eq)

lemma puts_str:
  assumes "str_at (hmem (uheap_of u)) p xs" "length xs < 4294967296"
  shows "puts ans p u = Some (ans (length (written u)), u\<lparr>written := written u @ [(0, xs)]\<rparr>)"
proof -
  have "u_strlen (hmem (uheap_of u)) p = Some (of_nat (length xs))"
    using strlen_loop_str_at [of "hmem (uheap_of u)" p 0 xs] assms(1) by (simp add: u_strlen_def)
  moreover have "map (\<lambda>j. hmem (uheap_of u) (p + of_nat j)) [0..<length xs] = xs"
    using assms(1) by (intro nth_equalityI) (auto simp: str_at_nth)
  ultimately show ?thesis using assms(2) by (simp add: puts_def uwrite_def)
qed

text \<open>
  C27: \<^verbatim>\<open>printf\<close>. If the heap is well-formed and has room, the format and the strings it names are in memory that the program owns, and
  the expansion of the format has fewer than 1023 bytes and no NUL, then \<^verbatim>\<open>printf\<close> returns; it makes exactly one
  system call, which writes exactly the expansion to descriptor 0, and returns that call's result; the buffer it took from the heap is
  free again: the regions in use are what they were, and neither their bytes nor those below the heap have changed.
\<close>

theorem printf_correct:
  assumes "heap_ok (uheap_of u) bs" "unat (hbrk (uheap_of u)) + 4096 \<le> HEAP_LIMIT"
    and "str_kept bs (hmem (uheap_of u)) fmt cs"
    and "\<And>k. Str k \<in> set (pieces 0 cs) \<Longrightarrow> args k \<noteq> 0 \<Longrightarrow> str_kept bs (hmem (uheap_of u)) (args k) (strs k)"
    and "out = expansion strs args 0 cs" "length out < 1023" "0 \<notin> set out"
  shows "\<exists>u' bs'. printf ans fmt args u = Some (ans (length (written u)), u') \<and> written u' = written u @ [(0, out)] \<and>
    heap_ok (uheap_of u') bs' \<and> live bs' = live bs \<and> (\<forall>a. kept bs a \<longrightarrow> hmem (uheap_of u') a = hmem (uheap_of u) a)"
proof -
  let ?h = "uheap_of u"
  have "unat (align_up 1024) = 1024" "pages (12 + 1024) = 4096" by (simp_all add: align_up_def pages_def)
  then obtain ptr n h' bs' where a: "malloc 1024 ?h = Some (ptr, h')" "heap_ok h' bs'" "1024 \<le> n" "(ptr, n) \<notin> live bs"
    "live bs' = insert (ptr, n) (live bs)" "\<forall>x. hmem h' x \<noteq> hmem ?h x \<longrightarrow> in_header bs' x"
    using alloc_keeps [OF assms(1), of 1024] assms(2) by auto
  have ptr: "ptr \<noteq> 0" "n < 4294967296" using live_bounds [OF a(2), of ptr n] a(5) u32_bound [of "hbrk h'"] by (auto, linarith)
  have k': "kept bs' x" if "kept bs x" for x using that a(5) by (auto simp: kept_def)
  have same: "hmem h' x = hmem ?h x" if "kept bs x" for x using kept_not_header [OF a(2) k' [OF that]] a(6) by blast
  note apart = str_kept_apart [where m' = "hmem h'" and m = "hmem ?h", OF a(2,5,4) same]
  have strs: "strs_apart strs args (hmem h') ptr n (pieces 0 cs)" using apart assms(4) unfolding strs_apart_def by blast
  have fmt: "str_apart (hmem h') fmt cs ptr n" using apart assms(3) by blast
  let ?m = "put_bytes (out @ [0]) ptr (hmem h')" and ?v = "u\<lparr>uheap_of := h'\<lparr>hmem := put_bytes (out @ [0]) ptr (hmem h')\<rparr>\<rparr>"
  have loop: "printf_loop fmt args ptr (0, 0, 0, hmem h') = Some (of_nat (length out), put_bytes out ptr (hmem h'))"
    using printf_loop_eq [of "hmem h'" fmt 0 cs ptr n strs args 0 0] fmt strs assms(5,6) a(3) ptr(2) by simp
  have nul: "(put_bytes out ptr (hmem h'))(ptr + of_nat (length out) := 0) = ?m" by (simp add: put_bytes_append)
  have puts: "puts ans ptr ?v = Some (ans (length (written u)), ?v\<lparr>written := written u @ [(0, out)]\<rparr>)"
    using puts_str [of ?v ptr out ans] put_str [OF assms(7), of ptr "hmem h'"] assms(6) by simp
  have chg: "\<exists>j < n. x = ptr + of_nat j" if ch: "?m x \<noteq> hmem h' x" for x
  proof -
    have "length (out @ [0]) \<le> 4294967296" using assms(6) by simp
    from put_bytes_changed [OF ch this] obtain j where "j < length (out @ [0])" "x = ptr + of_nat j" .
    then show ?thesis using assms(6) a(3) by (intro exI [of _ j]) simp
  qed
  have "\<not> in_header bs' x" if "?m x \<noteq> hmem h' x" for x
    using chg [OF that] live_not_header [OF a(2), of ptr n] a(5) by auto
  from chain_payload [OF a(2) this] have ok: "heap_ok (h'\<lparr>hmem := ?m\<rparr>) bs'" by blast
  obtain bs'' where f: "heap_ok (ufree ptr (h'\<lparr>hmem := ?m\<rparr>)) bs''" "live bs'' = live bs"
    "\<forall>x. hmem (ufree ptr (h'\<lparr>hmem := ?m\<rparr>)) x \<noteq> ?m x \<longrightarrow> in_header bs' x"
    using ufree_live [OF ok, of ptr n] a(4,5) by auto
  have "hmem (ufree ptr (h'\<lparr>hmem := ?m\<rparr>)) x = hmem ?h x" if "kept bs x" for x
  proof -
    have "hmem (ufree ptr (h'\<lparr>hmem := ?m\<rparr>)) x = ?m x" using f(3) kept_not_header [OF a(2) k' [OF that]] by blast
    also have "?m x = hmem h' x" using chg [of x] kept_apart [OF a(2,5,4) that] ptr(2) by fastforce
    finally show ?thesis using same [OF that] by simp
  qed
  moreover have "printf ans fmt args u = Some (ans (length (written u)), ?v\<lparr>written := written u @ [(0, out)], uheap_of := ufree ptr (h'\<lparr>hmem := ?m\<rparr>)\<rparr>)"
    using a(1) ptr(1) loop puts by (simp add: printf_def nul)
  ultimately show ?thesis using f(1,2)
    by (intro exI [of _ "?v\<lparr>written := written u @ [(0, out)], uheap_of := ufree ptr (h'\<lparr>hmem := ?m\<rparr>)\<rparr>"] exI [of _ bs'']) simp
qed


text \<open>A program that prints \<open>%s=%d\<close> with the arguments \<open>a\<close> and -7.\<close>

definition hello_mem :: mem where
  "hello_mem = put_bytes (bytes_of ''%s=%d'') 100 (put_bytes (bytes_of ''a'') 200 (\<lambda>_. 0))"

definition hello_args :: "nat \<Rightarrow> u32" where
  "hello_args k = (if k = 0 then 200 else - 7)"

lemma hello_strs:
  "str_at hello_mem 100 (bytes_of ''%s=%d'')" "str_at hello_mem 200 (bytes_of ''a'')"
  by (simp_all add: hello_mem_def bytes_of_def)

lemma hello_pieces: "pieces 0 (bytes_of ''%s=%d'') = [Str 0, Lit 61, Dec 1]"
  by (simp add: bytes_of_def)

lemma hello_expansion: "bytes_of ''a=-7'' = expansion (\<lambda>_. bytes_of ''a'') hello_args 0 (bytes_of ''%s=%d'')"
  by (simp add: expansion_def hello_pieces hello_args_def itoa_def word_sless_alt bytes_of_def dec_lsb.simps)

theorem sprintf_correct_witness:
  "sprintf 300 100 hello_args hello_mem = Some (4, upd_range hello_mem 300 5 (\<lambda>j. (bytes_of ''a=-7'' @ [0]) ! j))"
proof -
  have len: "length (bytes_of ''a=-7'') = 4" "length (bytes_of ''%s=%d'') = 5" "length (bytes_of ''a'') = 1" by (simp_all add: bytes_of_def)
  have "5 \<le> unat ((100 :: u32) + of_nat j - 300)" if "j \<le> 5" for j
  proof -
    have "j \<in> {0, 1, 2, 3, 4, 5}" using that by auto
    then show ?thesis by auto
  qed
  then have "str_apart hello_mem 100 (bytes_of ''%s=%d'') 300 5" using hello_strs len by (simp add: str_apart_def)
  moreover have "str_apart hello_mem 200 (bytes_of ''a'') 300 5"
    using hello_strs len by (auto simp: str_apart_def le_Suc_eq)
  ultimately show ?thesis
    using sprintf_correct [OF _ _ hello_expansion, of hello_mem 100 300] hello_pieces len
    by (auto simp: strs_apart_def hello_args_def)
qed

theorem printf_correct_witness:
  "\<exists>u'. printf (\<lambda>_. 4) 100 hello_args \<lparr>uheap_of = empty_heap\<lparr>hmem := hello_mem\<rparr>, written = []\<rparr> = Some (4, u') \<and>
    written u' = [(0, bytes_of ''a=-7'')]"
proof -
  let ?u = "\<lparr>uheap_of = empty_heap\<lparr>hmem := hello_mem\<rparr>, written = []\<rparr>"
  have len: "length (bytes_of ''a=-7'') = 4" "length (bytes_of ''%s=%d'') = 5" "length (bytes_of ''a'') = 1" by (simp_all add: bytes_of_def)
  have ok: "heap_ok (uheap_of ?u) []" using chain_payload [OF empty_heap_ok, of hello_mem] by (simp add: in_header_def)
  have k: "kept [] a" if "unat a < 1000" for a using that by (simp add: kept_def)
  have "unat ((100 :: u32) + of_nat j) < 1000" if "j \<le> 5" for j
    using that unat_add32 [of 100 j] by simp
  then have "str_kept [] hello_mem 100 (bytes_of ''%s=%d'')" using hello_strs len k by (simp add: str_kept_def)
  moreover have "str_kept [] hello_mem 200 (bytes_of ''a'')" using hello_strs len k by (auto simp: str_kept_def le_Suc_eq)
  moreover have "0 \<notin> set (bytes_of ''a=-7'')" by (simp add: bytes_of_def)
  ultimately show ?thesis
    using printf_correct [OF ok _ _ _ hello_expansion, of 100 "\<lambda>_. 4"] hello_pieces len
    by (auto simp: hello_args_def empty_heap_def)
qed

section \<open>Numbers as text\<close>

definition digits_val :: "nat \<Rightarrow> (u8 \<Rightarrow> nat) \<Rightarrow> u8 list \<Rightarrow> nat" where
  "digits_val b f cs = foldl (\<lambda>v c. b * v + f c) 0 cs"

lemma digits_val_snoc: "digits_val b f (cs @ [c]) = b * digits_val b f cs + f c"
  by (simp add: digits_val_def)

definition dec_value :: "u8 \<Rightarrow> nat" where "dec_value c = unat c - 48"

definition hex_value :: "u8 \<Rightarrow> nat" where "hex_value c = (if c < 97 then unat c - 48 else unat c - 87)"

lemma unat_dec_char: "d < 10 \<Longrightarrow> unat (48 + of_nat d :: u8) = 48 + d"
  by (simp add: unat_word_ariths unat_of_nat take_bit_eq_mod)

lemma dec_lsb_val:
  "digits_val 10 dec_value (rev (dec_lsb n)) = n \<and> (\<forall>c \<in> set (dec_lsb n). 48 \<le> unat c \<and> unat c \<le> 57) \<and>
    (n < 10 ^ k \<longrightarrow> length (dec_lsb n) \<le> k)"
proof (induction n arbitrary: k rule: dec_lsb.induct)
  case (1 n)
  show ?case
  proof (cases "n = 0")
    case True
    then show ?thesis by (subst (1 2 3) dec_lsb.simps) (simp add: digits_val_def)
  next
    case False
    have "length (dec_lsb n) \<le> k" if "n < 10 ^ k"
    proof (cases k)
      case (Suc k')
      then have "n div 10 < 10 ^ k'" using that by (simp add: div_less_iff_less_mult mult.commute)
      then show ?thesis using 1 [OF False, of k'] Suc False by (subst dec_lsb.simps) simp
    qed (use that False in simp)
    moreover have "dec_lsb n = (48 + of_nat (n mod 10)) # dec_lsb (n div 10)" using False by (subst dec_lsb.simps) simp
    moreover have "dec_value (48 + of_nat (n mod 10)) = n mod 10" using unat_dec_char [of "n mod 10"] by (simp add: dec_value_def)
    ultimately show ?thesis using 1 [OF False, of k] unat_dec_char [of "n mod 10"] mod_less_divisor [of 10 n]
      by (simp add: digits_val_snoc)
  qed
qed

lemma hex_char_facts:
  "d < 16 \<Longrightarrow> hex_value (hex_char d) = d \<and> (48 \<le> unat (hex_char d) \<and> unat (hex_char d) \<le> 57 \<or> 97 \<le> unat (hex_char d) \<and> unat (hex_char d) \<le> 102)"
  by (simp add: numeral_eq_Suc less_Suc_eq) (elim disjE; simp add: hex_char_def hex_value_def bytes_of_def)

lemma hex_lsb_val: "digits_val 16 hex_value (rev (hex_lsb n)) = n \<and> (n < 16 ^ k \<longrightarrow> length (hex_lsb n) \<le> k)"
proof (induction n arbitrary: k rule: hex_lsb.induct)
  case (1 n)
  show ?case
  proof (cases "n = 0")
    case True
    then show ?thesis by (subst (1 2) hex_lsb.simps) (simp add: digits_val_def)
  next
    case False
    have "length (hex_lsb n) \<le> k" if "n < 16 ^ k"
    proof (cases k)
      case (Suc k')
      then have "n div 16 < 16 ^ k'" using that by (simp add: div_less_iff_less_mult mult.commute)
      then show ?thesis using 1 [OF False, of k'] Suc False by (subst hex_lsb.simps) simp
    qed (use that False in simp)
    then show ?thesis using 1 [OF False] False hex_char_facts [of "n mod 16"]
      by (subst hex_lsb.simps) (simp add: digits_val_snoc)
  qed
qed

lemma of_nat_foldl:
  "of_nat (foldl (\<lambda>v c. 10 * v + f c) n ds) = foldl (\<lambda>v c. v * 10 + of_nat (f c)) (of_nat n :: u32) ds"
  by (induction ds arbitrary: n) (simp_all add: mult.commute)

lemma of_sint: "of_int (sint (w :: u32)) = w"
  by simp

lemma sint0_iff: "sint (w :: u32) = 0 \<longleftrightarrow> w = 0"
  using of_sint [of w] by (metis of_int_0 signed_0)

lemma magnitude32:
  assumes "num \<noteq> (0x80000000 :: u32)"
  shows "unat (if num <s 0 then - num else num) = nat \<bar>sint num\<bar>" "nat \<bar>sint num\<bar> < 2147483648"
    "num <s 0 \<longleftrightarrow> sint num < 0" "0 <s (if num <s 0 then - num else num) \<longleftrightarrow> num \<noteq> 0"
proof -
  let ?x = "if num <s 0 then - num else num"
  show neg: "num <s 0 \<longleftrightarrow> sint num < 0" by (simp add: word_sless_alt)
  have r: "- 2147483648 \<le> sint num" "sint num < 2147483648" using sint_ge [of num] sint_lt [of num] by simp_all
  have "of_int (- 2147483648) = (0x80000000 :: u32)" by simp
  then have "sint num \<noteq> - 2147483648" using assms of_sint by metis
  then have r': "\<bar>sint num\<bar> < 2147483648" using r by simp
  then show "nat \<bar>sint num\<bar> < 2147483648" by simp
  have x: "?x = of_int \<bar>sint num\<bar>" using neg of_sint [of num] by (auto simp: word_sless_alt)
  then have "sint ?x = \<bar>sint num\<bar>" using sint_of_int32 [of "\<bar>sint num\<bar>"] r' by simp
  then show "0 <s ?x \<longleftrightarrow> num \<noteq> 0" using sint0_iff [of num] by (auto simp: word_sless_alt)
  have "?x = of_nat (nat \<bar>sint num\<bar>)" using x by simp
  moreover have "nat \<bar>sint num\<bar> < 4294967296" using r' by simp
  ultimately show "unat ?x = nat \<bar>sint num\<bar>" using unat_of_nat32 by metis
qed

text \<open>
  Numbers as text. Except for the least integer, \<^verbatim>\<open>itoa\<close> gives a minus sign exactly for a negative number and then decimal
  digits whose value is the magnitude, and \<^verbatim>\<open>utoa_hex\<close> gives hexadecimal digits with the value of the number; the texts are not
  empty and fit the local buffers of 12 and 9 bytes with their NUL.
\<close>

lemma number_text:
  assumes "num \<noteq> 0x80000000"
  shows "(\<exists>ds. itoa num = (if sint num < 0 then 45 # ds else ds) \<and> ds \<noteq> [] \<and> (\<forall>c \<in> set ds. 48 \<le> unat c \<and> unat c \<le> 57) \<and>
      int (digits_val 10 dec_value ds) = \<bar>sint num\<bar> \<and> length (itoa num) \<le> 11) \<and>
    digits_val 16 hex_value (utoa_hex n) = unat n \<and> utoa_hex n \<noteq> [] \<and> length (utoa_hex n) \<le> 8"
proof -
  have len: "length (dec_lsb n) \<le> 10" if "n < 10 ^ 10" for n using dec_lsb_val [of n 10] that by simp
  have ne: "dec_lsb n \<noteq> []" if "n \<noteq> 0" for n using that by (subst dec_lsb.simps) simp
  have mag: "unat (if num <s 0 then - num else num) = nat \<bar>sint num\<bar>" "nat \<bar>sint num\<bar> < 2147483648"
    "num <s 0 \<longleftrightarrow> sint num < 0" "0 <s (if num <s 0 then - num else num) \<longleftrightarrow> num \<noteq> 0"
    using magnitude32 [OF assms] by simp_all
  have "\<exists>ds. itoa num = (if sint num < 0 then 45 # ds else ds) \<and> ds \<noteq> [] \<and> (\<forall>c \<in> set ds. 48 \<le> unat c \<and> unat c \<le> 57) \<and>
      int (digits_val 10 dec_value ds) = \<bar>sint num\<bar> \<and> length (itoa num) \<le> 11"
  proof (cases "num = 0")
    case True
    then show ?thesis by (intro exI [of _ "[48]"]) (simp add: itoa_def digits_val_def dec_value_def)
  next
    case False
    let ?n = "nat \<bar>sint num\<bar>"
    have "itoa num = (if sint num < 0 then 45 # rev (dec_lsb ?n) else rev (dec_lsb ?n))"
      using False mag(1,3,4) by (simp add: itoa_def Let_def)
    moreover have "sint num \<noteq> 0" using False by (simp add: sint0_iff)
    then have "dec_lsb ?n \<noteq> []" "length (dec_lsb ?n) \<le> 10" using ne [of ?n] len [of ?n] mag(2) by simp_all
    ultimately have "length (itoa num) \<le> 11" "rev (dec_lsb ?n) \<noteq> []" by auto
    then show ?thesis using dec_lsb_val [of ?n 10] \<open>itoa num = _\<close> by (intro exI [of _ "rev (dec_lsb ?n)"]) simp
  qed
  moreover have "digits_val 16 hex_value (utoa_hex n) = unat n \<and> utoa_hex n \<noteq> [] \<and> length (utoa_hex n) \<le> 8"
    using hex_lsb_val [of "unat n" 8] hex_lsb.simps [of "unat n"]
    by (auto simp: utoa_hex_def digits_val_def hex_value_def unat_eq_0)
  ultimately show ?thesis by blast
qed

text \<open>The least integer has no positive counterpart: only the sign is printed.\<close>

lemma itoa_least: "itoa 0x80000000 = bytes_of ''-''"
  by (simp add: itoa_def word_sless_alt bytes_of_def dec_lsb.simps)

text \<open>The decimal text of an integer, most significant digit first, and that \<^verbatim>\<open>itoa\<close> gives it for every other number.\<close>

fun decimal_nat :: "nat \<Rightarrow> u8 list" where
  "decimal_nat n = (if n < 10 then [48 + of_nat n] else decimal_nat (n div 10) @ [48 + of_nat (n mod 10)])"

declare decimal_nat.simps [simp del]

definition decimal :: "int \<Rightarrow> u8 list" where
  "decimal i = (if i < 0 then 45 # decimal_nat (nat (- i)) else decimal_nat (nat i))"

lemma dec_lsb_decimal: "0 < n \<Longrightarrow> rev (dec_lsb n) = decimal_nat n"
proof (induction n rule: decimal_nat.induct)
  case (1 n)
  then show ?case
    by (cases "n < 10") (simp_all add: dec_lsb.simps [of n] decimal_nat.simps [of n] dec_lsb.simps [of 0] div_greater_zero_iff)
qed

lemma itoa_decimal:
  assumes "num \<noteq> 0x80000000"
  shows "itoa num = decimal (sint num)"
proof (cases "num = 0")
  case False
  let ?n = "nat \<bar>sint num\<bar>"
  have "itoa num = (if sint num < 0 then 45 # rev (dec_lsb ?n) else rev (dec_lsb ?n))"
    using False magnitude32 [OF assms] by (simp add: itoa_def Let_def)
  moreover have "0 < ?n" using False by (simp add: sint0_iff)
  ultimately show ?thesis by (simp add: dec_lsb_decimal decimal_def)
qed (simp add: itoa_def decimal_def decimal_nat.simps)

text \<open>The same for hexadecimal text, with lower-case letters.\<close>

fun hexadecimal :: "nat \<Rightarrow> u8 list" where
  "hexadecimal n = (if 16 \<le> n then hexadecimal (n div 16) else []) @ [(if n mod 16 < 10 then 48 else 87) + of_nat (n mod 16)]"

declare hexadecimal.simps [simp del]

lemma hex_char_eq: "d < 16 \<Longrightarrow> hex_char d = (if d < 10 then 48 else 87) + of_nat d"
  by (auto simp: hex_char_def bytes_of_def less_Suc_eq numeral_eq_Suc)

lemma hex_lsb_hexadecimal: "0 < n \<Longrightarrow> rev (hex_lsb n) = hexadecimal n"
proof (induction n rule: hexadecimal.induct)
  case (1 n)
  then show ?case
    by (cases "16 \<le> n") (simp_all add: hex_lsb.simps [of n] hexadecimal.simps [of n] hex_lsb.simps [of 0] div_greater_zero_iff hex_char_eq)
qed

lemma utoa_hexadecimal: "utoa_hex n = hexadecimal (unat n)"
proof (cases "n = 0")
  case False
  then have "0 < unat n" by (simp add: unat_gt_0)
  then show ?thesis using False by (simp add: utoa_hex_def hex_lsb_hexadecimal)
qed (simp add: utoa_hex_def hexadecimal.simps)

end
