(* ===== verification/Editor.thy ===== *)
theory Editor
  imports UPrintf
begin

text \<open>
  The line editor, \<^verbatim>\<open>user/src/ed.c\<close>. The lines are a doubly linked list of records in memory, here a store from addresses to records;
  the text of a line belongs to that line alone (\<^verbatim>\<open>strdup\<close> copies it), so it is a field of the record. The argument \<open>new\<close> is the
  allocator: the address it gives for a store, 0 when there is no memory left, which the program does not check. Dereferencing
  the null pointer or a freed record is an error value. What the program writes is recorded in order, with the descriptor; \<open>ans\<close>
  gives the kernel's answer to the \<^verbatim>\<open>open\<close> after so many writes, and the input is the list of answers to \<^verbatim>\<open>read\<close>.
\<close>

abbreviation MAX_LINE_LEN :: nat where "MAX_LINE_LEN \<equiv> 256"

section \<open>Definitions\<close>

record ed_line =
  line_text :: "u8 list"
  lnext :: u32
  lprev :: u32

type_synonym ed_store = "u32 \<rightharpoonup> ed_line"

record editor =
  ed_store :: ed_store
  ed_first :: u32
  ed_current :: u32
  ed_last :: u32
  current_line_idx :: int
  total_lines :: int
  ed_filename :: "u8 list"
  ed_modified :: bool
  ed_trace :: "(u32 \<times> u8 list) list"

definition ed_write :: "u32 \<Rightarrow> u8 list \<Rightarrow> editor \<Rightarrow> editor" where
  "ed_write fd bs ed = ed\<lparr>ed_trace := ed_trace ed @ [(fd, bs)]\<rparr>"

abbreviation ed_puts :: "u8 list \<Rightarrow> editor \<Rightarrow> editor" where
  "ed_puts bs \<equiv> ed_write 0 bs"

abbreviation show_int :: "int \<Rightarrow> u8 list" where
  "show_int k \<equiv> itoa (of_int k)"

fun atoi_from :: "u32 \<Rightarrow> u8 list \<Rightarrow> u32" where
  "atoi_from num [] = num"
| "atoi_from num (c # cs) = (if 48 \<le> c \<and> c \<le> 57 then atoi_from (num * 10 + (ucast c - 48)) cs else num)"

definition atoi :: "u8 list \<Rightarrow> u32" where
  "atoi s = atoi_from 0 s"

definition line_at :: "ed_store \<Rightarrow> u32 \<Rightarrow> ed_line kres" where
  "line_at s p = (if p = 0 then Inl NullDeref else case s p of None \<Rightarrow> Inl OutOfBounds | Some l \<Rightarrow> Inr l)"

definition upd_line :: "u32 \<Rightarrow> (ed_line \<Rightarrow> ed_line) \<Rightarrow> editor \<Rightarrow> editor kres" where
  "upd_line p f ed = kbind (line_at (ed_store ed) p) (\<lambda>l. Inr (ed\<lparr>ed_store := (ed_store ed)(p \<mapsto> f l)\<rparr>))"

text \<open>\<^verbatim>\<open>strdup\<close> copies up to the first NUL.\<close>

definition make_line :: "(ed_store \<Rightarrow> u32) \<Rightarrow> u8 list \<Rightarrow> editor \<Rightarrow> (u32 \<times> editor) kres" where
  "make_line new s ed =
     (let l = new (ed_store ed)
      in if l = 0 then Inl NullDeref
         else Inr (l, ed\<lparr>ed_store := (ed_store ed)(l \<mapsto> \<lparr>line_text = takeWhile (\<lambda>c. c \<noteq> 0) s, lnext = 0, lprev = 0\<rparr>)\<rparr>))"

definition make_editor :: "u8 list \<Rightarrow> editor" where
  "make_editor name = \<lparr>ed_store = Map.empty, ed_first = 0, ed_current = 0, ed_last = 0, current_line_idx = 0, total_lines = 0,
     ed_filename = name, ed_modified = False, ed_trace = []\<rparr>"

subsection \<open>Files\<close>

definition append_line :: "(ed_store \<Rightarrow> u32) \<Rightarrow> u8 list \<Rightarrow> editor \<Rightarrow> editor kres" where
  "append_line new buffer ed =
     kbind (make_line new buffer ed) (\<lambda>(l, ed).
     kbind (if ed_first ed = 0 then Inr (ed\<lparr>ed_first := l, ed_current := l, ed_last := l\<rparr>)
            else
              kbind (upd_line (ed_last ed) (\<lambda>x. x\<lparr>lnext := l\<rparr>) ed) (\<lambda>ed.
              kbind (upd_line l (\<lambda>x. x\<lparr>lprev := ed_last ed\<rparr>) ed) (\<lambda>ed. Inr (ed\<lparr>ed_last := l\<rparr>)))) (\<lambda>ed.
       Inr (ed\<lparr>total_lines := total_lines ed + 1\<rparr>)))"

fun load_loop :: "(ed_store \<Rightarrow> u32) \<Rightarrow> u8 list \<Rightarrow> u8 list \<Rightarrow> editor \<Rightarrow> (u8 list \<times> editor) kres" where
  "load_loop new buffer [] ed = Inr (buffer, ed)"
| "load_loop new buffer (c # cs) ed =
     (if c = NEWLINE \<or> length buffer \<ge> MAX_LINE_LEN - 1 then
        kbind (append_line new buffer ed) (load_loop new [] cs)
      else load_loop new (buffer @ [c]) cs ed)"

definition load_file :: "(ed_store \<Rightarrow> u32) \<Rightarrow> u32 \<Rightarrow> u8 list \<Rightarrow> editor \<Rightarrow> (bool \<times> editor) kres" where
  "load_file new fd bytes ed =
     (if fd <s 0 then Inr (False, ed_puts (bytes_of ''File doesn't exist: '' @ ed_filename ed @ [NEWLINE]) ed)
      else
        kbind (load_loop new [] bytes ed) (\<lambda>(buffer, ed).
        kbind (if length buffer > 0 then append_line new buffer ed else Inr ed) (\<lambda>ed.
          Inr (True, ed_puts (bytes_of ''Loaded '' @ show_int (total_lines ed) @ bytes_of '' lines from '' @ ed_filename ed @ [NEWLINE])
                (ed\<lparr>current_line_idx := 1\<rparr>)))))"

partial_function (option) save_loop :: "u32 \<Rightarrow> u32 \<Rightarrow> editor \<Rightarrow> editor kres option" where
  "save_loop fd l ed =
     (if l = 0 then Some (Inr ed)
      else
        (case line_at (ed_store ed) l of
           Inl e \<Rightarrow> Some (Inl e)
         | Inr x \<Rightarrow> save_loop fd (lnext x) (ed_write fd [NEWLINE] (ed_write fd (line_text x) ed))))"

definition save_file :: "(nat \<Rightarrow> u32) \<Rightarrow> editor \<Rightarrow> editor kres" where
  "save_file ans ed =
     (let fd = ans (length (ed_trace ed))
      in if fd <s 0 then Inr (ed_puts (bytes_of ''Error: Cannot open file for writing'' @ [NEWLINE]) ed)
         else
           kbind (kwait (save_loop fd (ed_first ed) ed)) (\<lambda>r. kbind r (\<lambda>ed.
             Inr (ed_puts (bytes_of ''Saved '' @ show_int (total_lines ed) @ bytes_of '' lines to '' @ ed_filename ed @ [NEWLINE])
                   (ed\<lparr>ed_modified := False\<rparr>)))))"

subsection \<open>Moving and printing\<close>

fun print_loop :: "nat \<Rightarrow> u32 \<Rightarrow> int \<Rightarrow> editor \<Rightarrow> editor kres" where
  "print_loop 0 l line_num ed = Inr ed"
| "print_loop (Suc n) l line_num ed =
     (if l = 0 then Inr ed
      else
        kbind (line_at (ed_store ed) l) (\<lambda>x.
          print_loop n (lnext x) (line_num + 1) (ed_puts (show_int line_num @ bytes_of '': '' @ line_text x @ [NEWLINE]) ed)))"

definition print_lines :: "int \<Rightarrow> editor \<Rightarrow> editor kres" where
  "print_lines count ed =
     (if ed_current ed = 0 then Inr (ed_puts (bytes_of ''No lines to print'' @ [NEWLINE]) ed)
      else print_loop (nat count) (ed_current ed) (current_line_idx ed) ed)"

text \<open>The two loops of \<^verbatim>\<open>goto_line\<close>, by the number of steps left.\<close>

fun walk :: "(ed_line \<Rightarrow> u32) \<Rightarrow> nat \<Rightarrow> ed_store \<Rightarrow> u32 \<Rightarrow> u32 kres" where
  "walk step 0 s p = Inr p"
| "walk step (Suc n) s p = kbind (line_at s p) (\<lambda>x. walk step n s (step x))"

definition goto_line :: "int \<Rightarrow> editor \<Rightarrow> editor kres" where
  "goto_line target ed =
     (if target < 1 \<or> target > total_lines ed then
        Inr (ed_puts (bytes_of ''Error: Line '' @ show_int target @ bytes_of '' out of range (1-'' @ show_int (total_lines ed) @ bytes_of '')'' @ [NEWLINE]) ed)
      else
        let ed = (if target < tdiv (current_line_idx ed) 2 then ed\<lparr>ed_current := ed_first ed, current_line_idx := 1\<rparr> else ed);
            idx = current_line_idx ed
        in kbind (walk lnext (nat (target - idx)) (ed_store ed) (ed_current ed)) (\<lambda>p.
           kbind (walk lprev (nat (idx - target)) (ed_store ed) p) (\<lambda>p.
           kbind (line_at (ed_store ed) p) (\<lambda>x.
             Inr (ed_puts (bytes_of ''At line '' @ show_int target @ bytes_of '': '' @ line_text x @ [NEWLINE])
                   (ed\<lparr>ed_current := p, current_line_idx := target\<rparr>))))))"

subsection \<open>Changing lines\<close>

definition insert_after :: "(ed_store \<Rightarrow> u32) \<Rightarrow> u8 list \<Rightarrow> editor \<Rightarrow> editor kres" where
  "insert_after new t ed =
     kbind (make_line new t ed) (\<lambda>(new_line, ed).
     kbind (if ed_first ed = 0 then
              Inr (ed\<lparr>ed_first := new_line, ed_current := new_line, ed_last := new_line, current_line_idx := 1\<rparr>)
            else
              kbind (upd_line new_line (\<lambda>x. x\<lparr>lprev := ed_current ed\<rparr>) ed) (\<lambda>ed.
              kbind (line_at (ed_store ed) (ed_current ed)) (\<lambda>cur.
              kbind (upd_line new_line (\<lambda>x. x\<lparr>lnext := lnext cur\<rparr>) ed) (\<lambda>ed.
              kbind (line_at (ed_store ed) (ed_current ed)) (\<lambda>cur.
              kbind (if lnext cur \<noteq> 0 then upd_line (lnext cur) (\<lambda>x. x\<lparr>lprev := new_line\<rparr>) ed else Inr (ed\<lparr>ed_last := new_line\<rparr>)) (\<lambda>ed.
              kbind (upd_line (ed_current ed) (\<lambda>x. x\<lparr>lnext := new_line\<rparr>) ed) (\<lambda>ed.
                Inr (ed\<lparr>ed_current := new_line, current_line_idx := current_line_idx ed + 1\<rparr>)))))))) (\<lambda>ed.
       Inr (ed\<lparr>total_lines := total_lines ed + 1, ed_modified := True\<rparr>)))"

definition insert_before :: "(ed_store \<Rightarrow> u32) \<Rightarrow> u8 list \<Rightarrow> editor \<Rightarrow> editor kres" where
  "insert_before new t ed =
     kbind (make_line new t ed) (\<lambda>(new_line, ed).
     kbind (if ed_first ed = 0 then
              Inr (ed\<lparr>ed_first := new_line, ed_current := new_line, ed_last := new_line, current_line_idx := 1\<rparr>)
            else
              kbind (upd_line new_line (\<lambda>x. x\<lparr>lnext := ed_current ed\<rparr>) ed) (\<lambda>ed.
              kbind (line_at (ed_store ed) (ed_current ed)) (\<lambda>cur.
              kbind (upd_line new_line (\<lambda>x. x\<lparr>lprev := lprev cur\<rparr>) ed) (\<lambda>ed.
              kbind (line_at (ed_store ed) (ed_current ed)) (\<lambda>cur.
              kbind (if lprev cur \<noteq> 0 then upd_line (lprev cur) (\<lambda>x. x\<lparr>lnext := new_line\<rparr>) ed else Inr (ed\<lparr>ed_first := new_line\<rparr>)) (\<lambda>ed.
              kbind (upd_line (ed_current ed) (\<lambda>x. x\<lparr>lprev := new_line\<rparr>) ed) (\<lambda>ed.
                Inr (ed\<lparr>ed_current := new_line\<rparr>)))))))) (\<lambda>ed.
       Inr (ed\<lparr>total_lines := total_lines ed + 1, ed_modified := True\<rparr>)))"

definition replace_line :: "u8 list \<Rightarrow> editor \<Rightarrow> editor kres" where
  "replace_line t ed =
     (if ed_current ed = 0 then Inr (ed_puts (bytes_of ''Error: No current line'' @ [NEWLINE]) ed)
      else
        kbind (upd_line (ed_current ed) (\<lambda>x. x\<lparr>line_text := takeWhile (\<lambda>c. c \<noteq> 0) t\<rparr>) ed) (\<lambda>ed.
          Inr (ed_puts (bytes_of ''Replaced line '' @ show_int (current_line_idx ed) @ [NEWLINE]) (ed\<lparr>ed_modified := True\<rparr>))))"

definition delete_line :: "editor \<Rightarrow> editor kres" where
  "delete_line ed =
     (if ed_current ed = 0 then Inr ed
      else
        let to_delete = ed_current ed
        in kbind (line_at (ed_store ed) to_delete) (\<lambda>d.
           kbind (if lprev d \<noteq> 0 then upd_line (lprev d) (\<lambda>x. x\<lparr>lnext := lnext d\<rparr>) ed else Inr (ed\<lparr>ed_first := lnext d\<rparr>)) (\<lambda>ed.
           kbind (line_at (ed_store ed) to_delete) (\<lambda>d.
           kbind (if lnext d \<noteq> 0 then upd_line (lnext d) (\<lambda>x. x\<lparr>lprev := lprev d\<rparr>) ed else Inr (ed\<lparr>ed_last := lprev d\<rparr>)) (\<lambda>ed.
           kbind (line_at (ed_store ed) to_delete) (\<lambda>d.
             Inr (ed\<lparr>ed_current := (if lnext d \<noteq> 0 then lnext d else lprev d), ed_store := (ed_store ed)(to_delete := None),
                    total_lines := total_lines ed - 1, ed_modified := True\<rparr>)))))))"

subsection \<open>Commands\<close>

definition read_line :: "u8 list \<Rightarrow> u8 list option \<Rightarrow> int \<times> u8 list" where
  "read_line buffer r =
     (case r of
        None \<Rightarrow> (- 1, buffer)
      | Some bs \<Rightarrow>
          let bs = take (MAX_LINE_LEN - 1) bs; n = length bs
          in if n > 0 then
               let buffer = bs @ 0 # drop (Suc n) buffer
               in if buffer ! (n - 1) = NEWLINE then (int n - 1, buffer[n - 1 := 0]) else (int n, buffer)
             else (0, buffer))"

datatype ed_status = Continue | Quit | Blocked

fun insert_loop :: "(u8 list \<Rightarrow> editor \<Rightarrow> editor kres) \<Rightarrow> u8 list \<Rightarrow> u8 list option list \<Rightarrow> editor \<Rightarrow>
    (ed_status \<times> editor \<times> u8 list \<times> u8 list option list) kres" where
  "insert_loop ins input [] ed = Inr (Blocked, ed_puts (bytes_of ''+ '') ed, input, [])"
| "insert_loop ins input (r # rs) ed =
     (let ed = ed_puts (bytes_of ''+ '') ed; (len, input) = read_line input r
      in if len = 0 then Inr (Continue, ed, input, rs) else kbind (ins input ed) (insert_loop ins input rs))"

definition ed_command :: "(ed_store \<Rightarrow> u32) \<Rightarrow> (nat \<Rightarrow> u32) \<Rightarrow> u8 list \<Rightarrow> u8 list option list \<Rightarrow> editor \<Rightarrow>
    (ed_status \<times> editor \<times> u8 list \<times> u8 list option list) kres" where
  "ed_command new ans input rs ed =
     (let ed = ed_puts (bytes_of ''ed> '') ed
      in case rs of
           [] \<Rightarrow> Inr (Blocked, ed, input, [])
         | r # rs \<Rightarrow>
             let (len, input) = read_line input r
             in if len \<le> 0 then Inr (Continue, ed, input, rs)
                else if input ! 0 = of_char CHR ''q'' then
                  if ed_modified ed then
                    let ed = ed_puts (bytes_of ''Warning: unsaved changes. Use 'w' to save or 'q!' to quit anyway'' @ [NEWLINE]) ed
                    in Inr (if len > 1 \<and> input ! 1 = of_char CHR ''!'' then Quit else Continue, ed, input, rs)
                  else Inr (Quit, ed, input, rs)
                else if input ! 0 = of_char CHR ''w'' then kbind (save_file ans ed) (\<lambda>ed. Inr (Continue, ed, input, rs))
                else if input ! 0 = of_char CHR ''g'' then
                  kbind (goto_line (sint (atoi (drop 2 input))) ed) (\<lambda>ed. Inr (Continue, ed, input, rs))
                else if input ! 0 = of_char CHR ''p'' then
                  kbind (print_lines (if len > 2 then sint (atoi (drop 2 input)) else 1) ed) (\<lambda>ed. Inr (Continue, ed, input, rs))
                else if input ! 0 = of_char CHR ''a'' then
                  insert_loop (insert_after new) input rs (ed_puts (bytes_of ''Enter lines (empty line to finish):'' @ [NEWLINE]) ed)
                else if input ! 0 = of_char CHR ''i'' then
                  insert_loop (insert_before new) input rs (ed_puts (bytes_of ''Enter lines (empty line to finish):'' @ [NEWLINE]) ed)
                else if input ! 0 = of_char CHR ''r'' then
                  (let ed = ed_puts (bytes_of ''New text: '') ed
                   in case rs of
                        [] \<Rightarrow> Inr (Blocked, ed, input, [])
                      | r # rs \<Rightarrow>
                          let (len, input) = read_line input r in kbind (replace_line input ed) (\<lambda>ed. Inr (Continue, ed, input, rs)))
                else if input ! 0 = of_char CHR ''d'' then
                  kbind (delete_line ed) (\<lambda>ed. Inr (Continue, ed_puts (bytes_of ''Deleted current line'' @ [NEWLINE]) ed, input, rs))
                else Inr (Continue, ed_puts (bytes_of ''Unknown command: '' @ [input ! 0, NEWLINE]) ed, input, rs))"

lemma insert_loop_shorter: "insert_loop ins input rs ed = Inr (st, ed', input', rs') \<Longrightarrow> length rs' \<le> length rs"
  by (induction ins input rs ed rule: insert_loop.induct) (force simp: kres_simps Let_def split: prod.splits if_splits)+

lemma ed_command_shorter:
  assumes "ed_command new ans input rs ed = Inr (Continue, ed', input', rs')"
  shows "length rs' < length rs"
proof (cases rs)
  case (Cons r rs1)
  then show ?thesis using assms
    by (auto simp: ed_command_def kres_simps Let_def split: prod.splits if_splits list.splits dest: insert_loop_shorter)
qed (use assms in \<open>simp add: ed_command_def\<close>)

function ed_loop :: "(ed_store \<Rightarrow> u32) \<Rightarrow> (nat \<Rightarrow> u32) \<Rightarrow> u8 list \<Rightarrow> u8 list option list \<Rightarrow> editor \<Rightarrow> (ed_status \<times> editor) kres" where
  "ed_loop new ans input rs ed =
     kbind (ed_command new ans input rs ed) (\<lambda>(st, ed, input, rs).
       if st = Continue then ed_loop new ans input rs ed
       else if st = Quit then Inr (Quit, ed_puts (bytes_of ''Goodbye!'' @ [NEWLINE]) ed)
       else Inr (Blocked, ed))"
  by pat_completeness auto
termination
  by (relation "measure (\<lambda>(new, ans, input, rs, ed). length rs)") (auto dest: ed_command_shorter)

declare ed_loop.simps [simp del]

definition ed_banner :: "u8 list list" where
  "ed_banner = map (\<lambda>s. bytes_of s @ [NEWLINE])
     [''  g <n>     - goto line n'', ''  p [n]     - print n lines (default 1)'', ''  i         - insert lines before current'',
      ''  a         - insert lines after current'', ''  r         - replace current line'', ''  w         - write (save) file'']"

text \<open>The whole program; the status is the exit code, \<open>None\<close> when it waits for more input.\<close>

definition ed_start :: "(ed_store \<Rightarrow> u32) \<Rightarrow> (nat \<Rightarrow> u32) \<Rightarrow> u32 \<Rightarrow> u8 list \<Rightarrow> u32 \<Rightarrow> u8 list \<Rightarrow> u8 list \<Rightarrow> u8 list option list \<Rightarrow>
    (nat option \<times> editor) kres" where
  "ed_start new ans argc name fd bytes input rs =
     (if argc <s 2 then Inr (Some 1, ed_puts (bytes_of ''Usage: ed <filename>'' @ [NEWLINE]) (make_editor name))
      else
        kbind (load_file new fd bytes (make_editor name)) (\<lambda>(load_res, ed).
          if \<not> load_res then Inr (Some 1, ed)
          else
            let ed = fold ed_puts ([NEWLINE # bytes_of ''Commands:'' @ [NEWLINE]] @ ed_banner @ [bytes_of ''  q         - quit'' @ [NEWLINE, NEWLINE]]) ed
            in kbind (ed_loop new ans input rs ed) (\<lambda>(st, ed). Inr (if st = Quit then Some 0 else None, ed))))"

section \<open>The linked list\<close>

definition hd_or :: "u32 \<Rightarrow> u32 list \<Rightarrow> u32" where
  "hd_or d ps = (case ps of [] \<Rightarrow> d | p # _ \<Rightarrow> p)"

definition last_or :: "u32 \<Rightarrow> u32 list \<Rightarrow> u32" where
  "last_or d ps = (if ps = [] then d else last ps)"

lemma hd_or_simps [simp]: "hd_or d [] = d" "hd_or d (p # ps) = p" "hd_or d (xs @ p # ys) = hd_or p xs"
  by (simp_all add: hd_or_def split: list.splits)

lemma last_or_simps [simp]: "last_or d [] = d" "last_or d (p # ps) = last_or p ps" "last_or d (xs @ p # ys) = last_or p ys"
  by (simp_all add: last_or_def)

text \<open>
  \<open>dll s pr ps ts nx\<close>: the records at \<open>ps\<close> hold the lines \<open>ts\<close> and are linked in that order; the first points back to \<open>pr\<close> and
  the last on to \<open>nx\<close>.
\<close>

fun dll :: "ed_store \<Rightarrow> u32 \<Rightarrow> u32 list \<Rightarrow> u8 list list \<Rightarrow> u32 \<Rightarrow> bool" where
  "dll s pr [] ts nx \<longleftrightarrow> ts = []"
| "dll s pr (p # ps) ts nx \<longleftrightarrow> p \<noteq> 0 \<and> (\<exists>t us. ts = t # us \<and> s p = Some \<lparr>line_text = t, lnext = hd_or nx ps, lprev = pr\<rparr> \<and> dll s p ps us nx)"

lemma dll_length: "dll s pr ps ts nx \<Longrightarrow> length ts = length ps"
  by (induction s pr ps ts nx rule: dll.induct) auto

lemma dll_cong: "dll s pr ps ts nx \<Longrightarrow> (\<And>p. p \<in> set ps \<Longrightarrow> s' p = s p) \<Longrightarrow> dll s' pr ps ts nx"
  by (induction s pr ps ts nx rule: dll.induct) auto

lemma dll_append:
  "length ts = length xs \<Longrightarrow> dll s pr (xs @ ys) (ts @ us) nx \<longleftrightarrow> dll s pr xs ts (hd_or nx ys) \<and> dll s (last_or pr xs) ys us nx"
proof (induction xs arbitrary: pr ts)
  case (Cons x xs)
  then obtain t ts' where ts: "ts = t # ts'" "length ts' = length xs" by (cases ts) auto
  have "hd_or nx (xs @ ys) = hd_or (hd_or nx ys) xs" by (cases xs) auto
  then show ?case using Cons.IH [OF ts(2)] ts(1) by auto
qed simp

lemma dll_upd [simp]: "p \<notin> set ps \<Longrightarrow> dll (s(p := v)) pr ps ts nx \<longleftrightarrow> dll s pr ps ts nx"
  by (auto elim!: dll_cong)

lemma dll_nonzero: "dll s pr ps ts nx \<Longrightarrow> 0 \<notin> set ps"
  by (induction s pr ps ts nx rule: dll.induct) auto

section \<open>The editor and the document\<close>

text \<open>
  What the editor shows: the lines \<open>ls\<close> with the current line \<open>i\<close>, counted from 1, or 0 when there is no line. The store holds exactly the
  records of the list.
\<close>

definition ed_at :: "editor \<Rightarrow> u32 list \<Rightarrow> u8 list list \<Rightarrow> nat \<Rightarrow> bool" where
  "ed_at ed ps ls i \<longleftrightarrow> dll (ed_store ed) 0 ps ls 0 \<and> distinct ps \<and> dom (ed_store ed) = set ps \<and>
     ed_first ed = hd_or 0 ps \<and> ed_last ed = last_or 0 ps \<and> total_lines ed = int (length ls) \<and>
     (if ls = [] then i = 0 \<and> ed_current ed = 0 else 1 \<le> i \<and> i \<le> length ls \<and> ed_current ed = ps ! (i - 1))"

definition ed_shows :: "editor \<Rightarrow> u8 list list \<Rightarrow> nat \<Rightarrow> bool" where
  "ed_shows ed ls i \<longleftrightarrow> (\<exists>ps. ed_at ed ps ls i) \<and> (ls \<noteq> [] \<longrightarrow> current_line_idx ed = int i)"

definition fresh_alloc :: "nat \<Rightarrow> (ed_store \<Rightarrow> u32) \<Rightarrow> bool" where
  "fresh_alloc N new \<longleftrightarrow> (\<forall>s. card (dom s) < N \<longrightarrow> new s \<noteq> 0 \<and> new s \<notin> dom s)"

lemma ed_at_split:
  assumes "ed_at ed ps ls i" "ls \<noteq> []"
  obtains xs p ys ts t us where "ps = xs @ p # ys" "ls = ts @ t # us" "length ts = length xs" "i = Suc (length xs)"
    "ed_current ed = p" "ts = take (i - 1) ls" "t = ls ! (i - 1)" "us = drop i ls"
proof -
  have len: "length ls = length ps" using assms(1) dll_length by (auto simp: ed_at_def)
  have i: "1 \<le> i" "i \<le> length ls" "ed_current ed = ps ! (i - 1)" using assms by (auto simp: ed_at_def)
  have "ps = take (i - 1) ps @ ps ! (i - 1) # drop i ps" "ls = take (i - 1) ls @ ls ! (i - 1) # drop i ls"
    using i len id_take_nth_drop [of "i - 1" ps] id_take_nth_drop [of "i - 1" ls] by simp_all
  then show thesis using that i len by simp
qed

lemma cut_str: "0 \<notin> set t \<Longrightarrow> takeWhile (\<lambda>c. c \<noteq> 0) t = (t :: u8 list)"
  by (induction t) auto

lemma make_line_fresh:
  "new (ed_store ed) \<noteq> 0 \<Longrightarrow> 0 \<notin> set t \<Longrightarrow>
    make_line new t ed = Inr (new (ed_store ed), ed\<lparr>ed_store := (ed_store ed)(new (ed_store ed) \<mapsto> \<lparr>line_text = t, lnext = 0, lprev = 0\<rparr>)\<rparr>)"
  by (simp add: make_line_def Let_def cut_str)

lemma ed_atD:
  assumes "ed_at ed ps ls i"
  shows "dll (ed_store ed) 0 ps ls 0" "distinct ps" "dom (ed_store ed) = set ps" "ed_first ed = hd_or 0 ps" "ed_last ed = last_or 0 ps"
    "total_lines ed = int (length ls)" "length ls = length ps" "ls \<noteq> [] \<Longrightarrow> ed_first ed \<noteq> 0"
proof -
  show d: "dll (ed_store ed) 0 ps ls 0" and f: "ed_first ed = hd_or 0 ps" and "distinct ps" "dom (ed_store ed) = set ps" "ed_last ed = last_or 0 ps"
    "total_lines ed = int (length ls)" using assms by (auto simp: ed_at_def)
  show l: "length ls = length ps" using d dll_length by blast
  show "ed_first ed \<noteq> 0" if "ls \<noteq> []" using that l f dll_nonzero [OF d] by (cases ps) auto
qed

lemma fresh_at:
  assumes "ed_at ed ps ls i" "fresh_alloc N new" "length ls < N"
  shows "new (ed_store ed) \<noteq> 0" "new (ed_store ed) \<notin> set ps"
  using assms(2,3) ed_atD(2,3,7) [OF assms(1)] distinct_card unfolding fresh_alloc_def by metis+

lemma insert_after_at:
  assumes "ed_at ed ps ls i" "fresh_alloc N new" "length ls < N" "0 \<notin> set t"
  shows "\<exists>ed' ps'. insert_after new t ed = Inr ed' \<and> ed_at ed' ps' (take i ls @ t # drop i ls) (Suc i) \<and>
    current_line_idx ed' = (if ls = [] then 1 else current_line_idx ed + 1) \<and> ed_modified ed' \<and> ed_trace ed' = ed_trace ed \<and>
    ed_filename ed' = ed_filename ed"
proof -
  note dl = ed_atD(1) [OF assms(1)] and dist = ed_atD(2) [OF assms(1)] and dom = ed_atD(3) [OF assms(1)]
    and ends = ed_atD(4,5) [OF assms(1)] and tot = ed_atD(6) [OF assms(1)] and len = ed_atD(7) [OF assms(1)]
  let ?n = "new (ed_store ed)"
  note n = fresh_at [OF assms(1-3)]
  note tw = make_line_fresh [of new ed, OF n(1) assms(4)]
  show ?thesis
  proof (cases "ls = []")
    case True
    let ?ed = "ed\<lparr>ed_store := (ed_store ed)(?n \<mapsto> \<lparr>line_text = t, lnext = 0, lprev = 0\<rparr>), ed_first := ?n, ed_current := ?n, ed_last := ?n,
      current_line_idx := 1, total_lines := 1, ed_modified := True\<rparr>"
    have "insert_after new t ed = Inr ?ed" using True n tw ends len tot by (simp add: insert_after_def)
    moreover have "ed_at ?ed [?n] [t] 1" using True dom len n by (simp add: ed_at_def)
    moreover have "i = 0" using True assms(1) by (simp add: ed_at_def)
    ultimately show ?thesis using True by auto
  next
    case False
    obtain xs p ys ts t0 us where z: "ps = xs @ p # ys" "ls = ts @ t0 # us" "length ts = length xs" "i = Suc (length xs)"
      "ed_current ed = p" using ed_at_split [OF assms(1) False] by metis
    have parts: "dll (ed_store ed) 0 xs ts p" "ed_store ed p = Some \<lparr>line_text = t0, lnext = hd_or 0 ys, lprev = last_or 0 xs\<rparr>"
      "dll (ed_store ed) p ys us 0" "p \<noteq> 0" using dl z(1-3) by (auto simp: dll_append)
    have ls': "take i ls @ t # drop i ls = ts @ t0 # t # us" using z by simp
    note first = ed_atD(8) [OF assms(1) False]
    show ?thesis
    proof (cases ys)
      case Nil
      let ?s = "(ed_store ed)(?n \<mapsto> \<lparr>line_text = t, lnext = 0, lprev = p\<rparr>, p \<mapsto> \<lparr>line_text = t0, lnext = ?n, lprev = last_or 0 xs\<rparr>)"
      let ?ed = "ed\<lparr>ed_store := ?s, ed_last := ?n, ed_current := ?n, current_line_idx := current_line_idx ed + 1,
        total_lines := total_lines ed + 1, ed_modified := True\<rparr>"
      have "us = []" using parts(3) Nil by simp
      have "insert_after new t ed = Inr ?ed"
        using n z(1,5) parts(2,4) Nil first tw
        by (auto simp: insert_after_def upd_line_def line_at_def fun_upd_twist)
      moreover have "ed_at ?ed (xs @ p # [?n]) (ts @ t0 # t # us) (Suc i)"
        using z parts n dist dom Nil ends tot \<open>us = []\<close>
        by (auto simp: ed_at_def dll_append nth_append)
      ultimately show ?thesis using False ls' by auto
    next
      case (Cons q zs)
      then obtain tq vs where us: "us = tq # vs" and q: "q \<noteq> 0" "ed_store ed q = Some \<lparr>line_text = tq, lnext = hd_or 0 zs, lprev = p\<rparr>"
        "dll (ed_store ed) q zs vs 0" using parts(3) by auto
      let ?s = "(ed_store ed)(?n \<mapsto> \<lparr>line_text = t, lnext = q, lprev = p\<rparr>, q \<mapsto> \<lparr>line_text = tq, lnext = hd_or 0 zs, lprev = ?n\<rparr>,
        p \<mapsto> \<lparr>line_text = t0, lnext = ?n, lprev = last_or 0 xs\<rparr>)"
      let ?ed = "ed\<lparr>ed_store := ?s, ed_current := ?n, current_line_idx := current_line_idx ed + 1,
        total_lines := total_lines ed + 1, ed_modified := True\<rparr>"
      have "insert_after new t ed = Inr ?ed"
        using n z(1,5) parts(2,4) Cons first tw q dist
        by (auto simp: insert_after_def upd_line_def line_at_def fun_upd_twist)
      moreover have "ed_at ?ed (xs @ p # ?n # q # zs) (ts @ t0 # t # us) (Suc i)"
        using z parts n dist dom Cons ends tot us q by (auto simp: ed_at_def dll_append nth_append)
      ultimately show ?thesis using False ls' by auto
    qed
  qed
qed

lemma insert_before_at:
  assumes "ed_at ed ps ls i" "fresh_alloc N new" "length ls < N" "0 \<notin> set t"
  shows "\<exists>ed' ps'. insert_before new t ed = Inr ed' \<and> ed_at ed' ps' (take (i - 1) ls @ t # drop (i - 1) ls) (max i 1) \<and>
    current_line_idx ed' = (if ls = [] then 1 else current_line_idx ed) \<and> ed_modified ed' \<and> ed_trace ed' = ed_trace ed \<and>
    ed_filename ed' = ed_filename ed"
proof -
  note dl = ed_atD(1) [OF assms(1)] and dist = ed_atD(2) [OF assms(1)] and dom = ed_atD(3) [OF assms(1)]
    and ends = ed_atD(4,5) [OF assms(1)] and tot = ed_atD(6) [OF assms(1)] and len = ed_atD(7) [OF assms(1)]
  let ?n = "new (ed_store ed)"
  note n = fresh_at [OF assms(1-3)]
  note tw = make_line_fresh [of new ed, OF n(1) assms(4)]
  show ?thesis
  proof (cases "ls = []")
    case True
    let ?ed = "ed\<lparr>ed_store := (ed_store ed)(?n \<mapsto> \<lparr>line_text = t, lnext = 0, lprev = 0\<rparr>), ed_first := ?n, ed_current := ?n, ed_last := ?n,
      current_line_idx := 1, total_lines := 1, ed_modified := True\<rparr>"
    have "insert_before new t ed = Inr ?ed" using True n tw ends len tot by (simp add: insert_before_def)
    moreover have "ed_at ?ed [?n] [t] 1" using True dom len n by (simp add: ed_at_def)
    moreover have "i = 0" using True assms(1) by (simp add: ed_at_def)
    ultimately show ?thesis using True by auto
  next
    case False
    obtain xs p ys ts t0 us where z: "ps = xs @ p # ys" "ls = ts @ t0 # us" "length ts = length xs" "i = Suc (length xs)"
      "ed_current ed = p" using ed_at_split [OF assms(1) False] by metis
    have parts: "dll (ed_store ed) 0 xs ts p" "ed_store ed p = Some \<lparr>line_text = t0, lnext = hd_or 0 ys, lprev = last_or 0 xs\<rparr>"
      "dll (ed_store ed) p ys us 0" "p \<noteq> 0" using dl z(1-3) by (auto simp: dll_append)
    have ls': "take (i - 1) ls @ t # drop (i - 1) ls = ts @ t # t0 # us" using z by simp
    note first = ed_atD(8) [OF assms(1) False]
    let ?p = "\<lparr>line_text = t0, lnext = hd_or 0 ys, lprev = ?n\<rparr>"
    show ?thesis
    proof (cases xs rule: rev_cases)
      case Nil
      let ?s = "(ed_store ed)(?n \<mapsto> \<lparr>line_text = t, lnext = p, lprev = 0\<rparr>, p \<mapsto> ?p)"
      let ?ed = "ed\<lparr>ed_store := ?s, ed_first := ?n, ed_current := ?n, total_lines := total_lines ed + 1, ed_modified := True\<rparr>"
      have "insert_before new t ed = Inr ?ed"
        using n z(1,5) parts(2,4) Nil first tw by (auto simp: insert_before_def upd_line_def line_at_def fun_upd_twist)
      moreover have "ed_at ?ed (xs @ ?n # p # ys) (ts @ t # t0 # us) i"
        using z parts n dist dom Nil ends tot by (auto simp: ed_at_def dll_append nth_append)
      ultimately show ?thesis using False ls' z(4) by auto
    next
      case (snoc ws w)
      obtain ss q where ts: "ts = ss @ [q]" "length ss = length ws" using z(3) snoc by (cases ts rule: rev_cases) auto
      have w: "w \<noteq> 0" "ed_store ed w = Some \<lparr>line_text = q, lnext = p, lprev = last_or 0 ws\<rparr>" "dll (ed_store ed) 0 ws ss w"
        using parts(1) snoc ts by (auto simp: dll_append)
      let ?s = "(ed_store ed)(?n \<mapsto> \<lparr>line_text = t, lnext = p, lprev = w\<rparr>, w \<mapsto> \<lparr>line_text = q, lnext = ?n, lprev = last_or 0 ws\<rparr>, p \<mapsto> ?p)"
      let ?ed = "ed\<lparr>ed_store := ?s, ed_current := ?n, total_lines := total_lines ed + 1, ed_modified := True\<rparr>"
      have "insert_before new t ed = Inr ?ed"
        using n z(1,5) parts(2,4) snoc first tw w dist
        by (auto simp: insert_before_def upd_line_def line_at_def fun_upd_twist)
      moreover have "ed_at ?ed (xs @ ?n # p # ys) (ts @ t # t0 # us) i"
        using z parts n dist dom snoc ends tot ts w by (auto simp: ed_at_def dll_append nth_append)
      ultimately show ?thesis using False ls' z(4) by auto
    qed
  qed
qed

lemma replace_line_at:
  assumes "ed_at ed ps ls i" "ls \<noteq> []" "0 \<notin> set t"
  shows "\<exists>ed'. replace_line t ed = Inr ed' \<and> ed_at ed' ps (ls[i - 1 := t]) i \<and> current_line_idx ed' = current_line_idx ed \<and> ed_modified ed' \<and>
    ed_trace ed' = ed_trace ed @ [(0, bytes_of ''Replaced line '' @ show_int (current_line_idx ed) @ [NEWLINE])] \<and> ed_filename ed' = ed_filename ed"
proof -
  obtain xs p ys ts t0 us where z: "ps = xs @ p # ys" "ls = ts @ t0 # us" "length ts = length xs" "i = Suc (length xs)"
    "ed_current ed = p" using ed_at_split [OF assms(1,2)] by metis
  have parts: "dll (ed_store ed) 0 xs ts p" "ed_store ed p = Some \<lparr>line_text = t0, lnext = hd_or 0 ys, lprev = last_or 0 xs\<rparr>"
    "dll (ed_store ed) p ys us 0" "p \<noteq> 0" using ed_atD(1) [OF assms(1)] z(1-3) by (auto simp: dll_append)
  let ?ed = "ed_puts (bytes_of ''Replaced line '' @ show_int (current_line_idx ed) @ [NEWLINE])
    (ed\<lparr>ed_store := (ed_store ed)(p \<mapsto> \<lparr>line_text = t, lnext = hd_or 0 ys, lprev = last_or 0 xs\<rparr>), ed_modified := True\<rparr>)"
  have "replace_line t ed = Inr ?ed"
    using z(5) parts(2,4) assms(3) by (simp add: replace_line_def upd_line_def line_at_def cut_str)
  moreover have "ed_at ?ed ps (ls[i - 1 := t]) i"
    using z parts assms(1) by (auto simp: ed_at_def dll_append nth_append ed_write_def list_update_append)
  ultimately show ?thesis by (auto simp: ed_write_def)
qed

text \<open>Deleting: the cursor moves to the next line, or to the one before when there is none.\<close>

lemma delete_line_at:
  assumes "ed_at ed ps ls i" "ls \<noteq> []"
  shows "\<exists>ed' ps'. delete_line ed = Inr ed' \<and> ed_at ed' ps' (take (i - 1) ls @ drop i ls) (min i (length ls - 1)) \<and>
    current_line_idx ed' = current_line_idx ed \<and> ed_modified ed' \<and> ed_trace ed' = ed_trace ed \<and> ed_filename ed' = ed_filename ed"
proof -
  note dl = ed_atD(1) [OF assms(1)] and dist = ed_atD(2) [OF assms(1)] and dom = ed_atD(3) [OF assms(1)]
    and ends = ed_atD(4,5) [OF assms(1)] and tot = ed_atD(6) [OF assms(1)] and len = ed_atD(7) [OF assms(1)]
  obtain xs p ys ts t0 us where z: "ps = xs @ p # ys" "ls = ts @ t0 # us" "length ts = length xs" "i = Suc (length xs)"
    "ed_current ed = p" using ed_at_split [OF assms(1,2)] by metis
  have parts: "dll (ed_store ed) 0 xs ts p" "ed_store ed p = Some \<lparr>line_text = t0, lnext = hd_or 0 ys, lprev = last_or 0 xs\<rparr>"
    "dll (ed_store ed) p ys us 0" "p \<noteq> 0" using dl z(1-3) by (auto simp: dll_append)
  have ls': "take (i - 1) ls @ drop i ls = ts @ us" using z by simp
  note facts = z parts dist dom ends tot
  show ?thesis
  proof (cases xs rule: rev_cases)
    case xs: Nil
    show ?thesis
    proof (cases ys)
      case ys: Nil
      let ?ed = "ed\<lparr>ed_first := 0, ed_last := 0, ed_current := 0, ed_store := (ed_store ed)(p := None), total_lines := total_lines ed - 1, ed_modified := True\<rparr>"
      have "delete_line ed = Inr ?ed" using facts xs ys by (simp add: delete_line_def Let_def line_at_def)
      moreover have "ed_at ?ed [] [] 0" using facts xs ys by (simp add: ed_at_def)
      ultimately show ?thesis using facts xs ys ls' by auto
    next
      case (Cons q zs)
      then obtain tq vs where us: "us = tq # vs" and q: "q \<noteq> 0" "ed_store ed q = Some \<lparr>line_text = tq, lnext = hd_or 0 zs, lprev = p\<rparr>"
        "dll (ed_store ed) q zs vs 0" using parts(3) by auto
      let ?ed = "ed\<lparr>ed_first := q, ed_current := q, ed_store := (ed_store ed)(q \<mapsto> \<lparr>line_text = tq, lnext = hd_or 0 zs, lprev = 0\<rparr>, p := None),
        total_lines := total_lines ed - 1, ed_modified := True\<rparr>"
      have "delete_line ed = Inr ?ed" using facts xs Cons q by (auto simp: delete_line_def Let_def line_at_def upd_line_def)
      moreover have "ed_at ?ed (q # zs) (tq # vs) 1" using facts xs Cons q us by (auto simp: ed_at_def)
      ultimately show ?thesis using facts xs Cons us ls' by auto
    qed
  next
    case (snoc ws w)
    obtain ss r where ts: "ts = ss @ [r]" "length ss = length ws" using z(3) snoc by (cases ts rule: rev_cases) auto
    have w: "w \<noteq> 0" "ed_store ed w = Some \<lparr>line_text = r, lnext = p, lprev = last_or 0 ws\<rparr>" "dll (ed_store ed) 0 ws ss w"
      using parts(1) snoc ts by (auto simp: dll_append)
    show ?thesis
    proof (cases ys)
      case ys: Nil
      let ?ed = "ed\<lparr>ed_last := w, ed_current := w, ed_store := (ed_store ed)(w \<mapsto> \<lparr>line_text = r, lnext = 0, lprev = last_or 0 ws\<rparr>, p := None),
        total_lines := total_lines ed - 1, ed_modified := True\<rparr>"
      have "delete_line ed = Inr ?ed" using facts snoc ys w by (auto simp: delete_line_def Let_def line_at_def upd_line_def)
      moreover have "ed_at ?ed (ws @ [w]) (ss @ [r]) (Suc (length ws))"
        using facts snoc ys w ts by (auto simp: ed_at_def dll_append nth_append)
      ultimately show ?thesis using facts snoc ys ts ls' by auto
    next
      case (Cons q zs)
      then obtain tq vs where us: "us = tq # vs" and q: "q \<noteq> 0" "ed_store ed q = Some \<lparr>line_text = tq, lnext = hd_or 0 zs, lprev = p\<rparr>"
        "dll (ed_store ed) q zs vs 0" using parts(3) by auto
      let ?ed = "ed\<lparr>ed_current := q, ed_store := (ed_store ed)(w \<mapsto> \<lparr>line_text = r, lnext = q, lprev = last_or 0 ws\<rparr>,
          q \<mapsto> \<lparr>line_text = tq, lnext = hd_or 0 zs, lprev = w\<rparr>, p := None), total_lines := total_lines ed - 1, ed_modified := True\<rparr>"
      have "delete_line ed = Inr ?ed" using facts snoc Cons w q by (auto simp: delete_line_def Let_def line_at_def upd_line_def)
      moreover have "ed_at ?ed (ws @ w # q # zs) (ss @ r # tq # vs) i"
        using facts snoc Cons w ts us q by (auto simp: ed_at_def dll_append nth_append)
      ultimately show ?thesis using facts snoc Cons us ts ls' by auto
    qed
  qed
qed

lemma dll_nth:
  assumes "dll s pr ps ts nx" "j < length ps"
  shows "s (ps ! j) = Some \<lparr>line_text = ts ! j, lnext = (if Suc j < length ps then ps ! Suc j else nx), lprev = (if j = 0 then pr else ps ! (j - 1))\<rparr>"
    "ps ! j \<noteq> 0"
proof -
  have "ps = take j ps @ ps ! j # drop (Suc j) ps" "ts = take j ts @ drop j ts" using assms(2) by (simp_all add: id_take_nth_drop)
  moreover have len: "length ts = length ps" using dll_length [OF assms(1)] .
  ultimately have d: "dll s (last_or pr (take j ps)) (ps ! j # drop (Suc j) ps) (drop j ts) nx"
    using assms dll_append [of "take j ts" "take j ps" s pr "ps ! j # drop (Suc j) ps" "drop j ts" nx] by simp
  have "hd_or nx (drop (Suc j) ps) = (if Suc j < length ps then ps ! Suc j else nx)"
    by (simp add: Cons_nth_drop_Suc [symmetric])
  moreover have "last_or pr (take j ps) = (if j = 0 then pr else ps ! (j - 1))"
    using assms(2) by (auto simp: last_or_def last_conv_nth min_def)
  moreover have "drop j ts = ts ! j # drop (Suc j) ts" using assms(2) len by (simp add: Cons_nth_drop_Suc)
  ultimately show "s (ps ! j) = Some \<lparr>line_text = ts ! j, lnext = (if Suc j < length ps then ps ! Suc j else nx), lprev = (if j = 0 then pr else ps ! (j - 1))\<rparr>"
    "ps ! j \<noteq> 0" using d by auto
qed

lemma line_at_nth:
  "dll s pr ps ts nx \<Longrightarrow> j < length ps \<Longrightarrow>
    line_at s (ps ! j) = Inr \<lparr>line_text = ts ! j, lnext = (if Suc j < length ps then ps ! Suc j else nx), lprev = (if j = 0 then pr else ps ! (j - 1))\<rparr>"
  by (simp only: line_at_def dll_nth if_False option.case)

lemma walk_next: "dll s pr ps ts nx \<Longrightarrow> j + n < length ps \<Longrightarrow> walk lnext n s (ps ! j) = Inr (ps ! (j + n))"
  by (induction n arbitrary: j) (simp_all add: line_at_nth)

lemma walk_prev: "dll s pr ps ts nx \<Longrightarrow> n \<le> j \<Longrightarrow> j < length ps \<Longrightarrow> walk lprev n s (ps ! j) = Inr (ps ! (j - n))"
  by (induction n arbitrary: j) (simp_all add: line_at_nth)

lemma goto_line_at:
  assumes "ed_at ed ps ls i" "current_line_idx ed = int i" "1 \<le> k" "k \<le> length ls"
  shows "\<exists>ed'. goto_line (int k) ed = Inr ed' \<and> ed_at ed' ps ls k \<and> current_line_idx ed' = int k \<and> ed_modified ed' = ed_modified ed \<and>
    ed_trace ed' = ed_trace ed @ [(0, bytes_of ''At line '' @ show_int (int k) @ bytes_of '': '' @ ls ! (k - 1) @ [NEWLINE])] \<and>
    ed_filename ed' = ed_filename ed"
proof -
  note dl = ed_atD(1) [OF assms(1)] and tot = ed_atD(6) [OF assms(1)] and len = ed_atD(7) [OF assms(1)]
  have i: "1 \<le> i" "i \<le> length ls" "ed_current ed = ps ! (i - 1)" using assms(1,3,4) by (auto simp: ed_at_def split: if_splits)
  define ed1 where "ed1 = (if int k < tdiv (current_line_idx ed) 2 then ed\<lparr>ed_current := ed_first ed, current_line_idx := 1\<rparr> else ed)"
  obtain j where j: "1 \<le> j" "j \<le> length ls" "ed_current ed1 = ps ! (j - 1)" "current_line_idx ed1 = int j" "ed_store ed1 = ed_store ed"
  proof (cases "int k < tdiv (current_line_idx ed) 2")
    case True
    have "ed_first ed = ps ! 0" using ed_atD(4) [OF assms(1)] len i by (cases ps) auto
    then show thesis using that [of 1] True i by (simp add: ed1_def)
  next
    case False
    then show thesis using that [of i] i assms(2) by (simp add: ed1_def)
  qed
  have w1: "walk lnext (nat (int k - int j)) (ed_store ed) (ps ! (j - 1)) = Inr (ps ! (max k j - 1))"
    using walk_next [OF dl, of "j - 1" "k - j"] j len assms(3,4) by (cases "j \<le> k") (auto simp: max_def nat_diff_distrib')
  have w2: "walk lprev (nat (int j - int k)) (ed_store ed) (ps ! (max k j - 1)) = Inr (ps ! (k - 1))"
    using walk_prev [OF dl, of "j - k" "j - 1"] j len assms(3,4) by (cases "j \<le> k") (auto simp: max_def nat_diff_distrib')
  have l: "line_at (ed_store ed) (ps ! (k - 1)) = Inr \<lparr>line_text = ls ! (k - 1), lnext = (if k < length ps then ps ! k else 0), lprev = (if k - 1 = 0 then 0 else ps ! (k - 1 - 1))\<rparr>"
    using line_at_nth [OF dl, of "k - 1"] assms(3,4) len by simp
  let ?ed = "ed_puts (bytes_of ''At line '' @ show_int (int k) @ bytes_of '': '' @ ls ! (k - 1) @ [NEWLINE]) (ed1\<lparr>ed_current := ps ! (k - 1), current_line_idx := int k\<rparr>)"
  have "goto_line (int k) ed = Inr ?ed"
    using tot assms(3,4) w1 w2 l j by (simp add: goto_line_def ed1_def [symmetric] Let_def)
  moreover have "ed_at ?ed ps ls k" using assms(1,3,4) by (auto simp: ed_at_def ed_write_def ed1_def)
  ultimately show ?thesis by (auto simp: ed_write_def ed1_def)
qed

section \<open>Files\<close>

definition line_writes :: "u32 \<Rightarrow> u8 list list \<Rightarrow> (u32 \<times> u8 list) list" where
  "line_writes fd ls = concat (map (\<lambda>t. [(fd, t), (fd, [NEWLINE])]) ls)"

lemma save_loop_dll:
  "dll (ed_store ed) pr ps ls 0 \<Longrightarrow> save_loop fd (hd_or 0 ps) ed = Some (Inr (ed\<lparr>ed_trace := ed_trace ed @ line_writes fd ls\<rparr>))"
proof (induction ps arbitrary: pr ls ed)
  case Nil
  then show ?case by (subst save_loop.simps) (simp add: line_writes_def)
next
  case (Cons p ps)
  then obtain t us where t: "p \<noteq> 0" "ls = t # us" "ed_store ed p = Some \<lparr>line_text = t, lnext = hd_or 0 ps, lprev = pr\<rparr>" "dll (ed_store ed) p ps us 0"
    by auto
  have "dll (ed_store (ed_write fd [NEWLINE] (ed_write fd t ed))) p ps us 0" using t(4) by (simp add: ed_write_def)
  from Cons.IH [OF this] show ?case
    using t by (subst save_loop.simps) (simp add: line_at_def line_writes_def ed_write_def)
qed

lemma save_file_at:
  assumes "ed_at ed ps ls i" "fd = ans (length (ed_trace ed))" "\<not> fd <s 0"
  shows "save_file ans ed = Inr (ed\<lparr>ed_modified := False,
    ed_trace := ed_trace ed @ line_writes fd ls @ [(0, bytes_of ''Saved '' @ show_int (int (length ls)) @ bytes_of '' lines to '' @ ed_filename ed @ [NEWLINE])]\<rparr>)"
  using save_loop_dll [OF ed_atD(1) [OF assms(1)], of fd] ed_atD(4,6) [OF assms(1)] assms(2,3)
  by (simp add: save_file_def Let_def ed_write_def)

text \<open>While a file is loaded the current line is the first one.\<close>

lemma append_line_at:
  assumes "ed_at ed ps ls (min 1 (length ls))" "fresh_alloc N new" "length ls < N" "0 \<notin> set t"
  shows "\<exists>ed' ps'. append_line new t ed = Inr ed' \<and> ed_at ed' ps' (ls @ [t]) (min 1 (length (ls @ [t]))) \<and> ed_trace ed' = ed_trace ed \<and>
    ed_filename ed' = ed_filename ed \<and> ed_modified ed' = ed_modified ed"
proof -
  note dl = ed_atD(1) [OF assms(1)] and dist = ed_atD(2) [OF assms(1)] and dom = ed_atD(3) [OF assms(1)]
    and ends = ed_atD(4,5) [OF assms(1)] and tot = ed_atD(6) [OF assms(1)] and len = ed_atD(7) [OF assms(1)]
  let ?n = "new (ed_store ed)"
  note n = fresh_at [OF assms(1-3)]
  note tw = make_line_fresh [of new ed, OF n(1) assms(4)]
  show ?thesis
  proof (cases ps rule: rev_cases)
    case Nil
    let ?ed = "ed\<lparr>ed_store := (ed_store ed)(?n \<mapsto> \<lparr>line_text = t, lnext = 0, lprev = 0\<rparr>), ed_first := ?n, ed_current := ?n, ed_last := ?n, total_lines := 1\<rparr>"
    have "append_line new t ed = Inr ?ed" using Nil n tw ends len tot by (simp add: append_line_def)
    moreover have "ed_at ?ed [?n] [t] 1" using Nil dom len n by (simp add: ed_at_def)
    ultimately show ?thesis using Nil len by auto
  next
    case (snoc ws w)
    then obtain ss q where ls: "ls = ss @ [q]" "length ss = length ws" using len by (cases ls rule: rev_cases) auto
    have w: "w \<noteq> 0" "ed_store ed w = Some \<lparr>line_text = q, lnext = 0, lprev = last_or 0 ws\<rparr>" "dll (ed_store ed) 0 ws ss w"
      using dl snoc ls by (auto simp: dll_append)
    have first: "ed_first ed \<noteq> 0" using ed_atD(8) [OF assms(1)] ls by simp
    let ?ed = "ed\<lparr>ed_store := (ed_store ed)(?n \<mapsto> \<lparr>line_text = t, lnext = 0, lprev = w\<rparr>, w \<mapsto> \<lparr>line_text = q, lnext = ?n, lprev = last_or 0 ws\<rparr>),
      ed_last := ?n, total_lines := total_lines ed + 1\<rparr>"
    have "append_line new t ed = Inr ?ed"
      using n tw ends snoc w first dist by (auto simp: append_line_def upd_line_def line_at_def fun_upd_twist)
    moreover have "ed_at ?ed (ws @ [w, ?n]) (ss @ [q, t]) 1"
      using n assms(1) snoc ls w dist by (auto simp: ed_at_def dll_append nth_append)
    ultimately show ?thesis using ls by auto
  qed
qed

text \<open>A line that a file can hold and that fits the editor's buffer.\<close>

definition plain_line :: "u8 list \<Rightarrow> bool" where
  "plain_line t \<longleftrightarrow> 0 \<notin> set t \<and> NEWLINE \<notin> set t \<and> length t < MAX_LINE_LEN"

definition file_of :: "u8 list list \<Rightarrow> u8 list" where
  "file_of ls = concat (map (\<lambda>t. t @ [NEWLINE]) ls)"

lemma load_loop_line:
  "NEWLINE \<notin> set t \<Longrightarrow> length buffer + length t < MAX_LINE_LEN \<Longrightarrow>
    load_loop new buffer (t @ NEWLINE # rest) ed = kbind (append_line new (buffer @ t) ed) (load_loop new [] rest)"
  by (induction t arbitrary: buffer) auto

lemma load_loop_file:
  assumes "ed_at ed ps ls (min 1 (length ls))" "fresh_alloc N new" "length (ls @ ms) \<le> N" "\<forall>t \<in> set ms. plain_line t"
  shows "\<exists>ed' ps'. load_loop new [] (file_of ms) ed = Inr ([], ed') \<and> ed_at ed' ps' (ls @ ms) (min 1 (length (ls @ ms))) \<and>
    ed_trace ed' = ed_trace ed \<and> ed_filename ed' = ed_filename ed \<and> ed_modified ed' = ed_modified ed"
  using assms
proof (induction ms arbitrary: ed ps ls)
  case Nil
  then show ?case by (auto simp: file_of_def)
next
  case (Cons t ms)
  have t: "0 \<notin> set t" "NEWLINE \<notin> set t" "length t < MAX_LINE_LEN" using Cons.prems(4) by (auto simp: plain_line_def)
  have "length ls < N" using Cons.prems(3) by simp
  from append_line_at [OF Cons.prems(1,2) this t(1)] obtain ed1 ps1 where e: "append_line new t ed = Inr ed1"
    "ed_at ed1 ps1 (ls @ [t]) (min 1 (length (ls @ [t])))" "ed_trace ed1 = ed_trace ed" "ed_filename ed1 = ed_filename ed" "ed_modified ed1 = ed_modified ed"
    by blast
  have "load_loop new [] (file_of (t # ms)) ed = load_loop new [] (file_of ms) ed1"
    using load_loop_line [OF t(2), of "[]" new "file_of ms" ed] t(3) e(1) by (simp add: file_of_def)
  with Cons.IH [OF e(2) Cons.prems(2)] Cons.prems(3,4) e(3-5) show ?case by simp
qed

lemma make_editor_at: "ed_at (make_editor name) [] [] 0"
  by (simp add: ed_at_def make_editor_def)

lemma load_file_at:
  assumes "fresh_alloc N new" "length ls \<le> N" "\<forall>t \<in> set ls. plain_line t" "\<not> fd <s 0"
  shows "\<exists>ed. load_file new fd (file_of ls) (make_editor name) = Inr (True, ed) \<and> ed_shows ed ls (min 1 (length ls)) \<and> \<not> ed_modified ed \<and>
    ed_filename ed = name \<and> (\<exists>bs. ed_trace ed = [(0, bs)])"
proof -
  have "ed_at (make_editor name) [] [] (min 1 (length []))" using make_editor_at by simp
  from load_loop_file [OF this assms(1), of ls] assms(2,3) obtain ed' ps' where
    e: "load_loop new [] (file_of ls) (make_editor name) = Inr ([], ed')" "ed_at ed' ps' ls (min 1 (length ls))" "ed_trace ed' = []"
    "ed_filename ed' = name" "\<not> ed_modified ed'"
    by (auto simp: make_editor_def)
  let ?ed = "ed_puts (bytes_of ''Loaded '' @ show_int (total_lines ed') @ bytes_of '' lines from '' @ name @ [NEWLINE]) (ed'\<lparr>current_line_idx := 1\<rparr>)"
  have "load_file new fd (file_of ls) (make_editor name) = Inr (True, ?ed)"
    using assms(4) e(1,4) by (simp add: load_file_def)
  moreover have "ed_at ?ed ps' ls (min 1 (length ls))" using e(2) by (cases ls) (simp_all add: ed_at_def ed_write_def)
  then have "ed_shows ?ed ls (min 1 (length ls))" by (auto simp: ed_shows_def ed_write_def min_def Suc_le_eq)
  ultimately show ?thesis using e(3-5) by (auto simp: ed_write_def)
qed

section \<open>A session\<close>

text \<open>
  The edits that a user can make, their meaning on a list of lines with a current line, and what is typed for them. The program
  puts each line that is entered with \<^verbatim>\<open>i\<close> before the one entered last, so they end up in reverse order.
\<close>

datatype edit = After "u8 list list" | Before "u8 list list" | Replace "u8 list" | Delete | Goto nat

fun doc_edit :: "edit \<Rightarrow> u8 list list \<times> nat \<Rightarrow> u8 list list \<times> nat" where
  "doc_edit (After ts) (ls, i) = (take i ls @ ts @ drop i ls, i + length ts)"
| "doc_edit (Before ts) (ls, i) = (take (i - 1) ls @ rev ts @ drop (i - 1) ls, if ts = [] then i else max i 1)"
| "doc_edit (Replace t) (ls, i) = (ls[i - 1 := t], i)"
| "doc_edit Delete (ls, i) = (take (i - 1) ls @ drop i ls, min i (length ls - 1))"
| "doc_edit (Goto k) (ls, i) = (ls, k)"

definition typed_line :: "u8 list \<Rightarrow> bool" where
  "typed_line t \<longleftrightarrow> 0 \<notin> set t \<and> NEWLINE \<notin> set t \<and> length t < MAX_LINE_LEN - 1"

fun edit_ok :: "nat \<Rightarrow> edit \<Rightarrow> u8 list list \<times> nat \<Rightarrow> bool" where
  "edit_ok N (After ts) (ls, i) \<longleftrightarrow> (\<forall>t \<in> set ts. typed_line t \<and> t \<noteq> []) \<and> length ls + length ts \<le> N"
| "edit_ok N (Before ts) (ls, i) \<longleftrightarrow> (\<forall>t \<in> set ts. typed_line t \<and> t \<noteq> []) \<and> length ls + length ts \<le> N"
| "edit_ok N (Replace t) (ls, i) \<longleftrightarrow> typed_line t \<and> ls \<noteq> []"
| "edit_ok N Delete (ls, i) \<longleftrightarrow> i < length ls \<or> length ls = 1"
| "edit_ok N (Goto k) (ls, i) \<longleftrightarrow> 1 \<le> k \<and> k \<le> length ls \<and> k < 2147483648"

fun edits_ok :: "nat \<Rightarrow> edit list \<Rightarrow> u8 list list \<times> nat \<Rightarrow> bool" where
  "edits_ok N [] d \<longleftrightarrow> True"
| "edits_ok N (e # es) d \<longleftrightarrow> edit_ok N e d \<and> edits_ok N es (doc_edit e d)"

abbreviation entered :: "u8 list \<Rightarrow> u8 list option" where
  "entered t \<equiv> Some (t @ [NEWLINE])"

fun typed :: "edit \<Rightarrow> u8 list option list" where
  "typed (After ts) = entered (bytes_of ''a'') # map entered ts @ [entered []]"
| "typed (Before ts) = entered (bytes_of ''i'') # map entered ts @ [entered []]"
| "typed (Replace t) = [entered (bytes_of ''r''), entered t]"
| "typed Delete = [entered (bytes_of ''d'')]"
| "typed (Goto k) = [entered (bytes_of ''g '' @ itoa (of_nat k))]"

text \<open>What has been written to descriptors other than the terminal's.\<close>

definition file_out :: "editor \<Rightarrow> u8 list" where
  "file_out ed = concat (map snd (filter (\<lambda>w. fst w \<noteq> 0) (ed_trace ed)))"

lemma file_out_puts [simp]: "file_out (ed_puts bs ed) = file_out ed"
  by (simp add: file_out_def ed_write_def)

lemma read_line_entered:
  assumes "length t < MAX_LINE_LEN - 1" "length input = MAX_LINE_LEN"
  shows "read_line input (entered t) = (int (length t), t @ 0 # 0 # drop (length t + 2) input)"
  using assms by (simp add: read_line_def Let_def list_update_append nth_append)

lemma cut_app: "0 \<notin> set t \<Longrightarrow> takeWhile (\<lambda>c. c \<noteq> 0) (t @ 0 # rest) = (t :: u8 list)"
  by (induction t) auto

lemma typed_cut:
  "typed_line t \<Longrightarrow> takeWhile (\<lambda>c. c \<noteq> 0) (t @ 0 # rest) = t" "typed_line t \<Longrightarrow> takeWhile (\<lambda>c. c \<noteq> 0) t = t"
  by (simp_all add: typed_line_def cut_app cut_str)

lemma ed_shows_puts [simp]: "ed_shows (ed_write fd bs ed) ls i \<longleftrightarrow> ed_shows ed ls i"
  by (simp add: ed_shows_def ed_at_def ed_write_def)

lemma ed_write_fields [simp]: "ed_modified (ed_write fd bs ed) = ed_modified ed" "ed_filename (ed_write fd bs ed) = ed_filename ed"
  "current_line_idx (ed_write fd bs ed) = current_line_idx ed"
  by (simp_all add: ed_write_def)

lemma make_line_cut: "typed_line t \<Longrightarrow> make_line new (t @ 0 # rest) ed = make_line new t ed"
  by (simp add: make_line_def typed_cut Let_def)

lemma insert_cut:
  "typed_line t \<Longrightarrow> insert_after new (t @ 0 # rest) ed = insert_after new t ed"
  "typed_line t \<Longrightarrow> insert_before new (t @ 0 # rest) ed = insert_before new t ed"
  "typed_line t \<Longrightarrow> replace_line (t @ 0 # rest) ed = replace_line t ed"
  by (simp_all add: insert_after_def insert_before_def replace_line_def make_line_cut typed_cut)

lemma insert_after_shows:
  assumes "ed_shows ed ls i" "fresh_alloc N new" "length ls < N" "0 \<notin> set t"
  shows "\<exists>ed'. insert_after new t ed = Inr ed' \<and> ed_shows ed' (take i ls @ t # drop i ls) (Suc i) \<and> ed_filename ed' = ed_filename ed \<and> file_out ed' = file_out ed"
proof -
  obtain ps where "ed_at ed ps ls i" "ls \<noteq> [] \<longrightarrow> current_line_idx ed = int i" using assms(1) by (auto simp: ed_shows_def)
  then show ?thesis using insert_after_at [OF _ assms(2-4), of ed ps i] by (auto simp: ed_shows_def ed_at_def file_out_def split: if_splits)
qed

lemma insert_before_shows:
  assumes "ed_shows ed ls i" "fresh_alloc N new" "length ls < N" "0 \<notin> set t"
  shows "\<exists>ed'. insert_before new t ed = Inr ed' \<and> ed_shows ed' (take (i - 1) ls @ t # drop (i - 1) ls) (max i 1) \<and> ed_filename ed' = ed_filename ed \<and> file_out ed' = file_out ed"
proof -
  obtain ps where a: "ed_at ed ps ls i" "ls \<noteq> [] \<longrightarrow> current_line_idx ed = int i" using assms(1) by (auto simp: ed_shows_def)
  then obtain ed' ps' where e: "insert_before new t ed = Inr ed'" "ed_at ed' ps' (take (i - 1) ls @ t # drop (i - 1) ls) (max i 1)"
    "current_line_idx ed' = (if ls = [] then 1 else current_line_idx ed)" "ed_filename ed' = ed_filename ed" "file_out ed' = file_out ed"
    using insert_before_at [OF a(1) assms(2-4)] unfolding file_out_def by metis
  have "current_line_idx ed' = int (max i 1)" using e(3) a by (auto simp: ed_at_def max_def)
  then show ?thesis using e by (auto simp: ed_shows_def)
qed

lemma insert_loop_after:
  assumes "ed_shows ed ls i" "fresh_alloc N new" "length ls + length ts \<le> N" "\<forall>t \<in> set ts. typed_line t \<and> t \<noteq> []" "length input = MAX_LINE_LEN" "i \<le> length ls"
  shows "\<exists>ed' input'. insert_loop (insert_after new) input (map entered ts @ entered [] # rs) ed = Inr (Continue, ed', input', rs) \<and>
    ed_shows ed' (take i ls @ ts @ drop i ls) (i + length ts) \<and> length input' = MAX_LINE_LEN \<and> ed_filename ed' = ed_filename ed \<and> file_out ed' = file_out ed"
  using assms
proof (induction ts arbitrary: ed ls i input)
  case Nil
  then show ?case using read_line_entered [of "[]" input] by simp
next
  case (Cons t ts)
  have t: "typed_line t" "t \<noteq> []" "length t < MAX_LINE_LEN - 1" "0 \<notin> set t" using Cons.prems(4) by (auto simp: typed_line_def)
  let ?in = "t @ 0 # 0 # drop (length t + 2) input"
  have r: "read_line input (entered t) = (int (length t), ?in)" by (rule read_line_entered [OF t(3) Cons.prems(5)])
  obtain ed1 where e: "insert_after new t (ed_puts (bytes_of ''+ '') ed) = Inr ed1" "ed_shows ed1 (take i ls @ t # drop i ls) (Suc i)"
    "ed_filename ed1 = ed_filename ed" "file_out ed1 = file_out ed"
    using insert_after_shows [of "ed_puts (bytes_of ''+ '') ed" ls i, OF _ Cons.prems(2) _ t(4)] Cons.prems(1,3) by auto
  have "take (Suc i) (take i ls @ t # drop i ls) = take i ls @ [t]" "drop (Suc i) (take i ls @ t # drop i ls) = drop i ls"
    using Cons.prems(6) by simp_all
  moreover have "length ?in = MAX_LINE_LEN" using t(3) Cons.prems(5) by simp
  moreover have "length (take i ls @ t # drop i ls) + length ts \<le> N" "Suc i \<le> length (take i ls @ t # drop i ls)"
    using Cons.prems(3,6) by simp_all
  ultimately show ?case
    using Cons.IH [OF e(2) Cons.prems(2), of ?in] Cons.prems(4) r e(1,3,4) t(1,2) insert_cut(1) [OF t(1)] by simp
qed

lemma insert_loop_before:
  assumes "ed_shows ed ls i" "fresh_alloc N new" "length ls + length ts \<le> N" "\<forall>t \<in> set ts. typed_line t \<and> t \<noteq> []" "length input = MAX_LINE_LEN" "i \<le> length ls"
  shows "\<exists>ed' input'. insert_loop (insert_before new) input (map entered ts @ entered [] # rs) ed = Inr (Continue, ed', input', rs) \<and>
    ed_shows ed' (take (i - 1) ls @ rev ts @ drop (i - 1) ls) (if ts = [] then i else max i 1) \<and> length input' = MAX_LINE_LEN \<and> ed_filename ed' = ed_filename ed \<and> file_out ed' = file_out ed"
  using assms
proof (induction ts arbitrary: ed ls i input)
  case Nil
  then show ?case using read_line_entered [of "[]" input] by simp
next
  case (Cons t ts)
  have t: "typed_line t" "t \<noteq> []" "length t < MAX_LINE_LEN - 1" "0 \<notin> set t" using Cons.prems(4) by (auto simp: typed_line_def)
  let ?in = "t @ 0 # 0 # drop (length t + 2) input" and ?ls = "take (i - 1) ls @ t # drop (i - 1) ls"
  have r: "read_line input (entered t) = (int (length t), ?in)" by (rule read_line_entered [OF t(3) Cons.prems(5)])
  obtain ed1 where e: "insert_before new t (ed_puts (bytes_of ''+ '') ed) = Inr ed1" "ed_shows ed1 ?ls (max i 1)"
    "ed_filename ed1 = ed_filename ed" "file_out ed1 = file_out ed"
    using insert_before_shows [of "ed_puts (bytes_of ''+ '') ed" ls i, OF _ Cons.prems(2) _ t(4)] Cons.prems(1,3) by auto
  have td: "take (max i 1 - 1) ?ls = take (i - 1) ls" "drop (max i 1 - 1) ?ls = t # drop (i - 1) ls"
    using Cons.prems(6) by (cases i; simp)+
  have cond: "length ?in = MAX_LINE_LEN" "length ?ls + length ts \<le> N" "max i 1 \<le> length ?ls" "\<forall>t \<in> set ts. typed_line t \<and> t \<noteq> []"
    using t(3) Cons.prems(3-6) by auto
  obtain ed' input' where ih: "insert_loop (insert_before new) ?in (map entered ts @ entered [] # rs) ed1 = Inr (Continue, ed', input', rs)"
    "ed_shows ed' (take (max i 1 - 1) ?ls @ rev ts @ drop (max i 1 - 1) ?ls) (if ts = [] then max i 1 else max (max i 1) 1)"
    "length input' = MAX_LINE_LEN" "ed_filename ed' = ed_filename ed1" "file_out ed' = file_out ed1"
    using Cons.IH [OF e(2) Cons.prems(2) cond(2,4,1,3)] by blast
  have "insert_loop (insert_before new) input (map entered (t # ts) @ entered [] # rs) ed = Inr (Continue, ed', input', rs)"
    using ih(1) r e(1) t(1,2) insert_cut(2) [OF t(1)] by simp
  moreover have "ed_shows ed' (take (i - 1) ls @ rev (t # ts) @ drop (i - 1) ls) (max i 1)"
    using ih(2) unfolding td by (cases "ts = []") (simp_all add: max.assoc)
  ultimately show ?case using ih(3-5) e(3,4) by (intro exI [of _ ed'] exI [of _ input']) simp
qed

lemma ed_shows_le: "ed_shows ed ls i \<Longrightarrow> i \<le> length ls"
  by (auto simp: ed_shows_def ed_at_def split: if_splits)

text \<open>Reading back a number.\<close>

lemma atoi_from_digits:
  assumes "v < 48 \<or> 57 < v" "\<forall>c \<in> set ds. 48 \<le> unat c \<and> unat c \<le> 57"
  shows "atoi_from num (ds @ v # rest) = foldl (\<lambda>a c. a * 10 + of_nat (dec_value c)) num ds"
  using assms(2)
proof (induction ds arbitrary: num)
  case Nil
  then show ?case using assms(1) by auto
next
  case (Cons c ds)
  then have "48 \<le> c" "c \<le> 57" "ucast c - 48 = (of_nat (dec_value c) :: u32)"
    by (simp_all add: word_le_nat_alt dec_value_def of_nat_diff)
  then show ?case using Cons by simp
qed

lemma atoi_itoa:
  assumes "0 \<le> sint n" "v < 48 \<or> 57 < v"
  shows "atoi (itoa n @ v # rest) = n"
proof -
  have "n \<noteq> 0x80000000" using assms(1) by auto
  from number_text [OF this, of n] assms(1) obtain ds where ds: "itoa n = ds" "\<forall>c \<in> set ds. 48 \<le> unat c \<and> unat c \<le> 57"
    "int (digits_val 10 dec_value ds) = sint n" by auto
  have "atoi (itoa n @ v # rest) = of_nat (digits_val 10 dec_value ds)"
    using atoi_from_digits [OF assms(2) ds(2), of 0 rest] of_nat_foldl [of dec_value 0 ds] ds(1) by (simp add: atoi_def digits_val_def)
  also have "\<dots> = of_int (sint n)" using ds(3) by (metis of_int_of_nat_eq)
  finally show ?thesis by simp
qed

text \<open>
  C38: numbers as programs print and read them. For every number but the least integer, \<^verbatim>\<open>itoa\<close> gives its decimal text, with a minus sign
  if it is negative, and its 12-byte buffer holds the text and the NUL; for the least integer it gives the sign alone. \<^verbatim>\<open>utoa_hex\<close> gives
  the hexadecimal text of a number, and its 9-byte buffer holds it and the NUL. The editor's \<^verbatim>\<open>atoi\<close> reads the text of a number that
  is not negative back as the number, up to the first byte that is no digit.
\<close>

theorem number_roundtrip:
  "(num \<noteq> 0x80000000 \<longrightarrow> itoa num = decimal (sint num)) \<and> itoa 0x80000000 = bytes_of ''-'' \<and> length (itoa num) < 12 \<and>
   utoa_hex n = hexadecimal (unat n) \<and> length (utoa_hex n) < 9 \<and>
   (0 \<le> sint num \<and> (v < 48 \<or> 57 < v) \<longrightarrow> atoi (itoa num @ v # rest) = num)"
proof -
  have "length (itoa num) < 12"
    using number_text [of num n] itoa_least by (cases "num = 0x80000000") (auto simp: bytes_of_def)
  moreover have "length (utoa_hex n) < 9" using number_text [of 0 n] by auto
  ultimately show ?thesis using itoa_decimal [of num] utoa_hexadecimal [of n] itoa_least atoi_itoa [of num v rest] by auto
qed

theorem number_roundtrip_witness:
  "itoa (- 42) = bytes_of ''-42'' \<and> atoi (itoa 305 @ [0]) = 305 \<and> utoa_hex 255 = bytes_of ''ff''"
proof -
  have "itoa (- 42) = decimal (sint (- 42 :: u32))" using number_roundtrip [of "- 42"] by simp
  moreover have "atoi (itoa 305 @ 0 # []) = 305" using number_roundtrip [of 305 0 0 "[]"] by auto
  moreover have "utoa_hex 255 = hexadecimal (unat (255 :: u32))" using number_roundtrip [of 0 255] by simp
  ultimately show ?thesis by (simp add: decimal_def decimal_nat.simps hexadecimal.simps bytes_of_def)
qed

lemma bytes_of_letter: "bytes_of [c] = [of_char c]" "bytes_of [c, d] = [of_char c, of_char d]"
  by (simp_all add: bytes_of_def)

text \<open>The command letter is the first byte that was typed.\<close>

lemma ed_command_typed:
  assumes "length t < MAX_LINE_LEN - 1" "length input = MAX_LINE_LEN" "t \<noteq> []"
  shows "read_line input (entered t) = (int (length t), t @ 0 # 0 # drop (length t + 2) input)" "\<not> int (length t) \<le> 0"
    "(t @ rest) ! 0 = hd t" "length (t @ 0 # 0 # drop (length t + 2) input) = MAX_LINE_LEN"
  using assms read_line_entered by (auto simp: hd_conv_nth nth_append)

lemma ed_shows_at: "ed_shows ed ls i \<Longrightarrow> ls \<noteq> [] \<Longrightarrow> \<exists>ps. ed_at ed ps ls i \<and> current_line_idx ed = int i"
  by (auto simp: ed_shows_def)

lemma read_letter:
  assumes "length input = MAX_LINE_LEN"
  shows "read_line input (entered (bytes_of [c])) = (1, of_char c # 0 # 0 # drop 3 input)"
proof -
  have "length (bytes_of [c]) + 2 = 3" by (simp add: bytes_of_def)
  then show ?thesis using read_line_entered [of "bytes_of [c]" input] assms by (simp only: bytes_of_letter) simp
qed

lemma ed_command_edit:
  assumes "ed_shows ed ls i" "fresh_alloc N new" "edit_ok N e (ls, i)" "doc_edit e (ls, i) = (ls', i')" "length input = MAX_LINE_LEN"
  shows "\<exists>ed' input'. ed_command new ans input (typed e @ rs) ed = Inr (Continue, ed', input', rs) \<and> ed_shows ed' ls' i' \<and>
    length input' = MAX_LINE_LEN \<and> ed_filename ed' = ed_filename ed \<and> file_out ed' = file_out ed"
proof -
  let ?ed = "ed_puts (bytes_of ''ed> '') ed"
  have le: "i \<le> length ls" using assms(1) by (rule ed_shows_le)
  have sh: "ed_shows (ed_puts bs ed) ls i" for bs using assms(1) by simp
  show ?thesis
  proof (cases e)
    case (After ts)
    let ?in = "of_char CHR ''a'' # 0 # 0 # drop 3 input" and ?m = "ed_puts (bytes_of ''Enter lines (empty line to finish):'' @ [NEWLINE]) ?ed"
    have r: "read_line input (entered (bytes_of ''a'')) = (1, ?in)" by (rule read_letter [OF assms(5)])
    have "ed_command new ans input (typed e @ rs) ed = insert_loop (insert_after new) ?in (map entered ts @ entered [] # rs) ?m"
      using After r by (simp add: ed_command_def Let_def)
    then show ?thesis using insert_loop_after [of ?m ls i N new ts ?in rs] sh assms(2-5) le After by auto
  next
    case (Before ts)
    let ?in = "of_char CHR ''i'' # 0 # 0 # drop 3 input" and ?m = "ed_puts (bytes_of ''Enter lines (empty line to finish):'' @ [NEWLINE]) ?ed"
    have r: "read_line input (entered (bytes_of ''i'')) = (1, ?in)" by (rule read_letter [OF assms(5)])
    have "ed_command new ans input (typed e @ rs) ed = insert_loop (insert_before new) ?in (map entered ts @ entered [] # rs) ?m"
      using Before r by (simp add: ed_command_def Let_def)
    then show ?thesis using insert_loop_before [of ?m ls i N new ts ?in rs] sh assms(2-5) le Before by auto
  next
    case (Replace t)
    then have t: "typed_line t" "length t < MAX_LINE_LEN - 1" "0 \<notin> set t" "ls \<noteq> []" using assms(3) by (auto simp: typed_line_def)
    let ?in = "of_char CHR ''r'' # 0 # 0 # drop 3 input" and ?m = "ed_puts (bytes_of ''New text: '') ?ed"
    let ?in2 = "t @ 0 # 0 # drop (length t + 2) ?in"
    have r: "read_line input (entered (bytes_of ''r'')) = (1, ?in)" by (rule read_letter [OF assms(5)])
    have r2: "read_line ?in (entered t) = (int (length t), ?in2)" using assms(5) by (intro read_line_entered [OF t(2)]) simp
    obtain ps where "ed_at ?m ps ls i" "current_line_idx ?m = int i" using ed_shows_at [of ?m ls i] assms(1) t(4) by auto
    from replace_line_at [OF this(1) t(4,3)] this(2) obtain ed' where e: "replace_line t ?m = Inr ed'" "ed_at ed' ps (ls[i - 1 := t]) i"
      "current_line_idx ed' = int i" "ed_filename ed' = ed_filename ed" "file_out ed' = file_out ed" by (auto simp: file_out_def ed_write_def)
    have "ed_command new ans input (typed e @ rs) ed = Inr (Continue, ed', ?in2, rs)"
      using Replace r r2 e(1) insert_cut(3) [OF t(1)] by (simp add: ed_command_def Let_def)
    moreover have "length ?in2 = MAX_LINE_LEN" using t(2) assms(5) by simp
    ultimately show ?thesis using e(2-5) Replace assms(4) by (auto simp: ed_shows_def)
  next
    case Delete
    let ?in = "of_char CHR ''d'' # 0 # 0 # drop 3 input"
    have r: "read_line input (entered (bytes_of ''d'')) = (1, ?in)" by (rule read_letter [OF assms(5)])
    have ne: "ls \<noteq> []" and ok: "i < length ls \<or> length ls = 1" using Delete assms(3) by auto
    obtain ps where a: "ed_at ?ed ps ls i" "current_line_idx ?ed = int i" using ed_shows_at [of ?ed ls i] assms(1) ne by auto
    from delete_line_at [OF a(1) ne] a(2) obtain ed' ps' where e: "delete_line ?ed = Inr ed'"
      "ed_at ed' ps' (take (i - 1) ls @ drop i ls) (min i (length ls - 1))" "current_line_idx ed' = int i" "ed_filename ed' = ed_filename ed" "file_out ed' = file_out ed" by (auto simp: file_out_def ed_write_def)
    have "take (i - 1) ls @ drop i ls \<noteq> [] \<Longrightarrow> min i (length ls - 1) = i" using ok le by auto
    then have "ed_shows ed' (take (i - 1) ls @ drop i ls) (min i (length ls - 1))" using e(2,3) by (auto simp: ed_shows_def)
    moreover have "ed_command new ans input (typed e @ rs) ed = Inr (Continue, ed_puts (bytes_of ''Deleted current line'' @ [NEWLINE]) ed', ?in, rs)"
      using Delete r e(1) by (simp add: ed_command_def Let_def)
    ultimately show ?thesis using e(4,5) Delete assms(4,5) by auto
  next
    case (Goto k)
    then have k: "1 \<le> k" "k \<le> length ls" "k < 2147483648" using assms(3) by auto
    let ?n = "of_nat k :: u32" and ?t = "bytes_of ''g '' @ itoa (of_nat k)"
    have s: "sint ?n = int k" using sint_small [of ?n] k(3) by simp
    have "?n \<noteq> 0x80000000" using s by auto
    from number_text [OF this, of ?n] have len: "length (itoa ?n) \<le> 11" by auto
    let ?in = "?t @ 0 # 0 # drop (length ?t + 2) input"
    have r: "read_line input (entered ?t) = (int (length ?t), ?in)" using len assms(5) by (intro read_line_entered) (simp_all add: bytes_of_letter)
    have "atoi (drop 2 ?in) = ?n" using atoi_itoa [of ?n 0] s by (simp add: bytes_of_letter)
    then have t: "sint (atoi (drop 2 ?in)) = int k" using s by simp
    have ne: "ls \<noteq> []" using k(1,2) by auto
    obtain ps where a: "ed_at ?ed ps ls i" "current_line_idx ?ed = int i" using ed_shows_at [of ?ed ls i] assms(1) ne by auto
    from goto_line_at [OF a k(1,2)] obtain ed' where e: "goto_line (int k) ?ed = Inr ed'" "ed_at ed' ps ls k" "current_line_idx ed' = int k"
      "ed_filename ed' = ed_filename ed" "file_out ed' = file_out ed" by (auto simp: file_out_def ed_write_def)
    have "ed_command new ans input (typed e @ rs) ed = Inr (Continue, ed', ?in, rs)"
      using Goto r t e(1) by (simp add: ed_command_def Let_def bytes_of_letter)
    moreover have "length ?in = MAX_LINE_LEN" using len assms(5) by (simp add: bytes_of_letter)
    ultimately show ?thesis using e(2-5) Goto assms(4) by (auto simp: ed_shows_def)
  qed
qed

lemma ed_loop_edits:
  assumes "ed_shows ed ls i" "fresh_alloc N new" "edits_ok N es (ls, i)" "fold doc_edit es (ls, i) = (ls', i')" "length input = MAX_LINE_LEN"
  shows "\<exists>ed' input'. ed_loop new ans input (concat (map typed es) @ rs) ed = ed_loop new ans input' rs ed' \<and> ed_shows ed' ls' i' \<and>
    length input' = MAX_LINE_LEN \<and> file_out ed' = file_out ed"
  using assms
proof (induction es arbitrary: ed ls i input)
  case Nil
  then show ?case by auto
next
  case (Cons e es)
  obtain ls1 i1 where d: "doc_edit e (ls, i) = (ls1, i1)" by force
  have ok: "edit_ok N e (ls, i)" "edits_ok N es (ls1, i1)" "fold doc_edit es (ls1, i1) = (ls', i')" using Cons.prems(3,4) d by simp_all
  obtain ed1 input1 where c: "ed_command new ans input (typed e @ concat (map typed es) @ rs) ed = Inr (Continue, ed1, input1, concat (map typed es) @ rs)"
    "ed_shows ed1 ls1 i1" "length input1 = MAX_LINE_LEN" "file_out ed1 = file_out ed"
    using ed_command_edit [OF Cons.prems(1,2) ok(1) d Cons.prems(5)] by blast
  have "ed_loop new ans input (concat (map typed (e # es)) @ rs) ed = ed_loop new ans input1 (concat (map typed es) @ rs) ed1"
    using c(1) by (subst ed_loop.simps) simp
  with Cons.IH [OF c(2) Cons.prems(2) ok(2,3) c(3)] c(4) show ?case by simp
qed

lemma file_out_lines: "fd \<noteq> 0 \<Longrightarrow> concat (map snd (filter (\<lambda>w. fst w \<noteq> 0) (line_writes fd ls))) = file_of ls"
  by (induction ls) (simp_all add: line_writes_def file_of_def)

lemma save_and_quit:
  assumes "ed_shows ed ls i" "\<forall>n. 0 <s ans n" "length input = MAX_LINE_LEN"
  shows "\<exists>ed'. ed_loop new ans input [entered (bytes_of ''w''), entered (bytes_of ''q'')] ed = Inr (Quit, ed') \<and> file_out ed' = file_out ed @ file_of ls"
proof -
  let ?ed = "ed_puts (bytes_of ''ed> '') ed" and ?in = "of_char CHR ''w'' # 0 # 0 # drop 3 input"
  define fd where "fd = ans (length (ed_trace ?ed))"
  have "0 <s fd" using assms(2) by (simp add: fd_def)
  then have fd: "\<not> fd <s 0" "fd \<noteq> 0" by (auto simp: word_sless_alt)
  obtain ps where a: "ed_at ?ed ps ls i" using assms(1) ed_shows_puts unfolding ed_shows_def by blast
  let ?ed1 = "?ed\<lparr>ed_modified := False, ed_trace := ed_trace ?ed @ line_writes fd ls @
    [(0, bytes_of ''Saved '' @ show_int (int (length ls)) @ bytes_of '' lines to '' @ ed_filename ?ed @ [NEWLINE])]\<rparr>"
  note s = save_file_at [where ans = ans, OF a fd_def fd(1)]
  have r: "read_line input (entered (bytes_of ''w'')) = (1, ?in)" by (rule read_letter [OF assms(3)])
  have r2: "read_line ?in (entered (bytes_of ''q'')) = (1, of_char CHR ''q'' # 0 # 0 # drop 3 ?in)" using assms(3) by (intro read_letter) simp
  have "ed_command new ans input [entered (bytes_of ''w''), entered (bytes_of ''q'')] ed = Inr (Continue, ?ed1, ?in, [entered (bytes_of ''q'')])"
    using r s by (simp add: ed_command_def Let_def)
  moreover have "ed_command new ans ?in [entered (bytes_of ''q'')] ?ed1 = Inr (Quit, ed_puts (bytes_of ''ed> '') ?ed1, of_char CHR ''q'' # 0 # 0 # drop 3 ?in, [])"
    using r2 by (simp add: ed_command_def Let_def)
  ultimately have "ed_loop new ans input [entered (bytes_of ''w''), entered (bytes_of ''q'')] ed =
      Inr (Quit, ed_puts (bytes_of ''Goodbye!'' @ [NEWLINE]) (ed_puts (bytes_of ''ed> '') ?ed1))"
    by (simp add: ed_loop.simps)
  moreover have "file_out ?ed1 = file_out ed @ file_of ls" using file_out_lines [OF fd(2)] by (simp add: file_out_def ed_write_def)
  ultimately show ?thesis by simp
qed

lemma fold_puts:
  "ed_shows (fold ed_puts bs ed) ls i \<longleftrightarrow> ed_shows ed ls i" "file_out (fold ed_puts bs ed) = file_out ed"
  by (induction bs arbitrary: ed) simp_all

text \<open>
  C28: a session of the editor. Started on a file with the lines \<open>ls\<close>, the program lets the user type any sequence of
  edits (going to a line, entering lines after or before it, replacing and deleting it) that stays in memory and does not delete the last of
  several lines, and then \<^verbatim>\<open>w\<close> and \<^verbatim>\<open>q\<close>: it exits with status 0, and all that it has written
  to the file is the list of lines that the same edits make of \<open>ls\<close> as a plain list with a current line.
\<close>

theorem ed_session_correct:
  assumes "fresh_alloc N new" "length ls \<le> N" "\<forall>t \<in> set ls. plain_line t" "edits_ok N es (ls, min 1 (length ls))"
    and "fold doc_edit es (ls, min 1 (length ls)) = (ls', i')"
    and "\<not> fd <s 0" "\<forall>n. 0 <s ans n" "length input = MAX_LINE_LEN"
  shows "\<exists>ed. ed_start new ans 2 name fd (file_of ls) input
      (concat (map typed es) @ [entered (bytes_of ''w''), entered (bytes_of ''q'')]) = Inr (Some 0, ed) \<and> file_out ed = file_of ls'"
proof -
  obtain ed where ed: "load_file new fd (file_of ls) (make_editor name) = Inr (True, ed)" "ed_shows ed ls (min 1 (length ls))" "file_out ed = []"
    using load_file_at [OF assms(1-3,6), of name] by (auto simp: file_out_def)
  let ?b = "[NEWLINE # bytes_of ''Commands:'' @ [NEWLINE]] @ ed_banner @ [bytes_of ''  q         - quit'' @ [NEWLINE, NEWLINE]]"
  let ?ed = "fold ed_puts ?b ed"
  obtain ed1 input1 where e1: "ed_loop new ans input (concat (map typed es) @ [entered (bytes_of ''w''), entered (bytes_of ''q'')]) ?ed =
      ed_loop new ans input1 [entered (bytes_of ''w''), entered (bytes_of ''q'')] ed1"
    "ed_shows ed1 ls' i'" "length input1 = MAX_LINE_LEN" "file_out ed1 = []"
    using ed_loop_edits [of ?ed, OF _ assms(1,4,5,8)] ed(2,3) by (metis fold_puts)
  obtain ed' where "ed_loop new ans input1 [entered (bytes_of ''w''), entered (bytes_of ''q'')] ed1 = Inr (Quit, ed')" "file_out ed' = file_of ls'"
    using save_and_quit [OF e1(2) assms(7) e1(3)] e1(4) by auto
  then show ?thesis using ed(1) e1(1) by (simp add: ed_start_def Let_def del: fold.simps fold_append)
qed

text \<open>An allocator that gives the first free one of \<open>N\<close> addresses.\<close>

definition first_free :: "nat \<Rightarrow> ed_store \<Rightarrow> u32" where
  "first_free N s = (case find (\<lambda>p. s p = None) (map of_nat [1..<Suc N]) of None \<Rightarrow> 0 | Some p \<Rightarrow> p)"

lemma find_SomeD: "find P xs = Some x \<Longrightarrow> P x \<and> x \<in> set xs"
  by (induction xs) (auto split: if_splits)

lemma first_free_fresh:
  assumes "N < 4294967296"
  shows "fresh_alloc N (first_free N)"
  unfolding fresh_alloc_def
proof (intro allI impI)
  fix s :: ed_store
  assume c: "card (dom s) < N"
  let ?A = "of_nat ` {1..<Suc N} :: u32 set"
  have "inj_on (of_nat :: nat \<Rightarrow> u32) {1..<Suc N}" using assms by (auto intro!: inj_onI dest: arg_cong [where f = unat])
  then have "card ?A = N" by (simp add: card_image)
  then have "\<not> ?A \<subseteq> dom s" using c card_mono [of "dom s" ?A] by auto
  then obtain n where "1 \<le> n" "n \<le> N" "s (of_nat n) = None" by (auto simp: dom_def image_subset_iff) 
  moreover from this have "of_nat n \<in> set (map of_nat [1..<Suc N] :: u32 list)" by (auto simp del: upt_Suc)
  ultimately have "find (\<lambda>p. s p = None) (map of_nat [1..<Suc N]) \<noteq> None" unfolding find_None_iff by blast
  then obtain p where p: "find (\<lambda>p. s p = None) (map of_nat [1..<Suc N]) = Some p" by blast
  then have "s p = None" "p \<in> ?A" using find_SomeD [OF p] by (simp_all add: image_iff del: upt_Suc)
  moreover have "p \<noteq> 0" using \<open>p \<in> ?A\<close> assms by (auto simp: unat_of_nat32 dest!: arg_cong [where f = unat])
  ultimately show "first_free N s \<noteq> 0 \<and> first_free N s \<notin> dom s" using p by (simp add: first_free_def domIff del: upt_Suc)
qed

theorem ed_session_correct_witness:
  "\<exists>ed. ed_start (first_free 9) (\<lambda>_. 3) 2 (bytes_of ''f'') 3 (file_of [bytes_of ''a'', bytes_of ''b'']) (replicate MAX_LINE_LEN 0)
     (concat (map typed [Goto 2, After [bytes_of ''c''], Goto 1, Delete]) @ [entered (bytes_of ''w''), entered (bytes_of ''q'')]) =
     Inr (Some 0, ed) \<and> file_out ed = file_of [bytes_of ''b'', bytes_of ''c'']"
  by (rule ed_session_correct [where N = 9 and i' = 1])
    (simp_all add: first_free_fresh plain_line_def typed_line_def bytes_of_def word_sless_alt del: replicate.simps)

section \<open>Where the editor goes wrong\<close>

text \<open>
  Deleting the last line. The number of the current line is not adjusted when the last of several lines is deleted, so it is one too
  high afterwards; with two lines, deleting the second and going to the first follows a null pointer.
\<close>

theorem delete_last_line_breaks:
  assumes "ed_shows ed ls (length ls)" "1 < length ls"
  shows "\<exists>ed'. delete_line ed = Inr ed' \<and> total_lines ed' = int (length ls) - 1 \<and> current_line_idx ed' = int (length ls) \<and>
    (length ls = 2 \<longrightarrow> goto_line 1 ed' = Inl NullDeref)"
proof -
  have ne: "ls \<noteq> []" using assms(2) by auto
  obtain ps where a: "ed_at ed ps ls (length ls)" "current_line_idx ed = int (length ls)" using ed_shows_at [OF assms(1) ne] by blast
  obtain ed' ps' where e: "delete_line ed = Inr ed'" "ed_at ed' ps' (take (length ls - 1) ls @ drop (length ls) ls) (min (length ls) (length ls - 1))"
    "current_line_idx ed' = int (length ls)" using delete_line_at [OF a(1) ne] a(2) by auto
  note at = e(2) [simplified]
  have tot: "total_lines ed' = int (length ls) - 1" using ed_atD(6) [OF at] assms(2) by simp
  have "goto_line 1 ed' = Inl NullDeref" if "length ls = 2"
  proof -
    have "length ps' = 1" using ed_atD(7) [OF at] that by simp
    then have "walk lprev 1 (ed_store ed') (ed_current ed') = Inr 0"
      using line_at_nth [OF ed_atD(1) [OF at], of 0] at that ne by (auto simp: ed_at_def)
    moreover have "tdiv 2 2 = 1" by (simp add: tdiv_def)
    ultimately show ?thesis using tot e(3) that by (simp add: goto_line_def Let_def line_at_def)
  qed
  then show ?thesis using e(1,3) tot by blast
qed

lemma current_line_idx_upd: "current_line_idx (ed\<lparr>current_line_idx := k, total_lines := n\<rparr>) = k"
  by simp

theorem delete_last_line_breaks_witness:
  "\<exists>ed ed'. delete_line ed = Inr ed' \<and> goto_line 1 ed' = Inl NullDeref"
proof -
  let ?s = "[16 \<mapsto> \<lparr>line_text = [97], lnext = 32, lprev = 0\<rparr>, 32 \<mapsto> \<lparr>line_text = [98], lnext = 0, lprev = 16\<rparr>]"
  let ?ed = "(make_editor [])\<lparr>ed_store := ?s, ed_first := 16, ed_current := 32, ed_last := 32, current_line_idx := 2, total_lines := 2\<rparr>"
  have "ed_at ?ed [16, 32] [[97], [98]] 2" by (auto simp: ed_at_def make_editor_def)
  moreover have "length [[97], [98]] = 2" by simp
  ultimately have "ed_shows ?ed [[97], [98]] (length [[97], [98]])" unfolding ed_shows_def by (metis current_line_idx_upd of_nat_numeral)
  from delete_last_line_breaks [OF this] show ?thesis by auto
qed

text \<open>A line of 256 bytes loses its last byte when it is loaded.\<close>

lemma load_loop_long:
  assumes "NEWLINE \<notin> set t" "length t = MAX_LINE_LEN - 1" "c \<noteq> NEWLINE"
  shows "load_loop new [] (t @ c # rest) ed = kbind (append_line new t ed) (load_loop new [] rest)"
proof -
  have "load_loop new b (t @ c # rest) ed = kbind (append_line new (b @ t) ed) (load_loop new [] rest)"
    if "NEWLINE \<notin> set t" "length b + length t = MAX_LINE_LEN - 1" for b t
    using that by (induction t arbitrary: b) auto
  from this [of t "[]"] show ?thesis using assms by simp
qed

end
