(* ===== verification/Lisp.thy ===== *)
theory Lisp
  imports UPrintf
begin

text \<open>
  The Lisp interpreter, \<^verbatim>\<open>user/src/lisp.c\<close>. Values are never changed once they are made, so they are a datatype; environments are
  changed by \<^verbatim>\<open>define\<close> and shared by closures, so they are a list of records that a closure refers to by its index. Memory does not run
  out in this model. The program reads the fields of a value without looking at its type; a read of a field that the value does not have is
  the error \<open>OutOfBounds\<close>. A string is the list of its bytes before the NUL. Reading and evaluating recurse without a bound, so
  both take the depth of recursion that is available: running out is \<open>None\<close> for the reader and \<open>Hang\<close> for the evaluator. What is
  printed is a list of bytes. Sums, differences and products of the builtins are 32-bit words that wrap around; in C the overflow of a signed
  number is undefined, and wrap-around is what the compiled program does with it.
\<close>

abbreviation MAX_SYMBOL_LEN :: nat where "MAX_SYMBOL_LEN \<equiv> 64"
abbreviation MAX_ENV_SIZE :: nat where "MAX_ENV_SIZE \<equiv> 256"

section \<open>Definitions\<close>

datatype lisp_val = LISP_INT u32 | LISP_SYMBOL "u8 list" | LISP_CONS lisp_val lisp_val | LISP_FUNC lisp_val lisp_val nat | LISP_NIL

record lisp_env =
  env_entries :: "(u8 list \<times> lisp_val) list"
  env_parent :: "nat option"

definition make_symbol :: "u8 list \<Rightarrow> lisp_val" where
  "make_symbol s = LISP_SYMBOL (take (MAX_SYMBOL_LEN - 1) s)"

fun car :: "lisp_val \<Rightarrow> lisp_val kres" where
  "car (LISP_CONS a d) = Inr a"
| "car v = Inl OutOfBounds"

fun cdr :: "lisp_val \<Rightarrow> lisp_val kres" where
  "cdr (LISP_CONS a d) = Inr d"
| "cdr v = Inl OutOfBounds"

fun num :: "lisp_val \<Rightarrow> u32 kres" where
  "num (LISP_INT n) = Inr n"
| "num v = Inl OutOfBounds"

fun symbol :: "lisp_val \<Rightarrow> u8 list kres" where
  "symbol (LISP_SYMBOL s) = Inr s"
| "symbol v = Inl OutOfBounds"

fun streq :: "u8 list \<Rightarrow> u8 list \<Rightarrow> bool" where
  "streq (a # as) (b # bs) \<longleftrightarrow> a = b \<and> streq as bs"
| "streq [] [] \<longleftrightarrow> True"
| "streq as bs \<longleftrightarrow> False"

definition isdigit :: "u8 \<Rightarrow> bool" where
  "isdigit c \<longleftrightarrow> 48 \<le> c \<and> c \<le> 57"

definition isspace :: "u8 \<Rightarrow> bool" where
  "isspace c \<longleftrightarrow> c = 32 \<or> c = 9 \<or> c = 10 \<or> c = 13"

subsection \<open>Environments\<close>

definition make_env :: "nat option \<Rightarrow> lisp_env list \<Rightarrow> nat \<times> lisp_env list" where
  "make_env p es = (length es, es @ [\<lparr>env_entries = [], env_parent = p\<rparr>])"

fun set_entry :: "u8 list \<Rightarrow> lisp_val \<Rightarrow> (u8 list \<times> lisp_val) list \<Rightarrow> (u8 list \<times> lisp_val) list option" where
  "set_entry s v [] = None"
| "set_entry s v ((k, w) # xs) = (if streq k s then Some ((k, v) # xs) else map_option (Cons (k, w)) (set_entry s v xs))"

definition env_set :: "nat \<Rightarrow> u8 list \<Rightarrow> lisp_val \<Rightarrow> lisp_env list \<Rightarrow> lisp_env list kres" where
  "env_set e s v es =
     kbind (kget es e) (\<lambda>x.
       Inr (case set_entry s v (env_entries x) of
              Some xs \<Rightarrow> es[e := x\<lparr>env_entries := xs\<rparr>]
            | None \<Rightarrow>
                if length (env_entries x) < MAX_ENV_SIZE then
                  es[e := x\<lparr>env_entries := env_entries x @ [(take (MAX_SYMBOL_LEN - 1) s, v)]\<rparr>]
                else es))"

fun get_entry :: "u8 list \<Rightarrow> (u8 list \<times> lisp_val) list \<Rightarrow> lisp_val option" where
  "get_entry s [] = None"
| "get_entry s ((k, w) # xs) = (if streq k s then Some w else get_entry s xs)"

fun env_get :: "nat \<Rightarrow> nat \<Rightarrow> u8 list \<Rightarrow> lisp_env list \<Rightarrow> lisp_val kres" where
  "env_get 0 e s es = Inl Hang"
| "env_get (Suc n) e s es =
     kbind (kget es e) (\<lambda>x.
       case get_entry s (env_entries x) of
         Some v \<Rightarrow> Inr v
       | None \<Rightarrow> (case env_parent x of Some p \<Rightarrow> env_get n p s es | None \<Rightarrow> Inr LISP_NIL))"

subsection \<open>Reader\<close>

definition skip_whitespace :: "u8 list \<Rightarrow> u8 list" where
  "skip_whitespace s = dropWhile isspace s"

fun read_digits :: "u32 \<Rightarrow> u8 list \<Rightarrow> u32 \<times> u8 list" where
  "read_digits n [] = (n, [])"
| "read_digits n (c # cs) = (if isdigit c then read_digits (n * 10 + (ucast c - 48)) cs else (n, c # cs))"

fun read_symbol :: "u8 list \<Rightarrow> u8 list \<Rightarrow> u8 list \<times> u8 list" where
  "read_symbol buf [] = (buf, [])"
| "read_symbol buf (c # cs) =
     (if \<not> isspace c \<and> c \<noteq> 40 \<and> c \<noteq> 41 \<and> length buf < MAX_SYMBOL_LEN - 1 then read_symbol (buf @ [c]) cs else (buf, c # cs))"

definition read_atom :: "u8 list \<Rightarrow> lisp_val \<times> u8 list" where
  "read_atom s =
     (if s \<noteq> [] \<and> (hd s = 96 \<or> isdigit (hd s)) then
        let neg = (hd s = 96); s = (if neg then tl s else s); (n, s) = read_digits 0 s
        in (LISP_INT (if neg then - n else n), s)
      else let (buf, s) = read_symbol [] s in (make_symbol buf, s))"

fun parse_expr :: "nat \<Rightarrow> u8 list \<Rightarrow> (lisp_val \<times> u8 list) option"
  and parse_list :: "nat \<Rightarrow> u8 list \<Rightarrow> (lisp_val \<times> u8 list) option" where
  "parse_expr 0 s = None"
| "parse_expr (Suc n) s =
     (let s = skip_whitespace s in if s \<noteq> [] \<and> hd s = 40 then parse_list n (tl s) else Some (read_atom s))"
| "parse_list 0 s = None"
| "parse_list (Suc n) s =
     (let s = skip_whitespace s
      in if s \<noteq> [] \<and> hd s = 41 then Some (LISP_NIL, tl s)
         else
           Option.bind (parse_expr n s) (\<lambda>(a, s).
           Option.bind (parse_list n s) (\<lambda>(d, s). Some (LISP_CONS a d, s))))"

subsection \<open>Evaluator\<close>

fun list_length :: "lisp_val \<Rightarrow> nat" where
  "list_length (LISP_CONS a d) = Suc (list_length d)"
| "list_length v = 0"

fun add_loop :: "u32 \<Rightarrow> lisp_val \<Rightarrow> u32" where
  "add_loop r (LISP_CONS a d) = add_loop (case a of LISP_INT n \<Rightarrow> r + n | _ \<Rightarrow> r) d"
| "add_loop r v = r"

fun sub_loop :: "u32 \<Rightarrow> lisp_val \<Rightarrow> u32" where
  "sub_loop r (LISP_CONS a d) = sub_loop (case a of LISP_INT n \<Rightarrow> r - n | _ \<Rightarrow> r) d"
| "sub_loop r v = r"

fun mul_loop :: "u32 \<Rightarrow> lisp_val \<Rightarrow> u32" where
  "mul_loop r (LISP_CONS a d) = mul_loop (case a of LISP_INT n \<Rightarrow> r * n | _ \<Rightarrow> r) d"
| "mul_loop r v = r"

text \<open>Signed division rounds towards zero; the one quotient that does not fit traps.\<close>

definition idiv :: "u32 \<Rightarrow> u32 \<Rightarrow> u32 kres" where
  "idiv a b = (if a = 0x80000000 \<and> b = - 1 then Inl Panic
     else Inr (of_int (if sint b < 0 then - tdiv (sint a) (- sint b) else tdiv (sint a) (sint b))))"

fun div_loop :: "u32 \<Rightarrow> lisp_val \<Rightarrow> u32 kres" where
  "div_loop r (LISP_CONS a d) = kbind (case a of LISP_INT n \<Rightarrow> if n \<noteq> 0 then idiv r n else Inr r | _ \<Rightarrow> Inr r) (\<lambda>r. div_loop r d)"
| "div_loop r v = Inr r"

definition builtin_add :: "lisp_val \<Rightarrow> lisp_val" where
  "builtin_add args = LISP_INT (add_loop 0 args)"

definition builtin_mul :: "lisp_val \<Rightarrow> lisp_val" where
  "builtin_mul args = LISP_INT (mul_loop 1 args)"

definition builtin_sub :: "lisp_val \<Rightarrow> lisp_val kres" where
  "builtin_sub args =
     (case args of LISP_CONS a d \<Rightarrow> kbind (num a) (\<lambda>r. Inr (LISP_INT (sub_loop r d))) | _ \<Rightarrow> Inr (LISP_INT 0))"

definition builtin_div :: "lisp_val \<Rightarrow> lisp_val kres" where
  "builtin_div args =
     (case args of LISP_CONS a d \<Rightarrow> kbind (num a) (\<lambda>r. kbind (div_loop r d) (\<lambda>r. Inr (LISP_INT r))) | _ \<Rightarrow> Inr (LISP_INT 0))"

fun bind_params :: "nat \<Rightarrow> lisp_val \<Rightarrow> lisp_val \<Rightarrow> lisp_env list \<Rightarrow> lisp_env list kres" where
  "bind_params e (LISP_CONS p ps) (LISP_CONS v vs) es = kbind (symbol p) (\<lambda>s. kbind (env_set e s v es) (bind_params e ps vs))"
| "bind_params e ps vs es = Inr es"

definition is_form :: "string \<Rightarrow> lisp_val \<Rightarrow> bool" where
  "is_form name v = (case v of LISP_SYMBOL s \<Rightarrow> streq s (bytes_of name) | _ \<Rightarrow> False)"

fun eval :: "nat \<Rightarrow> lisp_val \<Rightarrow> nat \<Rightarrow> lisp_env list \<Rightarrow> (lisp_val \<times> lisp_env list) kres"
  and eval_list :: "nat \<Rightarrow> lisp_val \<Rightarrow> nat \<Rightarrow> lisp_env list \<Rightarrow> (lisp_val \<times> lisp_env list) kres" where
  "eval 0 v e es = Inl Hang"
| "eval (Suc n) (LISP_INT k) e es = Inr (LISP_INT k, es)"
| "eval (Suc n) (LISP_SYMBOL s) e es = kbind (env_get n e s es) (\<lambda>v. Inr (v, es))"
| "eval (Suc n) LISP_NIL e es = Inr (LISP_NIL, es)"
| "eval (Suc n) (LISP_FUNC p b c) e es = Inr (LISP_NIL, es)"
| "eval (Suc n) (LISP_CONS op args) e es =
     (if is_form ''define'' op then
        kbind (car args) (\<lambda>sym.
        kbind (cdr args) (\<lambda>r. kbind (car r) (\<lambda>x.
        kbind (eval n x e es) (\<lambda>(val, es).
        kbind (symbol sym) (\<lambda>s.
        kbind (env_set e s val es) (\<lambda>es. Inr (val, es)))))))
      else if is_form ''lambda'' op then
        kbind (car args) (\<lambda>params. kbind (cdr args) (\<lambda>r. kbind (car r) (\<lambda>body. Inr (LISP_FUNC params body e, es))))
      else
        kbind (eval n op e es) (\<lambda>(func, es).
          case func of
            LISP_SYMBOL s \<Rightarrow>
              kbind (eval_list n args e es) (\<lambda>(vs, es).
                if streq s (bytes_of ''+'') then Inr (builtin_add vs, es)
                else if streq s (bytes_of ''-'') then kbind (builtin_sub vs) (\<lambda>v. Inr (v, es))
                else if streq s (bytes_of ''*'') then Inr (builtin_mul vs, es)
                else if streq s (bytes_of ''/'') then kbind (builtin_div vs) (\<lambda>v. Inr (v, es))
                else Inr (LISP_NIL, es))
          | LISP_FUNC params body closure \<Rightarrow>
              let (new_env, es) = make_env (Some closure) es
              in kbind (eval_list n args e es) (\<lambda>(vs, es).
                 kbind (bind_params new_env params vs es) (\<lambda>es. eval n body new_env es))
          | _ \<Rightarrow> Inr (LISP_NIL, es)))"
| "eval_list 0 v e es = Inl Hang"
| "eval_list (Suc n) args e es =
     (if args = LISP_NIL then Inr (LISP_NIL, es)
      else
        kbind (car args) (\<lambda>x. kbind (eval n x e es) (\<lambda>(a, es).
        kbind (cdr args) (\<lambda>r. kbind (eval_list n r e es) (\<lambda>(d, es). Inr (LISP_CONS a d, es))))))"

subsection \<open>Printer and main loop\<close>

fun print_val :: "lisp_val \<Rightarrow> u8 list" and print_tail :: "lisp_val \<Rightarrow> u8 list" where
  "print_val (LISP_INT n) = itoa n"
| "print_val (LISP_SYMBOL s) = s"
| "print_val LISP_NIL = bytes_of ''nil''"
| "print_val (LISP_CONS a d) = bytes_of ''('' @ print_val a @ print_tail d"
| "print_val (LISP_FUNC p b c) = bytes_of ''<function>''"
| "print_tail (LISP_CONS a d) = bytes_of '' '' @ print_val a @ print_tail d"
| "print_tail LISP_NIL = bytes_of '')''"
| "print_tail (LISP_INT n) = bytes_of '' . '' @ itoa n @ bytes_of '')''"
| "print_tail (LISP_SYMBOL s) = bytes_of '' . '' @ s @ bytes_of '')''"
| "print_tail (LISP_FUNC p b c) = bytes_of '' . '' @ bytes_of ''<function>'' @ bytes_of '')''"

definition global_env :: "lisp_env list kres" where
  "global_env =
     (let (g, es) = make_env None []
      in kfold (\<lambda>s es. env_set g (bytes_of s) (make_symbol (bytes_of s)) es) [''+'', ''-'', ''*'', ''/''] es)"

text \<open>
  One line of input: \<open>None\<close> when the read fails, and otherwise the bytes that were read, at most 255. The result is the output and the
  environments, or nothing when the program is told to exit.
\<close>

definition input_line :: "u8 list \<Rightarrow> u8 list" where
  "input_line bs = takeWhile (\<lambda>c. c \<noteq> 10 \<and> c \<noteq> 0) (take 255 bs)"

definition repl_step :: "nat \<Rightarrow> u8 list option \<Rightarrow> lisp_env list \<Rightarrow> (u8 list \<times> lisp_env list) option kres" where
  "repl_step n r es =
     (case r of
        None \<Rightarrow> Inr (Some ([], es))
      | Some bs \<Rightarrow>
          if bs = [] then Inr (Some ([], es))
          else if streq (input_line bs) (bytes_of ''exit'') then Inr None
          else
            kbind (kwait (parse_expr n (input_line bs))) (\<lambda>(x, rest).
            kbind (eval n x 0 es) (\<lambda>(v, es). Inr (Some (print_val v @ [10], es)))))"

fun repl :: "nat \<Rightarrow> u8 list option list \<Rightarrow> lisp_env list \<Rightarrow> u8 list \<Rightarrow> (bool \<times> u8 list) kres" where
  "repl n [] es out = Inr (False, out @ bytes_of ''lisp> '')"
| "repl n (r # rs) es out =
     kbind (repl_step n r es) (\<lambda>x.
       case x of
         None \<Rightarrow> Inr (True, out @ bytes_of ''lisp> '')
       | Some (bs, es) \<Rightarrow> repl n rs es (out @ bytes_of ''lisp> '' @ bs))"

definition lisp_banner :: "u8 list" where
  "lisp_banner = concat (map (\<lambda>s. bytes_of s @ [10])
     [''Simple Lisp Interpreter'', ''Examples:'', ''  (+ 1 2 3)'', ''  (define x 10)'', ''  (define square (lambda (n) (* n n)))'', ''  (square 5)'', []])"

definition lisp_start :: "nat \<Rightarrow> u8 list option list \<Rightarrow> (bool \<times> u8 list) kres" where
  "lisp_start n rs = kbind global_env (\<lambda>es. repl n rs es lisp_banner)"

section \<open>Reading what was printed\<close>

lemma streq_eq: "streq a b \<longleftrightarrow> a = b"
  by (induction a b rule: streq.induct) auto

definition symchar :: "u8 \<Rightarrow> bool" where
  "symchar c \<longleftrightarrow> \<not> isspace c \<and> c \<noteq> 40 \<and> c \<noteq> 41"

text \<open>The next byte ends a word.\<close>

definition delim :: "u8 list \<Rightarrow> bool" where
  "delim s \<longleftrightarrow> s = [] \<or> isspace (hd s) \<or> hd s = 40 \<or> hd s = 41"

fun readable :: "lisp_val \<Rightarrow> bool" and readable_tail :: "lisp_val \<Rightarrow> bool" where
  "readable (LISP_INT n) \<longleftrightarrow> 0 \<le> sint n"
| "readable (LISP_SYMBOL s) \<longleftrightarrow> s \<noteq> [] \<and> length s < MAX_SYMBOL_LEN \<and> list_all symchar s \<and> hd s \<noteq> 96 \<and> \<not> isdigit (hd s)"
| "readable (LISP_CONS a d) \<longleftrightarrow> readable a \<and> readable_tail d"
| "readable LISP_NIL \<longleftrightarrow> False"
| "readable (LISP_FUNC p b c) \<longleftrightarrow> False"
| "readable_tail (LISP_CONS a d) \<longleftrightarrow> readable a \<and> readable_tail d"
| "readable_tail LISP_NIL \<longleftrightarrow> True"
| "readable_tail v \<longleftrightarrow> False"

text \<open>The depth of recursion that reading takes.\<close>

fun depth :: "lisp_val \<Rightarrow> nat" and depth_tail :: "lisp_val \<Rightarrow> nat" where
  "depth (LISP_CONS a d) = Suc (Suc (max (depth a) (depth_tail d)))"
| "depth v = 1"
| "depth_tail (LISP_CONS a d) = Suc (max (depth a) (depth_tail d))"
| "depth_tail v = 1"

lemma read_symbol_word:
  "list_all symchar s \<Longrightarrow> delim rest \<Longrightarrow> length buf + length s < MAX_SYMBOL_LEN \<Longrightarrow> read_symbol buf (s @ rest) = (buf @ s, rest)"
proof (induction s arbitrary: buf)
  case Nil
  then show ?case by (cases rest) (auto simp: delim_def)
qed (auto simp: symchar_def)

lemma delim_not_digit: "delim (c # cs) \<Longrightarrow> \<not> isdigit c"
  by (auto simp: delim_def isspace_def isdigit_def)

lemma read_digits_word:
  "\<forall>c \<in> set ds. isdigit c \<Longrightarrow> delim rest \<Longrightarrow>
    read_digits n (ds @ rest) = (foldl (\<lambda>a c. a * 10 + of_nat (dec_value c)) n ds, rest)"
proof (induction ds arbitrary: n)
  case Nil
  then show ?case using delim_not_digit by (cases rest) auto
next
  case (Cons c ds)
  then have "ucast c - 48 = (of_nat (dec_value c) :: u32)"
    by (simp add: isdigit_def word_le_nat_alt dec_value_def of_nat_diff)
  then show ?case using Cons by simp
qed

lemma itoa_digits:
  assumes "0 \<le> sint n"
  shows "itoa n \<noteq> []" "\<forall>c \<in> set (itoa n). isdigit c" "of_nat (digits_val 10 dec_value (itoa n)) = n"
proof -
  have "n \<noteq> 0x80000000" using assms by auto
  from number_text [OF this, of n] assms obtain ds where ds: "itoa n = ds" "ds \<noteq> []" "\<forall>c \<in> set ds. 48 \<le> unat c \<and> unat c \<le> 57"
    "int (digits_val 10 dec_value ds) = sint n" by auto
  then show "itoa n \<noteq> []" "\<forall>c \<in> set (itoa n). isdigit c" by (auto simp: isdigit_def word_le_nat_alt)
  have "of_nat (digits_val 10 dec_value ds) = (of_int (sint n) :: u32)" using ds(4) by (metis of_int_of_nat_eq)
  then show "of_nat (digits_val 10 dec_value (itoa n)) = n" using ds(1) by simp
qed

lemma itoa_first: "0 \<le> sint n \<Longrightarrow> itoa n \<noteq> [] \<and> isdigit (hd (itoa n))"
  using itoa_digits by simp

lemma read_atom_int:
  assumes "0 \<le> sint n" "delim rest"
  shows "read_atom (itoa n @ rest) = (LISP_INT n, rest)"
proof -
  note d = itoa_digits [OF assms(1)]
  have h: "hd (itoa n @ rest) = hd (itoa n)" "isdigit (hd (itoa n))" "hd (itoa n) \<noteq> 96" using d(1) itoa_first [OF assms(1)] by (auto simp: isdigit_def)
  have "read_digits 0 (itoa n @ rest) = (n, rest)"
    using read_digits_word [OF d(2) assms(2), of 0] of_nat_foldl [of dec_value 0 "itoa n"] d(3) by (simp add: digits_val_def)
  then show ?thesis using h d(1) by (simp add: read_atom_def)
qed

lemma read_atom_symbol:
  assumes "readable (LISP_SYMBOL s)" "delim rest"
  shows "read_atom (s @ rest) = (LISP_SYMBOL s, rest)"
  using assms read_symbol_word [of s rest "[]"] by (auto simp: read_atom_def make_symbol_def)

definition starts :: "u8 list \<Rightarrow> bool" where
  "starts s \<longleftrightarrow> s \<noteq> [] \<and> \<not> isspace (hd s) \<and> hd s \<noteq> 41"

lemma starts_print: "readable v \<Longrightarrow> starts (print_val v @ rest)"
proof (cases v)
  case (LISP_INT n)
  assume "readable v"
  then have n: "0 \<le> sint n" using LISP_INT by simp
  have "isdigit (hd (itoa n))" using itoa_digits(1,2) [OF n] by simp
  then have "\<not> isspace (hd (itoa n)) \<and> hd (itoa n) \<noteq> 41" by (auto simp: isdigit_def isspace_def)
  then show ?thesis using LISP_INT itoa_digits(1) [OF n] by (simp add: starts_def)
next
  case (LISP_SYMBOL s)
  assume "readable v"
  then show ?thesis using LISP_SYMBOL by (cases s) (auto simp: starts_def symchar_def)
qed (auto simp: starts_def isspace_def bytes_of_def)

lemma skip_starts: "starts s \<Longrightarrow> skip_whitespace s = s"
  by (cases s) (auto simp: starts_def skip_whitespace_def)

lemma delim_tail: "readable_tail d \<Longrightarrow> delim (print_tail d @ rest)"
  by (cases d) (auto simp: delim_def isspace_def bytes_of_def)

text \<open>The lists are read by \<^verbatim>\<open>parse_list\<close>, the rest of a list after its first element as well.\<close>

lemma read_back:
  "readable v \<Longrightarrow> depth v \<le> n \<Longrightarrow> delim rest \<Longrightarrow> parse_expr n (print_val v @ rest) = Some (v, rest)"
  "readable_tail d \<Longrightarrow> depth_tail d \<le> n \<Longrightarrow> parse_list n (print_tail d @ rest) = Some (d, rest)"
proof (induction v and d arbitrary: n rest and n rest rule: print_val_print_tail.induct)
  case (1 k)
  then obtain m where "n = Suc m" by (cases n) auto
  moreover have "\<not> (itoa k @ rest \<noteq> [] \<and> hd (itoa k @ rest) = 40)"
    using itoa_first [of k] 1 by (auto simp: isdigit_def hd_append)
  ultimately show ?case using 1 read_atom_int [of k rest] skip_starts [OF starts_print [OF 1(1), of rest]] by (auto simp: Let_def)
next
  case (2 s)
  then obtain m where "n = Suc m" by (cases n) auto
  moreover have "hd (s @ rest) \<noteq> 40" using 2 by (cases s) (auto simp: symchar_def)
  ultimately show ?case using 2 read_atom_symbol [OF 2(1,3)] skip_starts [OF starts_print [OF 2(1), of rest]] by (auto simp: Let_def)
next
  case (4 a d)
  then obtain m where m: "n = Suc (Suc m)" "depth a \<le> m" "depth_tail d \<le> m" by (cases n; cases "n - 1") auto
  have r: "readable a" "readable_tail d" using 4 by simp_all
  let ?s = "print_val a @ print_tail d @ rest"
  have s: "skip_whitespace ?s = ?s" "starts ?s" using skip_starts starts_print [OF r(1), of "print_tail d @ rest"] by auto
  have "skip_whitespace (40 # ?s) = 40 # ?s" by (rule skip_starts) (simp add: starts_def isspace_def)
  moreover have "parse_expr m ?s = Some (a, print_tail d @ rest)" using 4(1) [OF r(1) m(2) delim_tail [OF r(2)]] .
  moreover have "parse_list m (print_tail d @ rest) = Some (d, rest)" using 4(2) [OF r(2) m(3)] .
  ultimately show ?case using m(1) s by (simp add: bytes_of_def Let_def starts_def)
next
  case (6 a d)
  then obtain m where m: "n = Suc m" "depth a \<le> m" "depth_tail d \<le> m" by (cases n) auto
  have r: "readable a" "readable_tail d" using 6 by simp_all
  let ?s = "print_val a @ print_tail d @ rest"
  have s: "skip_whitespace ?s = ?s" "starts ?s" using skip_starts starts_print [OF r(1), of "print_tail d @ rest"] by auto
  have "skip_whitespace (32 # ?s) = ?s" using s(1) by (simp add: skip_whitespace_def isspace_def)
  moreover have "parse_expr m ?s = Some (a, print_tail d @ rest)" using 6(1) [OF r(1) m(2) delim_tail [OF r(2)]] .
  moreover have "parse_list m (print_tail d @ rest) = Some (d, rest)" using 6(2) [OF r(2) m(3)] .
  ultimately show ?case using m(1) s(2) by (simp add: bytes_of_def Let_def starts_def)
next
  case 7
  then obtain m where "n = Suc m" by (cases n) auto
  then show ?case using skip_starts by (simp add: bytes_of_def Let_def skip_whitespace_def isspace_def)
qed simp_all

text \<open>
  C32: reading back. The text printed for a value made of integers that are not negative, symbols that fit and are written without
  spaces, parentheses, a leading digit or backquote, and non-empty lists of such values, read with enough depth, gives the value back and leaves the
  text that follows it.
\<close>

theorem lisp_read_print_roundtrip:
  assumes "readable v" "depth v \<le> n" "delim rest"
  shows "parse_expr n (print_val v @ rest) = Some (v, rest)"
  using assms by (rule read_back(1))

theorem lisp_read_print_roundtrip_witness:
  "parse_expr 4 (bytes_of ''(add 12)'' @ [32]) = Some (LISP_CONS (LISP_SYMBOL (bytes_of ''add'')) (LISP_CONS (LISP_INT 12) LISP_NIL), [32])"
proof -
  let ?v = "LISP_CONS (LISP_SYMBOL (bytes_of ''add'')) (LISP_CONS (LISP_INT 12) LISP_NIL)"
  have "print_val ?v = bytes_of ''(add 12)''" by (simp add: bytes_of_def itoa_def word_sless_alt dec_lsb.simps)
  moreover have "readable ?v" "depth ?v \<le> 4" "delim [32]"
    by (simp_all add: bytes_of_def symchar_def isspace_def isdigit_def delim_def)
  ultimately show ?thesis using lisp_read_print_roundtrip [of ?v 4 "[32]"] by simp
qed

text \<open>A list that is never closed.\<close>

lemma read_digits_rest: "set (snd (read_digits n s)) \<subseteq> set s"
  by (induction n s rule: read_digits.induct) auto

lemma read_symbol_rest: "set (snd (read_symbol b s)) \<subseteq> set s"
  by (induction b s rule: read_symbol.induct) auto

lemma read_atom_rest: "read_atom s = (v, rest) \<Longrightarrow> set rest \<subseteq> set s"
  using read_digits_rest [of 0 s] read_digits_rest [of 0 "tl s"] read_symbol_rest [of "[]" s]
  by (cases s) (auto simp: read_atom_def Let_def split: prod.splits if_splits)

lemma skip_whitespace_rest: "set (skip_whitespace s) \<subseteq> set s"
  by (auto simp: skip_whitespace_def dest: set_dropWhileD)

lemma parse_unclosed:
  "41 \<notin> set s \<Longrightarrow> parse_expr n s = Some (v, rest) \<Longrightarrow> 41 \<notin> set rest"
  "41 \<notin> set s \<Longrightarrow> parse_list n s = None"
proof (induction n s and n s arbitrary: v rest and rule: parse_expr_parse_list.induct)
  case (2 n s)
  let ?s = "skip_whitespace s"
  have s: "41 \<notin> set ?s" using 2(2) skip_whitespace_rest by blast
  then have t: "?s \<noteq> [] \<Longrightarrow> 41 \<notin> set (tl ?s)" by (auto dest: list.set_sel(2))
  have "\<not> (?s \<noteq> [] \<and> hd ?s = 40)" using 2(1) [OF refl] 2(3) t by (auto simp: Let_def)
  then have "read_atom ?s = (v, rest)" using 2(3) by (auto simp: Let_def split: if_splits)
  then show ?case using read_atom_rest s by blast
next
  case (4 n s)
  let ?s = "skip_whitespace s"
  have s: "41 \<notin> set ?s" using 4(3) skip_whitespace_rest by blast
  then have h: "\<not> (?s \<noteq> [] \<and> hd ?s = 41)" using hd_in_set by force
  show ?case
  proof (cases "parse_expr n ?s")
    case (Some r)
    obtain a rest where r: "r = (a, rest)" by (cases r)
    have "41 \<notin> set rest" using 4(1) [OF refl h s] Some r by blast
    then have "parse_list n rest = None" using 4(2) [OF refl h] Some r by blast
    then show ?thesis using h Some r by (simp add: Let_def)
  qed (use h in \<open>simp add: Let_def\<close>)
qed simp_all

text \<open>
  Input that does not end. A line that starts with an opening parenthesis and has no closing one makes the interpreter
  recurse for ever: no depth of recursion is enough to answer it.
\<close>

theorem lisp_unclosed_never_ends:
  assumes "41 \<notin> set bs"
  shows "repl_step n (Some (40 # bs)) es = Inl Hang"
proof -
  obtain t where t: "input_line (40 # bs) = 40 # t" by (simp add: input_line_def)
  have "set (input_line (40 # bs)) \<subseteq> set (40 # bs)"
    by (auto simp: input_line_def dest!: set_takeWhileD in_set_takeD)
  then have no: "41 \<notin> set t" using assms t by auto
  have "skip_whitespace (40 # t) = 40 # t" by (simp add: skip_whitespace_def isspace_def)
  then have "parse_expr n (40 # t) = None" using parse_unclosed(2) [OF no] by (cases n) (simp_all add: Let_def)
  then show ?thesis using t by (simp add: repl_step_def streq_eq bytes_of_def)
qed

theorem lisp_unclosed_never_ends_witness: "repl_step 1000 (Some (bytes_of ''(+ 1 2'')) [] = Inl Hang"
  using lisp_unclosed_never_ends [of "bytes_of ''+ 1 2''" 1000 "[]"] by (simp add: bytes_of_def)

section \<open>The depth of evaluation\<close>

text \<open>An answer other than running out of depth does not change when more depth is available.\<close>

definition hang_le :: "'a kres \<Rightarrow> 'a kres \<Rightarrow> bool" where
  "hang_le a b \<longleftrightarrow> a = Inl Hang \<or> a = b"

lemma hang_le_refl: "hang_le a a"
  by (simp add: hang_le_def)

lemma hang_le_bind: "hang_le m m' \<Longrightarrow> (\<And>x. hang_le (f x) (f' x)) \<Longrightarrow> hang_le (kbind m f) (kbind m' f')"
  by (cases m; cases m') (auto simp: hang_le_def)

lemma hang_le_if: "hang_le a a' \<Longrightarrow> hang_le b b' \<Longrightarrow> hang_le (if c then a else b) (if c then a' else b')"
  by simp

lemma hang_le_prod: "(\<And>x y. hang_le (f x y) (f' x y)) \<Longrightarrow> hang_le (case p of (x, y) \<Rightarrow> f x y) (case p of (x, y) \<Rightarrow> f' x y)"
  by (cases p) simp

lemma hang_le_option: "hang_le a a' \<Longrightarrow> (\<And>x. hang_le (f x) (f' x)) \<Longrightarrow> hang_le (case p of None \<Rightarrow> a | Some x \<Rightarrow> f x) (case p of None \<Rightarrow> a' | Some x \<Rightarrow> f' x)"
  by (cases p) simp_all

lemma hang_le_val:
  "(\<And>k. hang_le (a k) (a' k)) \<Longrightarrow> (\<And>s. hang_le (b s) (b' s)) \<Longrightarrow> (\<And>x y. hang_le (c x y) (c' x y)) \<Longrightarrow>
    (\<And>x y z. hang_le (d x y z) (d' x y z)) \<Longrightarrow> hang_le g g' \<Longrightarrow>
    hang_le (case v of LISP_INT k \<Rightarrow> a k | LISP_SYMBOL s \<Rightarrow> b s | LISP_CONS x y \<Rightarrow> c x y | LISP_FUNC x y z \<Rightarrow> d x y z | LISP_NIL \<Rightarrow> g)
      (case v of LISP_INT k \<Rightarrow> a' k | LISP_SYMBOL s \<Rightarrow> b' s | LISP_CONS x y \<Rightarrow> c' x y | LISP_FUNC x y z \<Rightarrow> d' x y z | LISP_NIL \<Rightarrow> g')"
  by (cases v) simp_all

lemmas hang_le_rules = hang_le_bind hang_le_if hang_le_prod hang_le_option hang_le_val hang_le_refl

lemma env_get_mono: "hang_le (env_get n e s es) (env_get (Suc n) e s es)"
proof (induction n arbitrary: e)
  case (Suc n)
  show ?case unfolding env_get.simps(2) [of n e] env_get.simps(2) [of "Suc n" e] by (intro hang_le_rules Suc)
qed (simp add: hang_le_def)

lemma eval_mono:
  "hang_le (eval n v e es) (eval (Suc n) v e es)" "hang_le (eval_list n v e es) (eval_list (Suc n) v e es)"
proof (induction n arbitrary: v e es)
  case (Suc n)
  {
    case 1
    show ?case
    proof (cases v)
      case (LISP_CONS op args)
      show ?thesis unfolding LISP_CONS eval.simps(6) Let_def make_env_def prod.case by (intro hang_le_rules Suc)
    next
      case (LISP_SYMBOL s)
      show ?thesis unfolding LISP_SYMBOL eval.simps(3) by (intro hang_le_rules env_get_mono)
    qed (simp_all add: hang_le_refl)
  next
    case 2
    show ?case unfolding eval_list.simps(2) [of n v] eval_list.simps(2) [of "Suc n" v] by (intro hang_le_rules Suc)
  }
qed (simp_all add: hang_le_def)

lemma eval_more: "eval n v e es = Inr r \<Longrightarrow> n \<le> m \<Longrightarrow> eval m v e es = Inr r"
proof (induction m)
  case (Suc m)
  then show ?case using eval_mono(1) [of m v e es] by (auto simp: hang_le_def le_Suc_eq)
qed simp

section \<open>Arithmetic\<close>

text \<open>Arithmetic expressions, their values, and their form as Lisp values.\<close>

datatype arith_op = Plus | Minus | Times | Over

datatype arith = Num u32 | App arith_op "arith list"

fun op_name :: "arith_op \<Rightarrow> u8 list" where
  "op_name Plus = bytes_of ''+''"
| "op_name Minus = bytes_of ''-''"
| "op_name Times = bytes_of ''*''"
| "op_name Over = bytes_of ''/''"

fun op_value :: "arith_op \<Rightarrow> u32 list \<Rightarrow> u32 kres" where
  "op_value Plus vs = Inr (sum_list vs)"
| "op_value Times vs = Inr (prod_list vs)"
| "op_value Minus [] = Inr 0"
| "op_value Minus (v # vs) = Inr (v - sum_list vs)"
| "op_value Over [] = Inr 0"
| "op_value Over (v # vs) = kfold (\<lambda>d q. if d = 0 then Inr q else idiv q d) vs v"

fun arith_value :: "arith \<Rightarrow> u32 kres" where
  "arith_value (Num n) = Inr n"
| "arith_value (App f xs) = kbind (kmap arith_value xs) (op_value f)"

fun lisp_list :: "lisp_val list \<Rightarrow> lisp_val" where
  "lisp_list [] = LISP_NIL"
| "lisp_list (x # xs) = LISP_CONS x (lisp_list xs)"

fun arith_val :: "arith \<Rightarrow> lisp_val" where
  "arith_val (Num n) = LISP_INT n"
| "arith_val (App f xs) = LISP_CONS (LISP_SYMBOL (op_name f)) (lisp_list (map arith_val xs))"

fun arith_depth :: "arith \<Rightarrow> nat" where
  "arith_depth (Num n) = 1"
| "arith_depth (App f xs) = 3 + length xs + sum_list (map arith_depth xs)"

definition ops_bound :: "nat \<Rightarrow> lisp_env list \<Rightarrow> bool" where
  "ops_bound e es \<longleftrightarrow> e < length es \<and> (\<forall>f. get_entry (op_name f) (env_entries (es ! e)) = Some (LISP_SYMBOL (op_name f)))"

lemma loops_eq:
  "add_loop r (lisp_list (map LISP_INT vs)) = r + sum_list vs"
  "sub_loop r (lisp_list (map LISP_INT vs)) = r - sum_list vs"
  "mul_loop r (lisp_list (map LISP_INT vs)) = r * prod_list vs"
  "div_loop r (lisp_list (map LISP_INT vs)) = kfold (\<lambda>d q. if d = 0 then Inr q else idiv q d) vs r"
  by (induction vs arbitrary: r) (simp_all add: add.assoc diff_diff_eq mult.assoc)

lemma eval_list_arith:
  assumes "\<And>x. x \<in> set xs \<Longrightarrow> \<forall>n \<ge> arith_depth x. eval n (arith_val x) e es = kbind (arith_value x) (\<lambda>v. Inr (LISP_INT v, es))"
    and "1 + length xs + sum_list (map arith_depth xs) \<le> n"
  shows "eval_list n (lisp_list (map arith_val xs)) e es = kbind (kmap arith_value xs) (\<lambda>vs. Inr (lisp_list (map LISP_INT vs), es))"
  using assms
proof (induction xs arbitrary: n)
  case Nil
  then show ?case by (cases n) simp_all
next
  case (Cons x xs)
  then obtain m where m: "n = Suc m" "arith_depth x \<le> m" "1 + length xs + sum_list (map arith_depth xs) \<le> m" by (cases n) auto
  have "eval m (arith_val x) e es = kbind (arith_value x) (\<lambda>v. Inr (LISP_INT v, es))" using Cons.prems(1) [of x] m(2) by simp
  moreover have "eval_list m (lisp_list (map arith_val xs)) e es = kbind (kmap arith_value xs) (\<lambda>vs. Inr (lisp_list (map LISP_INT vs), es))"
    using Cons.IH [OF _ m(3)] Cons.prems(1) by simp
  ultimately show ?case using m(1) by (auto simp: kbind_def split: sum.splits)
qed

lemma builtin_value:
  "(if streq (op_name f) (bytes_of ''+'') then Inr (builtin_add (lisp_list (map LISP_INT vs)), es)
      else if streq (op_name f) (bytes_of ''-'') then kbind (builtin_sub (lisp_list (map LISP_INT vs))) (\<lambda>v. Inr (v, es))
      else if streq (op_name f) (bytes_of ''*'') then Inr (builtin_mul (lisp_list (map LISP_INT vs)), es)
      else if streq (op_name f) (bytes_of ''/'') then kbind (builtin_div (lisp_list (map LISP_INT vs))) (\<lambda>v. Inr (v, es))
      else Inr (LISP_NIL, es)) = kbind (op_value f vs) (\<lambda>v. Inr (LISP_INT v, es))"
  by (cases f; cases vs; simp add: streq_eq bytes_of_def builtin_add_def builtin_sub_def builtin_mul_def builtin_div_def loops_eq)
    (simp add: kbind_def split: sum.splits)

lemma eval_arith:
  "ops_bound e es \<Longrightarrow> arith_depth x \<le> n \<Longrightarrow> eval n (arith_val x) e es = kbind (arith_value x) (\<lambda>v. Inr (LISP_INT v, es))"
proof (induction x arbitrary: n)
  case (Num k)
  then show ?case by (cases n) simp_all
next
  case (App f xs)
  obtain m where m: "n = Suc (Suc (Suc m))" "length xs + sum_list (map arith_depth xs) \<le> m"
    using App.prems(2) by (cases n; cases "n - 1"; cases "n - 2") auto
  have op: "eval (Suc (Suc m)) (LISP_SYMBOL (op_name f)) e es = Inr (LISP_SYMBOL (op_name f), es)"
    using App.prems(1) by (simp add: ops_bound_def)
  have form: "\<not> is_form ''define'' (LISP_SYMBOL (op_name f))" "\<not> is_form ''lambda'' (LISP_SYMBOL (op_name f))"
    by (cases f; simp add: is_form_def streq_eq bytes_of_def)+
  have args: "eval_list (Suc (Suc m)) (lisp_list (map arith_val xs)) e es = kbind (kmap arith_value xs) (\<lambda>vs. Inr (lisp_list (map LISP_INT vs), es))"
    using App m(2) by (intro eval_list_arith) auto
  let ?b = "\<lambda>(vs, es). if streq (op_name f) (bytes_of ''+'') then Inr (builtin_add vs, es)
      else if streq (op_name f) (bytes_of ''-'') then kbind (builtin_sub vs) (\<lambda>v. Inr (v, es))
      else if streq (op_name f) (bytes_of ''*'') then Inr (builtin_mul vs, es)
      else if streq (op_name f) (bytes_of ''/'') then kbind (builtin_div vs) (\<lambda>v. Inr (v, es))
      else Inr (LISP_NIL, es)"
  have "eval n (arith_val (App f xs)) e es = kbind (kbind (kmap arith_value xs) (\<lambda>vs. Inr (lisp_list (map LISP_INT vs), es))) ?b"
    by (simp only: m(1) arith_val.simps eval.simps(6) form if_False op kbind_simps prod.case lisp_val.case args)
  also have "\<dots> = kbind (kmap arith_value xs) (\<lambda>vs. kbind (op_value f vs) (\<lambda>v. Inr (LISP_INT v, es)))"
    using builtin_value [of f _ es] by (cases "kmap arith_value xs") simp_all
  also have "\<dots> = kbind (arith_value (App f xs)) (\<lambda>v. Inr (LISP_INT v, es))" by (cases "kmap arith_value xs") simp_all
  finally show ?case .
qed

fun lits_ok :: "arith \<Rightarrow> bool" where
  "lits_ok (Num n) \<longleftrightarrow> 0 \<le> sint n"
| "lits_ok (App f xs) \<longleftrightarrow> list_all lits_ok xs"

lemma op_name_facts: "readable (LISP_SYMBOL (op_name f))" "\<forall>c \<in> set (op_name f). c \<noteq> 10 \<and> c \<noteq> 0"
  by (cases f; simp add: bytes_of_def symchar_def isspace_def isdigit_def)+

lemma itoa_plain: "0 \<le> sint n \<Longrightarrow> \<forall>c \<in> set (itoa n). c \<noteq> 10 \<and> c \<noteq> 0"
  using itoa_digits(2) [of n] by (auto simp: isdigit_def)

lemma arith_text:
  "lits_ok x \<Longrightarrow> readable (arith_val x) \<and> depth (arith_val x) \<le> arith_depth x \<and> (\<forall>c \<in> set (print_val (arith_val x)). c \<noteq> 10 \<and> c \<noteq> 0)"
proof (induction x)
  case (Num n)
  then show ?case using itoa_plain by simp
next
  case (App f xs)
  have "readable_tail (lisp_list (map arith_val xs)) \<and> depth_tail (lisp_list (map arith_val xs)) \<le> 1 + length xs + sum_list (map arith_depth xs) \<and>
      (\<forall>c \<in> set (print_tail (lisp_list (map arith_val xs))). c \<noteq> 10 \<and> c \<noteq> 0)"
    using App
  proof (induction xs)
    case Nil
    then show ?case by (simp add: bytes_of_def)
  next
    case (Cons x xs)
    have "readable (arith_val x) \<and> depth (arith_val x) \<le> arith_depth x \<and> (\<forall>c \<in> set (print_val (arith_val x)). c \<noteq> 10 \<and> c \<noteq> 0)"
      using Cons.prems(1) [of x] Cons.prems(2) by auto
    moreover have "readable_tail (lisp_list (map arith_val xs)) \<and> depth_tail (lisp_list (map arith_val xs)) \<le> 1 + length xs + sum_list (map arith_depth xs) \<and>
      (\<forall>c \<in> set (print_tail (lisp_list (map arith_val xs))). c \<noteq> 10 \<and> c \<noteq> 0)" by (rule Cons.IH) (use Cons.prems in auto)
    ultimately show ?case by (auto simp: bytes_of_def)
  qed
  then show ?case using op_name_facts [of f] by (auto simp: bytes_of_def)
qed

lemma global_env_ops: "\<exists>es. global_env = Inr es \<and> ops_bound 0 es"
proof -
  let ?es = "[\<lparr>env_entries = [(op_name Plus, LISP_SYMBOL (op_name Plus)), (op_name Minus, LISP_SYMBOL (op_name Minus)),
    (op_name Times, LISP_SYMBOL (op_name Times)), (op_name Over, LISP_SYMBOL (op_name Over))], env_parent = None\<rparr>]"
  have "global_env = Inr ?es"
    by (simp add: global_env_def make_env_def env_set_def streq_eq bytes_of_def make_symbol_def)
  moreover have "get_entry (op_name f) (env_entries (?es ! 0)) = Some (LISP_SYMBOL (op_name f))" for f
    by (cases f) (simp_all add: streq_eq bytes_of_def)
  ultimately show ?thesis by (auto simp: ops_bound_def)
qed

text \<open>How an expression is written: literals in decimal, applications in parentheses with blanks between the parts.\<close>

fun expr_text :: "arith \<Rightarrow> u8 list" where
  "expr_text (Num n) = decimal (sint n)"
| "expr_text (App f xs) = 40 # op_name f @ concat (map (\<lambda>x. 32 # expr_text x) xs) @ [41]"

lemma print_expr: "lits_ok x \<Longrightarrow> print_val (arith_val x) = expr_text x"
proof (induction x)
  case (Num n)
  then have "n \<noteq> 0x80000000" by auto
  then show ?case by (simp add: itoa_decimal)
next
  case (App f xs)
  have "print_tail (lisp_list (map arith_val xs)) = concat (map (\<lambda>x. 32 # expr_text x) xs) @ [41]"
    using App by (induction xs) (simp_all add: bytes_of_def)
  then show ?case by (simp add: bytes_of_def)
qed

text \<open>
  C31: the interpreter as a calculator. Given one line with an arithmetic expression of literals that are not negative, the
  program, with enough depth, prints its banner, the prompt, the value of the expression, and the next prompt. The value is taken in 32-bit
  two's-complement arithmetic: sums, differences and products wrap around (signed overflow, undefined in C, is taken as wrap-around),
  quotients round towards zero and divisors of zero are skipped. It is printed as its decimal text, with a minus sign if it is negative; only
  for the least integer, -2147483648, the sign alone is printed.
\<close>

theorem lisp_calculates:
  assumes "lits_ok x" "arith_value x = Inr v" "arith_depth x \<le> n" "length (expr_text x) < 255"
  shows "lisp_start n [Some (expr_text x @ [10])] = Inr (False, lisp_banner @ bytes_of ''lisp> '' @
    (if sint v = - 2147483648 then bytes_of ''-'' else decimal (sint v)) @ [10] @ bytes_of ''lisp> '')"
proof -
  note t = arith_text [OF assms(1)]
  let ?s = "expr_text x"
  note s = print_expr [OF assms(1)]
  obtain es where es: "global_env = Inr es" "ops_bound 0 es" using global_env_ops by blast
  have "takeWhile (\<lambda>c. c \<noteq> 10 \<and> c \<noteq> 0) (?s @ [10]) = ?s" using t s by (subst takeWhile_append2) auto
  then have line: "input_line (?s @ [10]) = ?s" using assms(4) by (simp add: input_line_def)
  have "hd (print_val (arith_val x)) = 40 \<or> isdigit (hd (print_val (arith_val x)))"
    using assms(1) itoa_first by (cases x) (auto simp: bytes_of_def)
  then have exit: "?s \<noteq> bytes_of ''exit''" unfolding s by (auto simp: bytes_of_def isdigit_def)
  have "parse_expr n ?s = Some (arith_val x, [])"
    using read_back(1) [of "arith_val x" n "[]"] t s assms(3) by (simp add: delim_def)
  moreover have "eval n (arith_val x) 0 es = Inr (LISP_INT v, es)" using eval_arith [OF es(2) assms(3)] assms(2) by simp
  ultimately have "repl_step n (Some (?s @ [10])) es = Inr (Some (itoa v @ [10], es))"
    using line exit by (simp add: repl_step_def streq_eq)
  moreover have "of_int (- 2147483648) = (0x80000000 :: u32)" "sint (0x80000000 :: u32) = - 2147483648" by simp_all
  then have "sint v = - 2147483648 \<longleftrightarrow> v = 0x80000000" using of_sint by metis
  then have "itoa v = (if sint v = - 2147483648 then bytes_of ''-'' else decimal (sint v))"
    using itoa_least itoa_decimal [of v] by auto
  ultimately show ?thesis unfolding lisp_start_def es(1) by simp
qed

theorem lisp_calculates_witness:
  "lisp_start 20 [Some (bytes_of ''(- 7 (* 2 5))'' @ [10])] = Inr (False, lisp_banner @ bytes_of ''lisp> '' @ bytes_of ''-3'' @ [10] @ bytes_of ''lisp> '') \<and>
   lisp_start 20 [Some (bytes_of ''(- 0 2147483647 1)'' @ [10])] = Inr (False, lisp_banner @ bytes_of ''lisp> '' @ bytes_of ''-'' @ [10] @ bytes_of ''lisp> '')"
proof -
  let ?x = "App Minus [Num 7, App Times [Num 2, Num 5]]" and ?y = "App Minus [Num 0, Num 2147483647, Num 1]"
  have p: "expr_text ?x = bytes_of ''(- 7 (* 2 5))''" "expr_text ?y = bytes_of ''(- 0 2147483647 1)''" "decimal (sint (- 3 :: u32)) = bytes_of ''-3''"
    by (simp_all add: bytes_of_def decimal_def decimal_nat.simps)
  have l: "length (expr_text ?x) < 255" "length (expr_text ?y) < 255" unfolding p by (simp_all add: bytes_of_def)
  have "lisp_start 20 [Some (expr_text ?x @ [10])] = Inr (False, lisp_banner @ bytes_of ''lisp> '' @
    (if sint (- 3 :: u32) = - 2147483648 then bytes_of ''-'' else decimal (sint (- 3 :: u32))) @ [10] @ bytes_of ''lisp> '')"
    by (rule lisp_calculates [OF _ _ _ l(1)]) simp_all
  moreover have "lisp_start 20 [Some (expr_text ?y @ [10])] = Inr (False, lisp_banner @ bytes_of ''lisp> '' @
    (if sint (0x80000000 :: u32) = - 2147483648 then bytes_of ''-'' else decimal (sint (0x80000000 :: u32))) @ [10] @ bytes_of ''lisp> '')"
    by (rule lisp_calculates [OF _ _ _ l(2)]) simp_all
  ultimately show ?thesis unfolding p by simp
qed

end
