(* ===== verification/Shell.thy ===== *)
theory Shell
  imports UPrintf
begin

text \<open>
  The shell, \<^verbatim>\<open>user/src/sh.c\<close>. The command line is edited in place, so it is a string in the program's memory. The system
  calls that change something are recorded in order with the strings they are given; \<open>ans\<close> holds the kernel's answers to them, by the number of calls
  made before. What \<^verbatim>\<open>read\<close>, \<^verbatim>\<open>ftype\<close> and \<^verbatim>\<open>get_tty_mode\<close> return are arguments. The directories of the search path are tried on lists of bytes: the block that holds the full path while a program is tried is
  freed again and nothing else refers to it. The buffer of the line that is typed is a list of bytes that \<^verbatim>\<open>realloc\<close>
  lengthens, and is stored at \<open>line_addr\<close> when the line is complete; \<open>can_alloc\<close> tells for which sizes there is memory, and \<open>junk\<close> is what
  new memory holds. A loop over a string that has no end is \<open>Hang\<close>.
\<close>

abbreviation MAX_ARGS :: nat where "MAX_ARGS \<equiv> 16"
abbreviation PIPE :: u8 where "PIPE \<equiv> 124"
abbreviation COLON :: u8 where "COLON \<equiv> 58"

section \<open>Definitions\<close>

datatype sh_call = Puts "u8 list" | Cd "u8 list" | Pipe | Spawn "u8 list" "u8 list list" "(u32 \<times> u32) list" | Close u32 | Set_tty tty_mode | Wait u32 | Exit u32

record sh_ans =
  answer :: "nat \<Rightarrow> u32"
  pipe_fds :: "nat \<Rightarrow> u32 \<times> u32"
  line_addr :: u32
  can_alloc :: "nat \<Rightarrow> bool"
  junk :: u8

record shell =
  smem :: mem
  scalls :: "sh_call list"

definition call :: "sh_ans \<Rightarrow> sh_call \<Rightarrow> shell \<Rightarrow> u32 \<times> shell" where
  "call ans c s = (answer ans (length (scalls s)), s\<lparr>scalls := scalls s @ [c]\<rparr>)"

abbreviation say :: "sh_ans \<Rightarrow> u8 list \<Rightarrow> shell \<Rightarrow> shell" where
  "say ans bs s \<equiv> snd (call ans (Puts bs) s)"

fun is_prefix :: "mem \<Rightarrow> u32 \<Rightarrow> u8 list \<Rightarrow> bool" where
  "is_prefix m str [] \<longleftrightarrow> True"
| "is_prefix m str (c # cs) \<longleftrightarrow> \<not> (m str = 0 \<or> m str \<noteq> c) \<and> is_prefix m (str + 1) cs"

partial_function (option) contains_pipe :: "mem \<Rightarrow> u32 \<Rightarrow> bool option" where
  "contains_pipe m s = (if m s \<noteq> 0 then if m s = PIPE then Some True else contains_pipe m (s + 1) else Some False)"

subsection \<open>The search path\<close>

lemma rest_shorter: "dropWhile P xs \<noteq> [] \<Longrightarrow> length (tl (dropWhile P xs)) < length xs"
  using length_dropWhile_le [of P xs] by (cases "dropWhile P xs") auto

function path_loop :: "sh_ans \<Rightarrow> (u8 list \<Rightarrow> sh_call) \<Rightarrow> u8 list \<Rightarrow> u8 list \<Rightarrow> shell \<Rightarrow> u32 \<times> shell" where
  "path_loop ans spawn filename path s =
     (let dir = takeWhile (\<lambda>c. c \<noteq> COLON) path; rest = dropWhile (\<lambda>c. c \<noteq> COLON) path
      in if dir = [] then if rest = [] then (- 1, s) else path_loop ans spawn filename (tl rest) s
         else if \<not> can_alloc ans (length dir + 1 + length filename + 1) then (- 1, s)
         else
           let (pid, s) = call ans (spawn (dir @ SLASH # filename)) s
           in if 0 \<le>s pid then (pid, s)
              else if rest = [] then (- 1, s) else path_loop ans spawn filename (tl rest) s)"
  by pat_completeness auto
termination
  by (relation "measure (\<lambda>(ans, spawn, filename, path, s). length path)") (auto simp: rest_shorter simp del: length_tl)

declare path_loop.simps [simp del]

definition env_path :: "u8 list" where
  "env_path = bytes_of ''~/bin''"

definition spawn_with_path :: "sh_ans \<Rightarrow> u8 list option \<Rightarrow> u8 list \<Rightarrow> u8 list list \<Rightarrow> (u32 \<times> u32) list \<Rightarrow> shell \<Rightarrow> u32 \<times> shell" where
  "spawn_with_path ans path filename argv cmds s =
     (let spawn = (\<lambda>p. Spawn p argv cmds)
      in if filename \<noteq> [] \<and> (hd filename = 126 \<or> hd filename = 46) then call ans (spawn filename) s
         else case path of
                None \<Rightarrow> call ans (spawn filename) s
              | Some p \<Rightarrow> if p = [] then call ans (spawn filename) s else path_loop ans spawn filename p s)"

subsection \<open>Arguments\<close>

partial_function (option) word_end :: "mem \<Rightarrow> u32 \<Rightarrow> u32 option" where
  "word_end m p = (if m p \<noteq> 0 \<and> m p \<noteq> SPACE then word_end m (p + 1) else Some p)"

partial_function (option) args_loop :: "mem \<Rightarrow> u32 \<Rightarrow> u32 list \<Rightarrow> (u32 list \<times> mem) option" where
  "args_loop m buf argv =
     (if m buf \<noteq> 0 \<and> length argv < MAX_ARGS then
        let argv = argv @ [buf]
        in Option.bind (word_end m buf) (\<lambda>buf.
           if m buf = 0 then Some (argv, m)
           else
             let m = m(buf := 0)
             in Option.bind (skip_spaces m (buf + 1)) (\<lambda>buf. args_loop m buf argv))
      else Some (argv, m))"

definition parse_args :: "mem \<Rightarrow> u32 \<Rightarrow> (u32 list \<times> mem) option" where
  "parse_args m buf = Option.bind (skip_spaces m buf) (\<lambda>buf. args_loop m buf [])"

text \<open>The program to run is \<^verbatim>\<open>argv[0]\<close>, the null pointer when there are no arguments.\<close>

definition run :: "sh_ans \<Rightarrow> u32 list \<Rightarrow> (u32 \<times> u32) list \<Rightarrow> shell \<Rightarrow> (u32 \<times> shell) kres" where
  "run ans argv cmds s =
     (if argv = [] then Inl NullDeref
      else kbind (kmap (\<lambda>p. kwait (cstr (smem s) p)) argv) (\<lambda>words. Inr (spawn_with_path ans (Some env_path) (hd words) words cmds s)))"

subsection \<open>Commands\<close>

definition wait_for :: "sh_ans \<Rightarrow> u32 list \<Rightarrow> shell \<Rightarrow> u32 \<times> shell" where
  "wait_for ans pids s =
     (let s = snd (call ans (Set_tty TTY_MODE_COOKED) s);
          (r, s) = fold (\<lambda>pid (r, s). call ans (Wait pid) s) pids (0, s)
      in (r, snd (call ans (Set_tty TTY_MODE_RAW) s)))"

definition process_cmd :: "sh_ans \<Rightarrow> u32 \<Rightarrow> shell \<Rightarrow> (u32 option \<times> shell) kres" where
  "process_cmd ans buf s =
     (if is_prefix (smem s) buf (bytes_of ''cd '') then
        kbind (kwait (skip_spaces (smem s) (buf + 3))) (\<lambda>dir.
        kbind (kwait (cstr (smem s) dir)) (\<lambda>d.
          let (res, s) = call ans (Cd d) s
          in if res = 0 then Inr (Some 0, say ans [NEWLINE] (say ans d (say ans (bytes_of ''Changed directories to '') s)))
             else Inr (Some (- 1), say ans (bytes_of ''Unable to change directories'' @ [NEWLINE]) s)))
      else
        kbind (kwait (cstr (smem s) buf)) (\<lambda>b.
        if str_cmp b (bytes_of ''exit'') = 0 then Inr (None, snd (call ans (Exit 0) s))
        else
          kbind (kwait (contains_pipe (smem s) buf)) (\<lambda>piped.
          if piped then
            kbind (kwait (strchr (smem s) buf (ucast PIPE))) (\<lambda>pipe_pos.
            let s = s\<lparr>smem := (smem s)(pipe_pos := 0)\<rparr>
            in kbind (kwait (trim (smem s) buf)) (\<lambda>(_, m).
               kbind (kwait (trim m (pipe_pos + 1))) (\<lambda>(_, m).
               let s = s\<lparr>smem := m\<rparr>; (read_fd, write_fd) = pipe_fds ans (length (scalls s)); (res, s) = call ans Pipe s
               in if res <s 0 then Inr (Some (- 1), say ans (bytes_of ''pipe failed'' @ [NEWLINE]) s)
                  else
                    kbind (kwait (parse_args (smem s) buf)) (\<lambda>(argv_left, m).
                    kbind (run ans argv_left [(write_fd, 0)] (s\<lparr>smem := m\<rparr>)) (\<lambda>(left_pid, s).
                    if left_pid <s 0 then Inr (Some (- 1), say ans (bytes_of ''spawn left failed'' @ [NEWLINE]) s)
                    else
                      kbind (kwait (parse_args (smem s) (pipe_pos + 1))) (\<lambda>(argv_right, m).
                      kbind (run ans argv_right [(read_fd, 1)] (s\<lparr>smem := m\<rparr>)) (\<lambda>(right_pid, s).
                      if right_pid <s 0 then Inr (Some (- 1), say ans (bytes_of ''spawn right failed'' @ [NEWLINE]) s)
                      else
                        let s = snd (call ans (Close read_fd) s); s = snd (call ans (Close write_fd) s);
                            (r, s) = wait_for ans [left_pid, right_pid] s
                        in Inr (Some r, s))))))))
          else
            kbind (kwait (parse_args (smem s) buf)) (\<lambda>(argv, m).
            let s = s\<lparr>smem := m\<rparr>
            in if argv = [] then Inr (Some (- 1), s)
               else
                 kbind (run ans argv [] s) (\<lambda>(res, s).
                 if res <s 0 then
                   kbind (kwait (cstr (smem s) (hd argv))) (\<lambda>name.
                     Inr (Some (- 1), say ans (bytes_of ''.'' @ [NEWLINE]) (say ans name (say ans (bytes_of ''Unable to spawn process '') s))))
                 else let (r, s) = wait_for ans [res] s in Inr (Some r, s))))))"

subsection \<open>Reading lines\<close>

record sh_line =
  lbuf :: "u8 list"
  llen :: nat

datatype sh_res = More sh_line shell | Done u32 sh_line shell | Stop shell

definition sh_oom :: "sh_ans \<Rightarrow> tty_mode \<Rightarrow> shell \<Rightarrow> sh_res" where
  "sh_oom ans old_tty_mode s =
     Stop (snd (call ans (Exit 0) (snd (call ans (Set_tty old_tty_mode) (say ans (bytes_of ''Shell out of memory'' @ [NEWLINE]) s)))))"

text \<open>After a command the buffer holds what the command has left in it.\<close>

fun finish_line :: "sh_ans \<Rightarrow> nat \<Rightarrow> u32 option \<times> shell \<Rightarrow> sh_res kres" where
  "finish_line ans n (None, s) = Inr (Stop s)"
| "finish_line ans n (Some c, s) = Inr (Done c \<lparr>lbuf = map (\<lambda>j. smem s (line_addr ans + of_nat j)) [0..<n], llen = 0\<rparr> s)"

definition sh_newline :: "sh_ans \<Rightarrow> bool \<Rightarrow> tty_mode \<Rightarrow> sh_line \<Rightarrow> shell \<Rightarrow> sh_res kres" where
  "sh_newline ans is_tty old_tty_mode l s =
     (let s = (if is_tty then say ans [NEWLINE] s else s); full = (length (lbuf l) = llen l)
      in if full \<and> \<not> can_alloc ans (llen l + 1) then Inr (sh_oom ans old_tty_mode s)
         else
           kbind (kset (if full then lbuf l @ [junk ans] else lbuf l) (llen l) 0) (\<lambda>b.
           kbind (process_cmd ans (line_addr ans) (s\<lparr>smem := put_bytes b (line_addr ans) (smem s)\<rparr>)) (finish_line ans (length b))))"

partial_function (option) grow_cap :: "nat \<Rightarrow> nat \<Rightarrow> nat option" where
  "grow_cap new_cap n = (if new_cap \<le> n then grow_cap (new_cap * 2) n else Some new_cap)"

definition sh_char :: "sh_ans \<Rightarrow> bool \<Rightarrow> tty_mode \<Rightarrow> u8 \<Rightarrow> sh_line \<Rightarrow> shell \<Rightarrow> sh_res kres" where
  "sh_char ans is_tty old_tty_mode c l s =
     kbind (if llen l + 1 \<ge> length (lbuf l) then
              kbind (kwait (grow_cap (if length (lbuf l) \<noteq> 0 then length (lbuf l) * 2 else 64) (llen l + 1))) (\<lambda>new_cap.
                Inr (if can_alloc ans new_cap then Some (lbuf l @ replicate (new_cap - length (lbuf l)) (junk ans)) else None))
            else Inr (Some (lbuf l))) (\<lambda>b.
       case b of
         None \<Rightarrow> Inr (sh_oom ans old_tty_mode s)
       | Some b \<Rightarrow>
           kbind (kset b (llen l) c) (\<lambda>b.
             Inr (More \<lparr>lbuf = b, llen = llen l + 1\<rparr> (if is_tty then say ans (if c = 0 then [] else [c]) s else s))))"

definition sh_key :: "sh_ans \<Rightarrow> bool \<Rightarrow> tty_mode \<Rightarrow> u8 \<Rightarrow> sh_line \<Rightarrow> shell \<Rightarrow> sh_res kres" where
  "sh_key ans is_tty old_tty_mode c l s =
     (if c = NEWLINE then sh_newline ans is_tty old_tty_mode l s
      else if c = 8 \<or> c = 127 then
        Inr (if llen l > 0 then More (l\<lparr>llen := llen l - 1\<rparr>) (if is_tty then say ans [8] s else s) else More l s)
      else sh_char ans is_tty old_tty_mode c l s)"

fun sh_chunk :: "sh_ans \<Rightarrow> bool \<Rightarrow> tty_mode \<Rightarrow> u8 list \<Rightarrow> sh_line \<Rightarrow> shell \<Rightarrow> sh_res kres" where
  "sh_chunk ans is_tty old_tty_mode [] l s = Inr (More l s)"
| "sh_chunk ans is_tty old_tty_mode (c # cs) l s =
     kbind (sh_key ans is_tty old_tty_mode c l s) (\<lambda>r. case r of More l s \<Rightarrow> sh_chunk ans is_tty old_tty_mode cs l s | _ \<Rightarrow> Inr r)"

text \<open>\<open>fresh\<close> tells whether a new command begins; an empty or failed read ends the shell.\<close>

fun sh_loop :: "sh_ans \<Rightarrow> bool \<Rightarrow> tty_mode \<Rightarrow> u8 list option list \<Rightarrow> bool \<Rightarrow> u32 \<Rightarrow> sh_line \<Rightarrow> shell \<Rightarrow> shell kres" where
  "sh_loop ans is_tty old_tty_mode [] fresh code l s =
     Inr (if fresh \<and> is_tty then say ans (bytes_of (if code = 0 then ''$> '' else ''!> '')) s else s)"
| "sh_loop ans is_tty old_tty_mode (r # rs) fresh code l s =
     (let s = (if fresh \<and> is_tty then say ans (bytes_of (if code = 0 then ''$> '' else ''!> '')) s else s);
          bs = (case r of None \<Rightarrow> [] | Some bs \<Rightarrow> take 100 bs)
      in if bs = [] then Inr (snd (call ans (Exit 0) s))
         else
           kbind (sh_chunk ans is_tty old_tty_mode bs l s) (\<lambda>x.
             case x of
               More l s \<Rightarrow> sh_loop ans is_tty old_tty_mode rs False code l s
             | Done c l s \<Rightarrow> sh_loop ans is_tty old_tty_mode rs True c l s
             | Stop s \<Rightarrow> Inr s))"

definition sh_start :: "sh_ans \<Rightarrow> bool \<Rightarrow> tty_mode \<Rightarrow> u8 list option list \<Rightarrow> mem \<Rightarrow> shell kres" where
  "sh_start ans is_tty old_tty_mode rs m =
     sh_loop ans is_tty old_tty_mode rs True 0 \<lparr>lbuf = [], llen = 0\<rparr> \<lparr>smem = m, scalls = [Set_tty TTY_MODE_RAW]\<rparr>"

section \<open>Splitting a line into words\<close>

lemma words_shorter:
  assumes "dropWhile (\<lambda>c. c = SPACE) s \<noteq> []"
  shows "length (dropWhile (\<lambda>c. c \<noteq> SPACE) (dropWhile (\<lambda>c. c = SPACE) s)) < length s"
proof -
  obtain c cs where c: "dropWhile (\<lambda>c. c = SPACE) s = c # cs" "c \<noteq> SPACE"
    using assms hd_dropWhile [of "\<lambda>c. c = SPACE" s] by (cases "dropWhile (\<lambda>c. c = SPACE) s") auto
  then show ?thesis
    using length_dropWhile_le [of "\<lambda>c. c = SPACE" s] length_dropWhile_le [of "\<lambda>c. c \<noteq> SPACE" cs] by simp
qed

function words :: "u8 list \<Rightarrow> u8 list list" where
  "words s =
     (let s = dropWhile (\<lambda>c. c = SPACE) s
      in if s = [] then [] else takeWhile (\<lambda>c. c \<noteq> SPACE) s # words (dropWhile (\<lambda>c. c \<noteq> SPACE) s))"
  by pat_completeness auto
termination
  by (relation "measure length") (simp_all add: words_shorter del: dropWhile_eq_Nil_conv)

declare words.simps [simp del]

lemma words_spaces: "words (dropWhile (\<lambda>c. c = SPACE) s) = words s"
  by (subst (1 2) words.simps) simp

lemma words_first:
  assumes "xs \<noteq> []" "hd xs \<noteq> SPACE"
  shows "words xs = takeWhile (\<lambda>c. c \<noteq> SPACE) xs # words (dropWhile (\<lambda>c. c \<noteq> SPACE) xs)"
  using assms by (subst words.simps) (cases xs; simp)

lemma words_Nil [simp]: "words [] = []"
  by (subst words.simps) simp

lemma word_end_str_at: "str_at m p xs \<Longrightarrow> word_end m p = Some (p + of_nat (length (takeWhile (\<lambda>c. c \<noteq> SPACE) xs)))"
proof (induction xs arbitrary: p)
  case Nil
  then show ?case by (subst word_end.simps) simp
next
  case (Cons x xs)
  then show ?case by (subst word_end.simps) (auto simp: add.assoc)
qed

lemma str_at_split: "str_at m p (xs @ ys) \<Longrightarrow> str_at m (p + of_nat (length xs)) ys"
proof (induction xs arbitrary: p)
  case (Cons x xs)
  then show ?case using Cons.IH [of "p + 1"] by (simp add: add.assoc)
qed simp

lemma str_at_prefix:
  assumes "str_at m p (xs @ y # ys)" "length xs < 4294967296"
  shows "str_at (m(p + of_nat (length xs) := 0)) p xs"
proof -
  have "p + of_nat i \<noteq> p + of_nat (length xs)" if "i < length xs" for i
    using that assms(2) by (metis add_left_cancel less_imp_neq order.strict_trans unat_of_nat32)
  moreover have "m (p + of_nat i) = xs ! i \<and> xs ! i \<noteq> 0" if "i < length xs" for i
    using assms(1) that unfolding str_at_nth by (metis length_append nth_append trans_less_add1)
  ultimately show ?thesis by (auto simp: str_at_nth)
qed

lemma str_at_cong: "str_at m p s \<Longrightarrow> (\<And>j. j \<le> length s \<Longrightarrow> m' (p + of_nat j) = m (p + of_nat j)) \<Longrightarrow> str_at m' p s"
  by (auto simp: str_at_nth)

text \<open>The loop keeps the words that are already found and changes nothing outside the string.\<close>

lemma args_loop_words:
  assumes "str_at m p xs" "xs = [] \<or> hd xs \<noteq> SPACE" "unat p + length xs < 4294967296" "length argv \<le> MAX_ARGS"
  shows "\<exists>ps m'. args_loop m p argv = Some (argv @ ps, m') \<and> list_all2 (str_at m') ps (take (MAX_ARGS - length argv) (words xs)) \<and>
    (\<forall>a. unat a < unat p \<or> unat p + length xs \<le> unat a \<longrightarrow> m' a = m a)"
  using assms
proof (induction "length xs" arbitrary: m p xs argv rule: less_induct)
  case less
  show ?case
  proof (cases "xs = [] \<or> length argv = MAX_ARGS")
    case True
    then have "args_loop m p argv = Some (argv, m)" using less.prems(1) by (subst args_loop.simps) auto
    then show ?thesis using True by auto
  next
    case False
    let ?w = "takeWhile (\<lambda>c. c \<noteq> SPACE) xs" and ?r = "dropWhile (\<lambda>c. c \<noteq> SPACE) xs"
    let ?e = "p + of_nat (length ?w)"
    have xs: "xs = ?w @ ?r" by simp
    have m0: "m p \<noteq> 0" using False less.prems(1) by (cases xs) auto
    have w: "words xs = ?w # words ?r" using False less.prems(2) by (intro words_first) auto
    have n: "MAX_ARGS - length argv = Suc (MAX_ARGS - Suc (length argv))" using False less.prems(4) by linarith
    have e: "word_end m p = Some ?e" using word_end_str_at [OF less.prems(1)] .
    have r: "str_at m ?e ?r" using str_at_split [of m p ?w ?r] less.prems(1) by simp
    show ?thesis
    proof (cases ?r)
      case Nil
      then have "m ?e = 0" using r unfolding Nil by simp
      then have "args_loop m p argv = Some (argv @ [p], m)" using m0 e False less.prems(4) by (subst args_loop.simps) (simp add: Let_def)
      moreover have "str_at m p ?w" using less.prems(1) xs unfolding Nil by simp
      ultimately show ?thesis using w n Nil by (intro exI [of _ "[p]"] exI [of _ m]) simp
    next
      case (Cons c cs)
      then have c: "c = SPACE" by (metis (full_types) hd_dropWhile list.distinct(1) list.sel(1))
      let ?m = "m(?e := 0)" and ?ys = "dropWhile (\<lambda>c. c = SPACE) cs"
      have len: "length xs = length ?w + Suc (length cs)" using arg_cong [OF xs, of length] Cons by simp
      have ue: "unat ?e = unat p + length ?w" using less.prems(3) len by (simp add: unat_add32)
      have "str_at ?m (?e + 1) cs"
      proof (rule str_at_cong)
        show "str_at m (?e + 1) cs" using r Cons by simp
        show "?m (?e + 1 + of_nat j) = m (?e + 1 + of_nat j)" if "j \<le> length cs" for j
        proof -
          have "unat (?e + of_nat (1 + j)) = unat ?e + (1 + j)" using that ue len less.prems(3) by (intro unat_add32) simp
          then show ?thesis by (auto simp: add.assoc)
        qed
      qed
      from skip_spaces_str_at [OF this] obtain k where k: "skip_spaces ?m (?e + 1) = Some (?e + 1 + of_nat k)"
        "str_at ?m (?e + 1 + of_nat k) ?ys" "k + length ?ys = length cs" by blast
      let ?q = "?e + 1 + of_nat k"
      have uq: "unat ?q = unat ?e + 1 + k" using unat_add32 [of ?e "1 + k"] ue k(3) len less.prems(3) by (simp add: add.assoc)
      have step: "args_loop m p argv = args_loop ?m ?q (argv @ [p])"
        using m0 e False less.prems(4) r Cons k(1) by (subst args_loop.simps) (simp add: Let_def)
      have "?ys = [] \<or> hd ?ys \<noteq> SPACE" using hd_dropWhile [of "\<lambda>c. c = SPACE" cs] by auto
      then obtain ps m' where ih: "args_loop ?m ?q (argv @ [p]) = Some ((argv @ [p]) @ ps, m')"
        "list_all2 (str_at m') ps (take (MAX_ARGS - length (argv @ [p])) (words ?ys))" "\<forall>a. unat a < unat ?q \<or> unat ?q + length ?ys \<le> unat a \<longrightarrow> m' a = ?m a"
        using less.hyps [of ?ys ?m ?q "argv @ [p]"] k(2,3) len uq ue less.prems(3,4) False by auto
      have "words ?r = words ?ys" using Cons c words_spaces [of ?r] words_spaces [of cs] by simp
      moreover have "str_at m' p ?w"
      proof (rule str_at_cong)
        show "str_at ?m p ?w" using str_at_prefix [of m p ?w c cs] less.prems(1,3) xs Cons len by simp
        show "m' (p + of_nat j) = ?m (p + of_nat j)" if "j \<le> length ?w" for j
          using ih(3) uq ue unat_add32 [of p j] that len less.prems(3) by auto
      qed
      moreover have "m' a = m a" if "unat a < unat p \<or> unat p + length xs \<le> unat a" for a
        using ih(3) [rule_format, of a] that uq ue len k(3) by auto
      ultimately show ?thesis using step ih(1,2) w n by (intro exI [of _ "p # ps"] exI [of _ m']) simp
    qed
  qed
qed

lemma parse_args_words:
  assumes "str_at m p s" "unat p + length s < 4294967296"
  shows "\<exists>ps m'. parse_args m p = Some (ps, m') \<and> list_all2 (str_at m') ps (take MAX_ARGS (words s)) \<and>
    (\<forall>a. unat p + length s \<le> unat a \<longrightarrow> m' a = m a)"
proof -
  obtain k where k: "skip_spaces m p = Some (p + of_nat k)" "str_at m (p + of_nat k) (dropWhile (\<lambda>c. c = SPACE) s)"
    "k + length (dropWhile (\<lambda>c. c = SPACE) s) = length s" using skip_spaces_str_at [OF assms(1)] by blast
  have "dropWhile (\<lambda>c. c = SPACE) s = [] \<or> hd (dropWhile (\<lambda>c. c = SPACE) s) \<noteq> SPACE" using hd_dropWhile [of "\<lambda>c. c = SPACE" s] by auto
  moreover have "unat (p + of_nat k) = unat p + k" using unat_add32 [of p k] k(3) assms(2) by simp
  ultimately show ?thesis using args_loop_words [OF k(2), of "[]"] k(1,3) assms(2) words_spaces [of s] by (auto simp: parse_args_def)
qed

section \<open>The search path\<close>

text \<open>The directories of a search path.\<close>

function dirs :: "u8 list \<Rightarrow> u8 list list" where
  "dirs path =
     (let dir = takeWhile (\<lambda>c. c \<noteq> COLON) path; rest = dropWhile (\<lambda>c. c \<noteq> COLON) path
      in (if dir = [] then [] else [dir]) @ (if rest = [] then [] else dirs (tl rest)))"
  by pat_completeness auto
termination
  by (relation "measure length") (auto simp: rest_shorter simp del: length_tl)

declare dirs.simps [simp del]

text \<open>What trying a list of programs in turn does: the calls that are made and the answer.\<close>

fun try_all :: "sh_ans \<Rightarrow> (u8 list \<Rightarrow> sh_call) \<Rightarrow> u8 list list \<Rightarrow> shell \<Rightarrow> u32 \<times> shell" where
  "try_all ans spawn [] s = (- 1, s)"
| "try_all ans spawn (p # ps) s = (let (pid, s) = call ans (spawn p) s in if 0 \<le>s pid then (pid, s) else try_all ans spawn ps s)"

lemma path_loop_dirs:
  "\<forall>n. can_alloc ans n \<Longrightarrow> path_loop ans spawn filename path s = try_all ans spawn (map (\<lambda>d. d @ SLASH # filename) (dirs path)) s"
proof (induction ans spawn filename path s rule: path_loop.induct)
  case (1 ans spawn filename path s)
  let ?d = "takeWhile (\<lambda>c. c \<noteq> COLON) path" and ?r = "dropWhile (\<lambda>c. c \<noteq> COLON) path"
  show ?case
  proof (cases "?d = []")
    case True
    then show ?thesis using 1(1) [OF refl refl True _ 1(3)] by (subst path_loop.simps, subst dirs.simps) (auto simp: Let_def)
  next
    case False
    obtain pid s' where c: "call ans (spawn (?d @ SLASH # filename)) s = (pid, s')" by force
    have "try_all ans spawn (map (\<lambda>d. d @ SLASH # filename) (dirs path)) s =
      (if 0 \<le>s pid then (pid, s') else try_all ans spawn (map (\<lambda>d. d @ SLASH # filename) (if ?r = [] then [] else dirs (tl ?r))) s')"
      using False c by (subst dirs.simps) (simp add: Let_def)
    moreover have "path_loop ans spawn filename path s =
      (if 0 \<le>s pid then (pid, s') else if ?r = [] then (- 1, s') else path_loop ans spawn filename (tl ?r) s')"
      using False c 1(3) by (subst path_loop.simps) (simp add: Let_def)
    ultimately show ?thesis using 1(2) [OF refl refl False _ c [symmetric]] 1(3) by auto
  qed
qed

section \<open>Running commands\<close>

lemma trailing_split:
  "SPACE \<in> set z \<Longrightarrow> takeWhile (\<lambda>c. c \<noteq> SPACE) (z @ replicate k SPACE) = takeWhile (\<lambda>c. c \<noteq> SPACE) z \<and>
     dropWhile (\<lambda>c. c \<noteq> SPACE) (z @ replicate k SPACE) = dropWhile (\<lambda>c. c \<noteq> SPACE) z @ replicate k SPACE"
  "SPACE \<notin> set z \<Longrightarrow> takeWhile (\<lambda>c. c \<noteq> SPACE) (z @ replicate k SPACE) = z \<and> takeWhile (\<lambda>c. c \<noteq> SPACE) z = z \<and>
     dropWhile (\<lambda>c. c \<noteq> SPACE) (z @ replicate k SPACE) = replicate k SPACE \<and> dropWhile (\<lambda>c. c \<noteq> SPACE) z = []"
  by (induction z) (cases k; auto)+

lemma words_trailing: "words (xs @ replicate k SPACE) = words xs"
proof (induction xs rule: words.induct)
  case (1 xs)
  let ?z = "dropWhile (\<lambda>c. c = SPACE) xs" and ?sp = "replicate k SPACE"
  have sp: "dropWhile (\<lambda>c. c = SPACE) ?sp = []" "words ?sp = []" by (simp, subst words.simps) simp_all
  show ?case
  proof (cases "?z = []")
    case True
    then have "dropWhile (\<lambda>c. c = SPACE) (xs @ ?sp) = []" by auto
    then have "words (xs @ ?sp) = []" by (subst words.simps) (simp add: Let_def)
    moreover have "words xs = []" using True by (subst words.simps) (simp add: Let_def)
    ultimately show ?thesis by simp
  next
    case False
    then have d: "dropWhile (\<lambda>c. c = SPACE) (xs @ ?sp) = ?z @ ?sp" by (auto simp: dropWhile_append)
    have w: "words (xs @ ?sp) = takeWhile (\<lambda>c. c \<noteq> SPACE) (?z @ ?sp) # words (dropWhile (\<lambda>c. c \<noteq> SPACE) (?z @ ?sp))"
      by (subst words.simps) (simp only: Let_def d append_is_Nil_conv False simp_thms if_False)
    have v: "words xs = takeWhile (\<lambda>c. c \<noteq> SPACE) ?z # words (dropWhile (\<lambda>c. c \<noteq> SPACE) ?z)"
      by (subst words.simps) (simp only: Let_def False simp_thms if_False)
    show ?thesis
    proof (cases "SPACE \<in> set ?z")
      case True
      show ?thesis unfolding w v by (simp only: trailing_split(1) [OF True] 1 [OF refl False])
    next
      case no: False
      show ?thesis unfolding w v by (simp only: trailing_split(2) [OF no] sp(2) words_Nil)
    qed
  qed
qed

lemma words_strip: "words (strip xs) = words xs"
proof -
  let ?y = "dropWhile (\<lambda>c. c = SPACE) xs"
  have "rev (takeWhile (\<lambda>c. c = SPACE) (rev ?y)) = replicate (length (takeWhile (\<lambda>c. c = SPACE) (rev ?y))) SPACE"
    by (intro replicate_eqI) (auto dest: set_takeWhileD)
  then obtain k where k: "rev (takeWhile (\<lambda>c. c = SPACE) (rev ?y)) = replicate k SPACE" by blast
  have "?y = strip xs @ rev (takeWhile (\<lambda>c. c = SPACE) (rev ?y))"
    unfolding strip_def by (metis rev_append rev_rev_ident takeWhile_dropWhile_id)
  then have "words ?y = words (strip xs)" using words_trailing k by metis
  then show ?thesis using words_spaces by metis
qed

lemma is_prefix_str_at: "str_at m p t \<Longrightarrow> 0 \<notin> set pre \<Longrightarrow> is_prefix m p pre \<longleftrightarrow> take (length pre) t = pre"
proof (induction pre arbitrary: p t)
  case (Cons c cs)
  then show ?case by (cases t) auto
qed simp

lemma contains_pipe_str_at: "str_at m p t \<Longrightarrow> contains_pipe m p = Some (PIPE \<in> set t)"
proof (induction t arbitrary: p)
  case Nil
  then show ?case by (subst contains_pipe.simps) simp
next
  case (Cons c t)
  then show ?case by (subst contains_pipe.simps) auto
qed

lemma kmap_cstr: "list_all2 (str_at m) ps ws \<Longrightarrow> kmap (\<lambda>p. kwait (cstr m p)) ps = Inr ws"
  by (induction rule: list_all2_induct) (simp_all add: cstr_str_at)

definition program_path :: "u8 list \<Rightarrow> u8 list" where
  "program_path name = (if name \<noteq> [] \<and> (hd name = 126 \<or> hd name = 46) then name else env_path @ SLASH # name)"

lemma sle_zero: "0 \<le>s (x :: u32) \<longleftrightarrow> \<not> x <s 0"
  by (simp add: word_sle_eq word_sless_alt not_less)

lemma env_path_dirs: "dirs env_path = [env_path]" "env_path \<noteq> []"
  by (subst dirs.simps) (simp_all add: env_path_def bytes_of_def)

text \<open>With the search path of the program exactly one file is tried.\<close>

lemma run_once:
  assumes "list_all2 (str_at (smem s)) ps ws" "ws \<noteq> []" "\<forall>n. can_alloc ans n"
  shows "\<exists>r. run ans ps cmds s = Inr (r, s\<lparr>scalls := scalls s @ [Spawn (program_path (hd ws)) ws cmds]\<rparr>) \<and>
    (let pid = answer ans (length (scalls s)) in if pid <s 0 then r <s 0 else r = pid)"
proof -
  have ps: "ps \<noteq> []" using assms by auto
  have "run ans ps cmds s = Inr (spawn_with_path ans (Some env_path) (hd ws) ws cmds s)"
    using ps kmap_cstr [OF assms(1)] by (simp add: run_def)
  then show ?thesis
    using env_path_dirs by (auto simp: spawn_with_path_def program_path_def path_loop_dirs [OF assms(3)] call_def Let_def sle_zero word_sless_alt)
qed

lemma take_words: "words t \<noteq> [] \<Longrightarrow> take MAX_ARGS (words t) \<noteq> []"
  by (cases "words t") simp_all

lemma list_all2_hd: "list_all2 P xs ys \<Longrightarrow> ys \<noteq> [] \<Longrightarrow> P (hd xs) (hd ys)"
  by (cases xs; cases ys) auto

definition simple_line :: "u8 list \<Rightarrow> bool" where
  "simple_line t \<longleftrightarrow> take 3 t \<noteq> bytes_of ''cd '' \<and> t \<noteq> bytes_of ''exit''"

definition command_calls :: "sh_ans \<Rightarrow> nat \<Rightarrow> u8 list list \<Rightarrow> sh_call list" where
  "command_calls ans n ws =
     (let pid = answer ans n
      in Spawn (program_path (hd ws)) ws [] #
         (if pid <s 0 then [Puts (bytes_of ''Unable to spawn process ''), Puts (hd ws), Puts (bytes_of ''.'' @ [NEWLINE])]
          else [Set_tty TTY_MODE_COOKED, Wait pid, Set_tty TTY_MODE_RAW]))"

lemma not_cd:
  assumes "str_at m buf t" "simple_line t"
  shows "\<not> is_prefix m buf (bytes_of ''cd '')"
proof -
  have "length (bytes_of ''cd '') = 3" "0 \<notin> set (bytes_of ''cd '')" by (simp_all add: bytes_of_def)
  then show ?thesis using is_prefix_str_at [OF assms(1), of "bytes_of ''cd ''"] assms(2) by (simp add: simple_line_def)
qed

lemma process_simple:
  assumes "str_at (smem s) buf t" "unat buf + length t < 4294967296" "simple_line t" "PIPE \<notin> set t" "words t \<noteq> []"
    and "ws = take MAX_ARGS (words t)" "n = length (scalls s)" and mem: "\<forall>n. can_alloc ans n"
  shows "\<exists>s'. process_cmd ans buf s = Inr (Some (if answer ans n <s 0 then - 1 else answer ans (n + 2)), s') \<and>
    scalls s' = scalls s @ command_calls ans n ws"
proof -
  have pre: "\<not> is_prefix (smem s) buf (bytes_of ''cd '')"
    by (rule not_cd [OF assms(1,3)])
  have b: "cstr (smem s) buf = Some t" "t \<noteq> bytes_of ''exit''" using assms(1,3) by (simp_all add: cstr_str_at simple_line_def)
  obtain ps m' where p: "parse_args (smem s) buf = Some (ps, m')" "list_all2 (str_at m') ps ws"
    using parse_args_words [OF assms(1,2)] assms(6) by blast
  have ws: "ws \<noteq> []" using take_words [OF assms(5)] assms(6) by simp
  then have ps: "ps \<noteq> []" using p(2) by auto
  let ?s = "s\<lparr>smem := m'\<rparr>"
  have "list_all2 (str_at (smem ?s)) ps ws" using p(2) by simp
  from run_once [OF this ws mem, of "[]"] obtain r where
    r: "run ans ps [] ?s = Inr (r, ?s\<lparr>scalls := scalls s @ [Spawn (program_path (hd ws)) ws []]\<rparr>)"
    "if answer ans n <s 0 then r <s 0 else r = answer ans n" using assms(7) by (auto simp: Let_def)
  have hd: "cstr m' (hd ps) = Some (hd ws)" using list_all2_hd [OF p(2) ws] by (simp add: cstr_str_at)
  show ?thesis
    using pre b contains_pipe_str_at [OF assms(1)] assms(4,7) p(1) ps r hd
    by (simp add: process_cmd_def Let_def wait_for_def call_def command_calls_def split: if_splits)
qed

definition pipeline_calls :: "sh_ans \<Rightarrow> nat \<Rightarrow> u8 list list \<Rightarrow> u8 list list \<Rightarrow> sh_call list" where
  "pipeline_calls ans n ws vs =
     (let (read_fd, write_fd) = pipe_fds ans n
      in [Pipe, Spawn (program_path (hd ws)) ws [(write_fd, 0)], Spawn (program_path (hd vs)) vs [(read_fd, 1)], Close read_fd, Close write_fd,
          Set_tty TTY_MODE_COOKED, Wait (answer ans (n + 1)), Wait (answer ans (n + 2)), Set_tty TTY_MODE_RAW])"

lemma trim_words:
  assumes "str_at m p t" "unat p + length t < 4294967296"
  shows "\<exists>q m' t'. trim m p = Some (q, m') \<and> str_at m' p t' \<and> length t' \<le> length t \<and> words t' = words t \<and>
    (\<forall>a. unat a < unat p \<or> unat p + length t \<le> unat a \<longrightarrow> m' a = m a)"
proof -
  obtain n m' where t: "trim m p = Some (p + of_nat n, m')" "str_at m' (p + of_nat n) (strip t)"
    "n + length (dropWhile (\<lambda>x. x = SPACE) t) = length t" "\<forall>a. length t \<le> unat (a - p) \<longrightarrow> m' a = m a" "\<forall>j < n. m' (p + of_nat j) = m (p + of_nat j)"
    using trim_in_place [OF assms] by blast
  let ?sp = "takeWhile (\<lambda>x. x = SPACE) t"
  have "length ?sp + length (dropWhile (\<lambda>x. x = SPACE) t) = length t" by (metis length_append takeWhile_dropWhile_id)
  then have n: "length ?sp = n" using t(3) by linarith
  have "m' (p + of_nat j) = ?sp ! j \<and> ?sp ! j \<noteq> 0" if "j < n" for j
    using t(5) that assms(1) n takeWhile_nth [of j "\<lambda>x. x = SPACE" t] length_takeWhile_le [of "\<lambda>x. x = SPACE" t] by (auto simp: str_at_nth)
  then have "str_at m' p (?sp @ strip t)" using t(2) n by (simp add: str_at_append)
  moreover have "length (strip t) \<le> length (dropWhile (\<lambda>x. x = SPACE) t)"
    unfolding strip_def by (metis length_dropWhile_le length_rev)
  moreover have "dropWhile (\<lambda>c. c = SPACE) (?sp @ strip t) = dropWhile (\<lambda>c. c = SPACE) (strip t)"
    by (auto simp: dropWhile_append dest: set_takeWhileD)
  then have "words (?sp @ strip t) = words t" using words_spaces words_strip by metis
  moreover have "m' a = m a" if "unat a < unat p \<or> unat p + length t \<le> unat a" for a
  proof -
    have "length t \<le> unat (a - p)" using that assms(2) by (auto simp: unat_sub_if' word_size)
    then show ?thesis using t(4) by blast
  qed
  ultimately show ?thesis using t(1,3) n by (intro exI [of _ "p + of_nat n"] exI [of _ m'] exI [of _ "?sp @ strip t"]) simp
qed

lemma takeWhile_before: "x \<notin> set xs \<Longrightarrow> takeWhile (\<lambda>y. y \<noteq> x) (xs @ x # ys) = xs"
  by (induction xs) auto

lemma process_pipeline:
  assumes "str_at (smem s) buf (a @ PIPE # b)" "unat buf + length (a @ PIPE # b) < 4294967296" "simple_line (a @ PIPE # b)" "PIPE \<notin> set a"
    and "words a \<noteq> []" "words b \<noteq> []" "ws = take MAX_ARGS (words a)" "vs = take MAX_ARGS (words b)" "n = length (scalls s)" and mem: "\<forall>n. can_alloc ans n"
    and "\<not> answer ans n <s 0" "\<not> answer ans (n + 1) <s 0" "\<not> answer ans (n + 2) <s 0"
  shows "\<exists>s'. process_cmd ans buf s = Inr (Some (answer ans (n + 7)), s') \<and> scalls s' = scalls s @ pipeline_calls ans n ws vs"
proof -
  let ?m = "smem s" and ?pos = "buf + of_nat (length a)"
  let ?q = "?pos + 1" and ?m1 = "(smem s)(buf + of_nat (length a) := 0)"
  note pre = not_cd [OF assms(1,3)]
  have b: "cstr ?m buf = Some (a @ PIPE # b)" "a @ PIPE # b \<noteq> bytes_of ''exit''" using assms(1,3) by (simp_all add: cstr_str_at simple_line_def)
  have c: "contains_pipe ?m buf = Some True" using contains_pipe_str_at [OF assms(1)] by simp
  have pos: "strchr ?m buf (ucast PIPE) = Some ?pos"
    using strchr_loop_str_at [OF assms(1), of PIPE] takeWhile_before [OF assms(4), of b] by (simp add: strchr_def)
  have upos: "unat ?pos = unat buf + length a" "unat ?q = unat buf + length a + 1"
    using unat_add32 [of buf "length a"] unat_add32 [of buf "length a + 1"] assms(2) by (simp_all add: add_ac)
  have sa: "str_at ?m1 buf a" using str_at_prefix [OF assms(1)] assms(2) by simp
  have "str_at ?m ?q b" using str_at_split [OF assms(1)] by simp
  then have sb: "str_at ?m1 ?q b"
  proof (rule str_at_cong)
    show "?m1 (?q + of_nat j) = ?m (?q + of_nat j)" if "j \<le> length b" for j
    proof -
      have "unat (?q + of_nat j) = unat ?q + j" using that upos assms(2) by (intro unat_add32) simp
      then have "?q + of_nat j \<noteq> ?pos" using upos by (intro notI) (drule arg_cong [where f = unat], linarith)
      then show ?thesis by simp
    qed
  qed
  obtain x1 m2 a' where t1: "trim ?m1 buf = Some (x1, m2)" "str_at m2 buf a'" "length a' \<le> length a" "words a' = words a"
    "\<forall>y. unat y < unat buf \<or> unat buf + length a \<le> unat y \<longrightarrow> m2 y = ?m1 y"
    using trim_words [OF sa] assms(2) by auto
  have "str_at m2 ?q b" using sb
  proof (rule str_at_cong)
    show "m2 (?q + of_nat j) = ?m1 (?q + of_nat j)" if "j \<le> length b" for j
      using unat_add32 [of ?q j] upos that assms(2) t1(5) by auto
  qed
  from trim_words [OF this] obtain x2 m3 b' where t2: "trim m2 ?q = Some (x2, m3)" "str_at m3 ?q b'" "length b' \<le> length b" "words b' = words b"
    "\<forall>y. unat y < unat ?q \<or> unat ?q + length b \<le> unat y \<longrightarrow> m3 y = m2 y" using upos assms(2) by auto
  have "str_at m3 buf a'" using t1(2)
  proof (rule str_at_cong)
    show "m3 (buf + of_nat j) = m2 (buf + of_nat j)" if "j \<le> length a'" for j
      using unat_add32 [of buf j] upos that assms(2) t2(5) t1(3) by auto
  qed
  from parse_args_words [OF this] obtain ps m4 where p1: "parse_args m3 buf = Some (ps, m4)" "list_all2 (str_at m4) ps ws"
    "\<forall>y. unat buf + length a' \<le> unat y \<longrightarrow> m4 y = m3 y" using t1(3,4) assms(2,7) by auto
  have "str_at m4 ?q b'" using t2(2)
  proof (rule str_at_cong)
    show "m4 (?q + of_nat j) = m3 (?q + of_nat j)" if "j \<le> length b'" for j
      using unat_add32 [of ?q j] upos that assms(2) t2(3) t1(3) p1(3) by auto
  qed
  from parse_args_words [OF this] obtain qs m5 where p2: "parse_args m4 ?q = Some (qs, m5)" "list_all2 (str_at m5) qs vs"
    using t2(3,4) upos assms(2,8) by auto
  have ne: "ws \<noteq> []" "vs \<noteq> []" using take_words assms(5-8) by auto
  obtain rf wf where fds: "pipe_fds ans n = (rf, wf)" by force
  let ?s1 = "s\<lparr>scalls := scalls s @ [Pipe], smem := m4\<rparr>"
  have "list_all2 (str_at (smem ?s1)) ps ws" using p1(2) by simp
  from run_once [OF this ne(1) mem, of "[(wf, 0)]"] have r1: "run ans ps [(wf, 0)] ?s1 =
      Inr (answer ans (n + 1), ?s1\<lparr>scalls := scalls s @ [Pipe, Spawn (program_path (hd ws)) ws [(wf, 0)]]\<rparr>)"
    using assms(9,12) by (auto simp: Let_def)
  let ?s2 = "s\<lparr>scalls := scalls s @ [Pipe, Spawn (program_path (hd ws)) ws [(wf, 0)]], smem := m5\<rparr>"
  have "list_all2 (str_at (smem ?s2)) qs vs" using p2(2) by simp
  from run_once [OF this ne(2) mem, of "[(rf, 1)]"] have r2: "run ans qs [(rf, 1)] ?s2 =
      Inr (answer ans (n + 2), ?s2\<lparr>scalls := scalls s @ [Pipe, Spawn (program_path (hd ws)) ws [(wf, 0)], Spawn (program_path (hd vs)) vs [(rf, 1)]]\<rparr>)"
    using assms(9,13) by (auto simp: Let_def)
  show ?thesis
    using pre b c pos t1(1) t2(1) fds assms(9,11-13) p1(1) p2(1) r1 r2
    by (simp add: process_cmd_def Let_def wait_for_def call_def pipeline_calls_def eval_nat_numeral)
qed

section \<open>Typing a line\<close>

text \<open>What a sequence of keys makes of an empty line.\<close>

fun type_key :: "u8 \<Rightarrow> u8 list \<Rightarrow> u8 list" where
  "type_key c t = (if c = 8 \<or> c = 127 then butlast t else t @ [c])"

definition line_holds :: "nat \<Rightarrow> sh_line \<Rightarrow> u8 list \<Rightarrow> bool" where
  "line_holds B l t \<longleftrightarrow> llen l = length t \<and> length t \<le> length (lbuf l) \<and> take (length t) (lbuf l) = t \<and> length (lbuf l) \<le> B"

lemma grow_cap_total:
  assumes "0 < c" "c \<le> max 64 (2 * n)"
  shows "\<exists>k. grow_cap c n = Some k \<and> n < k \<and> c \<le> k \<and> k \<le> max 64 (2 * n)"
  using assms
proof (induction "Suc n - c" arbitrary: c rule: less_induct)
  case less
  show ?case
  proof (cases "c \<le> n")
    case True
    then have "Suc n - c * 2 < Suc n - c" "0 < c * 2" "c * 2 \<le> max 64 (2 * n)" using less.prems(1) by linarith+
    from less.hyps [OF this] obtain k where "grow_cap (c * 2) n = Some k" "n < k" "c * 2 \<le> k" "k \<le> max 64 (2 * n)" by blast
    then show ?thesis using True by (subst grow_cap.simps) simp
  next
    case False
    then show ?thesis using less.prems by (subst grow_cap.simps) simp
  qed
qed

lemma sh_char_holds:
  assumes "line_holds B l t" "\<forall>n. can_alloc ans n" "64 \<le> B" "2 * (length t + 1) \<le> B"
  shows "\<exists>l' es. sh_char ans is_tty old c l s = Inr (More l' (s\<lparr>scalls := scalls s @ map Puts es\<rparr>)) \<and> line_holds B l' (t @ [c])"
proof -
  let ?n = "length t + 1" and ?c = "if length (lbuf l) \<noteq> 0 then length (lbuf l) * 2 else 64"
  obtain b where b: "(if llen l + 1 \<ge> length (lbuf l) then
      kbind (kwait (grow_cap ?c (llen l + 1))) (\<lambda>new_cap.
        Inr (if can_alloc ans new_cap then Some (lbuf l @ replicate (new_cap - length (lbuf l)) (junk ans)) else None))
      else Inr (Some (lbuf l))) = Inr (Some b)" "length t < length b" "length b \<le> B" "take (length t) b = t"
  proof (cases "llen l + 1 \<ge> length (lbuf l)")
    case True
    then have "0 < ?c" "?c \<le> max 64 (2 * ?n)" using assms(1) by (auto simp: line_holds_def)
    from grow_cap_total [OF this] obtain k where "grow_cap ?c ?n = Some k" "?n < k" "?c \<le> k" "k \<le> max 64 (2 * ?n)" by blast
    then show thesis using that [of "lbuf l @ replicate (k - length (lbuf l)) (junk ans)"] True assms by (auto simp: line_holds_def split: if_splits)
  next
    case False
    then show thesis using that [of "lbuf l"] assms(1) by (auto simp: line_holds_def)
  qed
  have "take (length t) (b[length t := c]) = t" using b(4) by simp
  then have "take (length (t @ [c])) (b[length t := c]) = t @ [c]" using b(2) by (simp add: take_Suc_conv_app_nth)
  then have "line_holds B \<lparr>lbuf = b[length t := c], llen = length t + 1\<rparr> (t @ [c])" using b(2,3) by (simp add: line_holds_def)
  moreover have "sh_char ans is_tty old c l s = Inr (More \<lparr>lbuf = b[length t := c], llen = length t + 1\<rparr>
      (s\<lparr>scalls := scalls s @ map Puts (if is_tty then [if c = 0 then [] else [c]] else [])\<rparr>))"
    using b(1,2) assms(1) unfolding sh_char_def b(1) by (simp add: line_holds_def call_def)
  ultimately show ?thesis by blast
qed

lemma sh_key_holds:
  assumes "line_holds B l t" "\<forall>n. can_alloc ans n" "64 \<le> B" "2 * (length t + 1) \<le> B" "c \<noteq> NEWLINE"
  shows "\<exists>l' es. sh_key ans is_tty old c l s = Inr (More l' (s\<lparr>scalls := scalls s @ map Puts es\<rparr>)) \<and> line_holds B l' (type_key c t)"
proof (cases "c = 8 \<or> c = 127")
  case True
  show ?thesis
  proof (cases t rule: rev_cases)
    case Nil
    then show ?thesis using True assms(1,5) by (intro exI [of _ l] exI [of _ "[]"]) (auto simp: sh_key_def line_holds_def)
  next
    case (snoc u x)
    have "take (length u) (take (length t) (lbuf l)) = take (length u) t" using assms(1) by (simp add: line_holds_def)
    then have "take (length u) (lbuf l) = u" using snoc by (simp add: min_def)
    then have "line_holds B (l\<lparr>llen := llen l - 1\<rparr>) u" using assms(1) snoc by (simp add: line_holds_def)
    then show ?thesis using True assms(1,5) snoc
      by (intro exI [of _ "l\<lparr>llen := llen l - 1\<rparr>"] exI [of _ "if is_tty then [[8]] else []"]) (auto simp: sh_key_def call_def line_holds_def)
  qed
next
  case False
  then show ?thesis using sh_char_holds [OF assms(1-4), of is_tty old c s] assms(5) by (simp add: sh_key_def)
qed

lemma length_typed: "length (fold type_key ks t) \<le> length t + length ks"
proof (induction ks arbitrary: t)
  case (Cons c ks)
  have "length (type_key c t) \<le> Suc (length t)" by auto
  then show ?case using Cons.IH [of "type_key c t"] by (simp del: type_key.simps)
qed simp

lemma sh_chunk_keys:
  assumes "line_holds B l t" "\<forall>n. can_alloc ans n" "64 \<le> B" "2 * (length t + length ks + 1) \<le> B" "NEWLINE \<notin> set ks"
  shows "\<exists>l' es. sh_chunk ans is_tty old (ks @ rest) l s = sh_chunk ans is_tty old rest l' (s\<lparr>scalls := scalls s @ map Puts es\<rparr>) \<and>
    line_holds B l' (fold type_key ks t)"
  using assms
proof (induction ks arbitrary: l t s)
  case Nil
  then show ?case by (intro exI [of _ l] exI [of _ "[]"]) simp
next
  case (Cons c ks)
  obtain l1 es where k: "sh_key ans is_tty old c l s = Inr (More l1 (s\<lparr>scalls := scalls s @ map Puts es\<rparr>))" "line_holds B l1 (type_key c t)"
    using sh_key_holds [OF Cons.prems(1-3), of c is_tty old s] Cons.prems(4,5) by auto
  have "length (type_key c t) \<le> Suc (length t)" by auto
  then obtain l2 es2 where "sh_chunk ans is_tty old (ks @ rest) l1 (s\<lparr>scalls := scalls s @ map Puts es\<rparr>) =
      sh_chunk ans is_tty old rest l2 (s\<lparr>scalls := (scalls s @ map Puts es) @ map Puts es2\<rparr>)" "line_holds B l2 (fold type_key ks (type_key c t))"
    using Cons.IH [OF k(2) Cons.prems(2,3), of "s\<lparr>scalls := scalls s @ map Puts es\<rparr>"] Cons.prems(4,5) by (auto simp del: type_key.simps)
  then show ?case using k(1) by (intro exI [of _ l2] exI [of _ "es @ es2"]) (simp del: type_key.simps)
qed

text \<open>A complete line is stored as a string and handed to \<^verbatim>\<open>process_cmd\<close>.\<close>

lemma sh_newline_holds:
  assumes "line_holds B l t" "\<forall>n. can_alloc ans n" "0 \<notin> set t" "B < 4294967295"
  shows "\<exists>b es. str_at (put_bytes b (line_addr ans) (smem s)) (line_addr ans) t \<and> sh_newline ans is_tty old l s =
    kbind (process_cmd ans (line_addr ans) (s\<lparr>scalls := scalls s @ map Puts es, smem := put_bytes b (line_addr ans) (smem s)\<rparr>)) (finish_line ans (length b))"
proof -
  let ?b0 = "if length (lbuf l) = llen l then lbuf l @ [junk ans] else lbuf l"
  let ?b = "?b0[length t := 0]" and ?es = "if is_tty then [[NEWLINE]] else []"
  have h: "length t < length ?b0" "length ?b0 \<le> B + 1" "take (length t) ?b0 = t" "llen l = length t" using assms(1) by (auto simp: line_holds_def)
  have "put_bytes ?b p m (p + of_nat j) = ?b ! j" if "j \<le> length t" for p m j
    using that h(1,2) assms(4) by (simp add: put_bytes_eq upd_range_at)
  moreover have "?b ! j = t ! j \<and> t ! j \<noteq> 0" if "j < length t" for j
  proof -
    have "?b ! j = take (length t) ?b0 ! j" using that by simp
    then show ?thesis using that h(3) assms(3) by (metis nth_mem)
  qed
  ultimately have "str_at (put_bytes ?b (line_addr ans) (smem s)) (line_addr ans) t" using h(1) by (simp add: str_at_nth)
  moreover have "sh_newline ans is_tty old l s = kbind (process_cmd ans (line_addr ans)
      (s\<lparr>scalls := scalls s @ map Puts ?es, smem := put_bytes ?b (line_addr ans) (smem s)\<rparr>)) (finish_line ans (length ?b))"
    using h(1,4) assms(2) by (cases is_tty; cases s) (simp_all add: sh_newline_def Let_def call_def)
  ultimately show ?thesis by (intro exI [of _ ?b] exI [of _ ?es]) simp
qed

lemma finish_line_done:
  "kbind (kbind m (finish_line ans n)) (\<lambda>r. case r of More l s \<Rightarrow> f l s | _ \<Rightarrow> Inr r) = kbind m (finish_line ans n)"
proof (cases m)
  case (Inr p)
  then show ?thesis by (cases p; cases "fst p") auto
qed simp

lemma sh_line_processed:
  assumes "line_holds B l []" "64 \<le> B" "2 * (length ks + 1) \<le> B" "B < 4294967295" "\<forall>n. can_alloc ans n" "NEWLINE \<notin> set ks"
    and "t = fold type_key ks []" "0 \<notin> set t"
  shows "\<exists>es n s2. str_at (smem s2) (line_addr ans) t \<and> scalls s2 = scalls s @ map Puts es \<and>
    sh_chunk ans is_tty old (ks @ NEWLINE # rest) l s = kbind (process_cmd ans (line_addr ans) s2) (finish_line ans n)"
proof -
  obtain l1 es where k: "sh_chunk ans is_tty old (ks @ NEWLINE # rest) l s =
      sh_chunk ans is_tty old (NEWLINE # rest) l1 (s\<lparr>scalls := scalls s @ map Puts es\<rparr>)" "line_holds B l1 t"
    using sh_chunk_keys [OF assms(1,5,2), of ks is_tty old "NEWLINE # rest" s] assms(3,6,7) by auto
  let ?s = "s\<lparr>scalls := scalls s @ map Puts es\<rparr>"
  obtain b es2 where nl: "str_at (put_bytes b (line_addr ans) (smem ?s)) (line_addr ans) t" "sh_newline ans is_tty old l1 ?s =
    kbind (process_cmd ans (line_addr ans) (?s\<lparr>scalls := scalls ?s @ map Puts es2, smem := put_bytes b (line_addr ans) (smem ?s)\<rparr>)) (finish_line ans (length b))"
    using sh_newline_holds [OF k(2) assms(5,8,4)] by blast
  let ?s2 = "?s\<lparr>scalls := scalls ?s @ map Puts es2, smem := put_bytes b (line_addr ans) (smem ?s)\<rparr>"
  have "str_at (smem ?s2) (line_addr ans) t" using nl(1) by simp
  moreover have "scalls ?s2 = scalls s @ map Puts (es @ es2)" by simp
  moreover have "sh_chunk ans is_tty old (ks @ NEWLINE # rest) l s = kbind (sh_newline ans is_tty old l1 ?s)
      (\<lambda>r. case r of More l s \<Rightarrow> sh_chunk ans is_tty old rest l s | _ \<Rightarrow> Inr r)" using k(1) by (simp add: sh_key_def)
  then have "sh_chunk ans is_tty old (ks @ NEWLINE # rest) l s = kbind (process_cmd ans (line_addr ans) ?s2) (finish_line ans (length b))"
    unfolding nl(2) by (rule trans) (rule finish_line_done)
  ultimately show ?thesis by blast
qed

text \<open>
  C29: a command typed at the shell. The keys typed up to the end of the line, with backspaces taking back what was typed before them, make
  a line; if it is not \<^verbatim>\<open>cd\<close> or \<^verbatim>\<open>exit\<close>, has a word and no pipe, the shell tries to start exactly one program, the
  one named by the first word (found in the search path unless it starts with a tilde or a dot), with the first 16 words as its arguments.
  If it starts, the shell makes the terminal cooked, waits for it, makes the terminal raw again and keeps its exit code; if not, it says so.
  The line is taken to arrive in one read, at whatever length; the shell's loop asks for at most 100 bytes at a time.
\<close>

theorem shell_runs_command:
  assumes "line_holds B l []" "64 \<le> B" "2 * (length ks + 1) \<le> B" "B < 4294967295" "\<forall>n. can_alloc ans n" "NEWLINE \<notin> set ks"
    and "t = fold type_key ks []" "0 \<notin> set t" "simple_line t" "PIPE \<notin> set t" "words t \<noteq> []" "unat (line_addr ans) + length t < 4294967296"
  shows "\<exists>es l' s' n. sh_chunk ans is_tty old (ks @ NEWLINE # rest) l s =
      Inr (Done (if answer ans n <s 0 then - 1 else answer ans (n + 2)) l' s') \<and>
    n = length (scalls s) + length es \<and> scalls s' = scalls s @ map Puts es @ command_calls ans n (take MAX_ARGS (words t))"
proof -
  obtain es k s2 where p: "str_at (smem s2) (line_addr ans) t" "scalls s2 = scalls s @ map Puts es"
    "sh_chunk ans is_tty old (ks @ NEWLINE # rest) l s = kbind (process_cmd ans (line_addr ans) s2) (finish_line ans k)"
    using sh_line_processed [OF assms(1-8)] by metis
  from process_simple [OF p(1) assms(12,9-11) refl refl assms(5)] obtain s' where
    "process_cmd ans (line_addr ans) s2 = Inr (Some (if answer ans (length (scalls s2)) <s 0 then - 1 else answer ans (length (scalls s2) + 2)), s')"
    "scalls s' = scalls s2 @ command_calls ans (length (scalls s2)) (take MAX_ARGS (words t))" by blast
  then show ?thesis using p(2,3) by (intro exI [of _ es] exI [of _ s'] exI [of _ "length (scalls s2)"] exI conjI) simp_all
qed

text \<open>
  C30: a pipeline typed at the shell. If the line has a pipe with a word on each side, and the pipe and the two programs can be made, the shell
  makes the pipe, starts the program on the left with the write end as its output and the one on the right with the read end as its
  input, each with its first 16 words, closes both ends, and waits for both; the exit code is that of the program on the right.
  As before the line is taken to arrive in one read.
\<close>

theorem shell_runs_pipeline:
  assumes "line_holds B l []" "64 \<le> B" "2 * (length ks + 1) \<le> B" "B < 4294967295" "\<forall>n. can_alloc ans n" "NEWLINE \<notin> set ks"
    and "u @ PIPE # v = fold type_key ks []" "0 \<notin> set (u @ PIPE # v)" "simple_line (u @ PIPE # v)" "PIPE \<notin> set u"
    and "words u \<noteq> []" "words v \<noteq> []" "unat (line_addr ans) + length (u @ PIPE # v) < 4294967296" "\<forall>n. \<not> answer ans n <s 0"
  shows "\<exists>es l' s' n. sh_chunk ans is_tty old (ks @ NEWLINE # rest) l s = Inr (Done (answer ans (n + 7)) l' s') \<and>
    n = length (scalls s) + length es \<and>
    scalls s' = scalls s @ map Puts es @ pipeline_calls ans n (take MAX_ARGS (words u)) (take MAX_ARGS (words v))"
proof -
  obtain es k s2 where p: "str_at (smem s2) (line_addr ans) (u @ PIPE # v)" "scalls s2 = scalls s @ map Puts es"
    "sh_chunk ans is_tty old (ks @ NEWLINE # rest) l s = kbind (process_cmd ans (line_addr ans) s2) (finish_line ans k)"
    using sh_line_processed [OF assms(1-8)] by metis
  from process_pipeline [OF p(1) assms(13,9-12) refl refl refl assms(5)] assms(14) obtain s' where
    "process_cmd ans (line_addr ans) s2 = Inr (Some (answer ans (length (scalls s2) + 7)), s')"
    "scalls s' = scalls s2 @ pipeline_calls ans (length (scalls s2)) (take MAX_ARGS (words u)) (take MAX_ARGS (words v))" by blast
  then show ?thesis using p(2,3) by (intro exI [of _ es] exI [of _ s'] exI [of _ "length (scalls s2)"] exI conjI) simp_all
qed

text \<open>Keys and answers for an example: \<^verbatim>\<open>ls\<close> typed with a slip, and a pipeline.\<close>

definition shell_demo :: sh_ans where
  "shell_demo = \<lparr>answer = (\<lambda>_. 5), pipe_fds = (\<lambda>_. (3, 4)), line_addr = 0x80001000, can_alloc = (\<lambda>_. True), junk = 0\<rparr>"

lemma shell_demo_sel: "answer shell_demo n = 5" "line_addr shell_demo = 0x80001000" "can_alloc shell_demo n" "\<not> (5::u32) <s 0"
  by (simp_all add: shell_demo_def word_sless_alt)

lemma words_demo: "words (bytes_of ''ls -a'') = [bytes_of ''ls'', bytes_of ''-a'']" "words (bytes_of ''ls '') = [bytes_of ''ls'']"
  "words (bytes_of '' wc'') = [bytes_of ''wc'']"
  by (simp_all add: words.simps bytes_of_def)

theorem shell_runs_command_witness:
  "\<exists>es l' s'. sh_chunk shell_demo True TTY_MODE_RAW (bytes_of ''lx'' @ [8] @ bytes_of ''s -a'' @ [NEWLINE]) \<lparr>lbuf = [], llen = 0\<rparr> \<lparr>smem = (\<lambda>_. 0), scalls = []\<rparr> =
     Inr (Done 5 l' s') \<and>
   scalls s' = map Puts es @ command_calls shell_demo (length es) [bytes_of ''ls'', bytes_of ''-a'']"
proof -
  have keys: "fold type_key (bytes_of ''lx'' @ [8] @ bytes_of ''s -a'') [] = bytes_of ''ls -a''" by (simp add: bytes_of_def)
  have take: "take MAX_ARGS (words (bytes_of ''ls -a'')) = [bytes_of ''ls'', bytes_of ''-a'']" by (simp add: words_demo)
  show ?thesis
    using shell_runs_command [of 64 "\<lparr>lbuf = [], llen = 0\<rparr>" "bytes_of ''lx'' @ [8] @ bytes_of ''s -a''" shell_demo "bytes_of ''ls -a''" True TTY_MODE_RAW "[]" "\<lparr>smem = (\<lambda>_. 0), scalls = []\<rparr>"]
    unfolding keys take by (simp add: line_holds_def shell_demo_sel simple_line_def words_demo [unfolded bytes_of_def, simplified] bytes_of_def del: sh_chunk.simps)
qed

theorem shell_runs_pipeline_witness:
  "\<exists>es l' s'. sh_chunk shell_demo True TTY_MODE_RAW (bytes_of ''ls | wc'' @ [NEWLINE]) \<lparr>lbuf = [], llen = 0\<rparr> \<lparr>smem = (\<lambda>_. 0), scalls = []\<rparr> =
     Inr (Done 5 l' s') \<and>
   scalls s' = map Puts es @ pipeline_calls shell_demo (length es) [bytes_of ''ls''] [bytes_of ''wc'']"
proof -
  have keys: "bytes_of ''ls '' @ PIPE # bytes_of '' wc'' = fold type_key (bytes_of ''ls | wc'') []" by (simp add: bytes_of_def)
  show ?thesis
    using shell_runs_pipeline [OF _ _ _ _ _ _ keys, of 64 "\<lparr>lbuf = [], llen = 0\<rparr>" shell_demo True TTY_MODE_RAW "[]" "\<lparr>smem = (\<lambda>_. 0), scalls = []\<rparr>"]
    by (simp add: line_holds_def shell_demo_sel simple_line_def words_demo [unfolded bytes_of_def, simplified] bytes_of_def del: sh_chunk.simps)
qed

end
