(* ===== verification/Programs.thy ===== *)
theory Programs
  imports UPrintf
begin

text \<open>
  The small programs of \<^verbatim>\<open>user/src\<close>: \<^verbatim>\<open>cat\<close>, \<^verbatim>\<open>create\<close>, \<^verbatim>\<open>echo\<close>, \<^verbatim>\<open>harden\<close>, \<^verbatim>\<open>link\<close>,
  \<^verbatim>\<open>ls\<close>, \<^verbatim>\<open>mv\<close>, \<^verbatim>\<open>pwd\<close>, \<^verbatim>\<open>rev\<close> and \<^verbatim>\<open>rm\<close>. A program is what it asks the kernel to do: the list of its system calls
  in order, with the strings they are given. The answers come from outside, by the number of calls made before: \<open>ret\<close> is what a call returns,
  \<open>str\<close> the bytes it stores in the buffer it is given and \<open>size_of\<close> the size or the number of entries it reports. The arguments of a program are strings
  without the NUL. A line printed by \<^verbatim>\<open>printf\<close> is one write of the expanded format, as \<open>UPrintf\<close> shows for lines that fit its buffer.
  A loop that asks again until a buffer is long enough may not end.
\<close>

abbreviation SYS_OPEN_FILE_MODE_READ :: u32 where "SYS_OPEN_FILE_MODE_READ \<equiv> 2"
abbreviation SYS_FTYPE_FILE :: u32 where "SYS_FTYPE_FILE \<equiv> 1"
abbreviation SYS_FTYPE_DIR :: u32 where "SYS_FTYPE_DIR \<equiv> 2"
abbreviation SYS_FTYPE_SYMLINK :: u32 where "SYS_FTYPE_SYMLINK \<equiv> 3"

section \<open>Definitions\<close>

datatype ucall = Write "u8 list" | Open "u8 list" u32 | Ftype u32 | File_info u32 | Dir_info u32 | Dirent_info u32 | Symlink_info u32 u32 | Read u32 u32 | Close_fd u32
  | Create "u8 list" "u8 list" u32 | Delete "u8 list" | Link "u8 list" "u8 list" "u8 list" | Harden "u8 list" | Chdir "u8 list" | Pwd u32 | Quit u32

record answers =
  ret :: "nat \<Rightarrow> u32"
  str :: "nat \<Rightarrow> u8 list"
  size_of :: "nat \<Rightarrow> u32"

type_synonym calls = "ucall list"

abbreviation last_ret :: "answers \<Rightarrow> calls \<Rightarrow> u32" where "last_ret ans cs \<equiv> ret ans (length cs - 1)"
abbreviation last_str :: "answers \<Rightarrow> calls \<Rightarrow> u8 list" where "last_str ans cs \<equiv> str ans (length cs - 1)"
abbreviation last_size :: "answers \<Rightarrow> calls \<Rightarrow> u32" where "last_size ans cs \<equiv> size_of ans (length cs - 1)"

abbreviation msg :: "string \<Rightarrow> u8 list" where "msg s \<equiv> bytes_of s @ [NEWLINE]"

subsection \<open>cat\<close>

fun cat_loop :: "answers \<Rightarrow> u32 \<Rightarrow> nat \<Rightarrow> calls \<Rightarrow> calls kres" where
  "cat_loop ans fd 0 cs = Inr cs"
| "cat_loop ans fd (Suc n) cs =
     (let cs = cs @ [Read fd 1000]; bytes = last_ret ans cs
      in if bytes <s 0 \<or> unat bytes > 1000 then Inl OutOfBounds
         else cat_loop ans fd n (cs @ [Write (takeWhile (\<lambda>c. c \<noteq> 0) (take (unat bytes) (last_str ans cs)))]))"

definition cat :: "answers \<Rightarrow> u8 list \<Rightarrow> calls \<Rightarrow> calls kres" where
  "cat ans path cs =
     (let cs = cs @ [Open path SYS_OPEN_FILE_MODE_READ]; fd = last_ret ans cs
      in if fd <s 0 then Inr (cs @ [Write (bytes_of ''Failed to open path '' @ path @ [NEWLINE])])
         else
           let cs = cs @ [Ftype fd]
           in if last_ret ans cs \<noteq> SYS_FTYPE_FILE then Inr (cs @ [Write (bytes_of ''Path '' @ path @ msg '' is not a file'')])
              else
                let cs = cs @ [File_info fd]
                in kbind (cat_loop ans fd (unat ((last_size ans cs + 1000 - 1) div 1000)) cs) (\<lambda>cs. Inr (cs @ [Write [NEWLINE]])))"

definition cat_start :: "answers \<Rightarrow> u8 list list \<Rightarrow> calls kres" where
  "cat_start ans argv = kbind (kfold (cat ans) (drop 1 argv) []) (\<lambda>cs. Inr (cs @ [Quit 0]))"

subsection \<open>create, link and mv\<close>

text \<open>The loop that remembers where the last slash is; the start of the string when there is none.\<close>

fun last_slash :: "u8 list \<Rightarrow> nat \<Rightarrow> nat \<Rightarrow> nat" where
  "last_slash [] ptr pos = pos"
| "last_slash (c # s) ptr pos = last_slash s (ptr + 1) (if c = SLASH then ptr else pos)"

text \<open>
  The last byte is looked at without a test that there is one. The name keeps pointing at the slash, which is overwritten
  by a NUL.
\<close>

definition create_one :: "answers \<Rightarrow> u8 list \<Rightarrow> calls \<Rightarrow> calls kres" where
  "create_one ans arg cs =
     (if arg = [] then Inl OutOfBounds
      else
        let dir = (last arg = SLASH);
            dirname = (if dir then butlast arg else arg);
            pos = last_slash dirname 0 0;
            (dirname, filename) = (if pos \<noteq> 0 then (take pos dirname, []) else (bytes_of ''.'', dirname));
            cs = cs @ [Create dirname filename (if dir then 1 else 0)]
        in Inr (if last_ret ans cs <s 0 then cs @ [Write (bytes_of ''Couldn't create '' @ dirname @ SLASH # filename @ [NEWLINE])] else cs))"

definition create_start :: "answers \<Rightarrow> u8 list list \<Rightarrow> calls kres" where
  "create_start ans argv =
     (if length argv < 2 then Inr [Write (msg ''Expected at least one argument''), Quit 1]
      else kbind (kfold (create_one ans) (drop 1 argv) []) (\<lambda>cs. Inr (cs @ [Quit 0])))"

definition split_path :: "u8 list \<Rightarrow> u8 list \<times> u8 list" where
  "split_path linkpath =
     (let pos = last_slash linkpath 0 0 in if pos \<noteq> 0 then (take pos linkpath, drop (pos + 1) linkpath) else ([], linkpath))"

definition link_path :: "answers \<Rightarrow> u8 list \<Rightarrow> u8 list \<Rightarrow> calls \<Rightarrow> calls" where
  "link_path ans target linkpath cs =
     (let (dir, name) = split_path linkpath; cs = cs @ [Link target dir name]
      in if last_ret ans cs <s 0 then cs @ [Write (msg ''Link failed'')] else cs)"

definition wrong_args :: "nat \<Rightarrow> calls" where
  "wrong_args argc = [Write (bytes_of ''Wrong number of arguments (got '' @ itoa (of_nat argc - 1) @ msg '', expected 2)''), Quit 1]"

definition link_start :: "answers \<Rightarrow> u8 list list \<Rightarrow> calls" where
  "link_start ans argv =
     (if length argv \<noteq> 3 then wrong_args (length argv)
      else link_path ans (argv ! 1) (argv ! 2) [] @ [Quit 0])"

text \<open>\<open>mem_ok\<close> tells whether there is memory for the copy of the path.\<close>

definition mv_start :: "answers \<Rightarrow> bool \<Rightarrow> u8 list list \<Rightarrow> calls kres" where
  "mv_start ans mem_ok argv =
     (if length argv \<noteq> 3 then Inr (wrong_args (length argv))
      else if \<not> mem_ok then Inl NullDeref
      else Inr (link_path ans (argv ! 1) (argv ! 2) [Delete (argv ! 2)] @ [Harden (argv ! 2), Delete (argv ! 1), Quit 0]))"

subsection \<open>echo, harden and rm\<close>

definition echo_start :: "u8 list list \<Rightarrow> calls" where
  "echo_start argv =
     concat (map (\<lambda>i. (if i \<noteq> 1 then [Write (bytes_of '' '')] else []) @ [Write (argv ! i)]) [1..<length argv]) @ [Write [NEWLINE], Quit 0]"

definition harden_one :: "answers \<Rightarrow> u8 list \<Rightarrow> calls \<Rightarrow> calls" where
  "harden_one ans arg cs =
     (let cs = cs @ [Harden arg]; res = last_ret ans cs; cs = cs @ [Write (msg ''Hardened'')]
      in if res <s 0 then cs @ [Write (bytes_of ''Failed to harden path '' @ arg @ [NEWLINE])] else cs)"

definition harden_start :: "answers \<Rightarrow> u8 list list \<Rightarrow> calls" where
  "harden_start ans argv = fold (harden_one ans) (drop 1 argv) [] @ [Quit 0]"

definition rm_one :: "answers \<Rightarrow> u8 list \<Rightarrow> calls \<Rightarrow> calls" where
  "rm_one ans arg cs =
     (let cs = cs @ [Delete arg]
      in if last_ret ans cs <s 0 then cs @ [Write (bytes_of ''Couldn't delete '' @ arg @ [NEWLINE])] else cs)"

definition rm_start :: "answers \<Rightarrow> u8 list list \<Rightarrow> calls" where
  "rm_start ans argv =
     (if length argv < 2 then [Write (msg ''Expected at least one argument''), Quit 1]
      else fold (rm_one ans) (drop 1 argv) [] @ [Quit 0])"

subsection \<open>pwd\<close>

text \<open>The length is doubled until the path fits.\<close>

partial_function (option) pwd_loop :: "answers \<Rightarrow> u32 \<Rightarrow> calls \<Rightarrow> calls option" where
  "pwd_loop ans len cs =
     (let cs = cs @ [Pwd len]
      in if last_ret ans cs <s 0 then pwd_loop ans (len * 2) cs else Some cs)"

definition pwd_start :: "answers \<Rightarrow> calls option" where
  "pwd_start ans =
     Option.bind (pwd_loop ans 100 []) (\<lambda>cs. Some (cs @ [Write (last_str ans cs), Write [NEWLINE], Quit 0]))"

subsection \<open>ls\<close>

partial_function (option) symlink_loop :: "answers \<Rightarrow> u32 \<Rightarrow> u32 \<Rightarrow> calls \<Rightarrow> calls option" where
  "symlink_loop ans fd len cs =
     (let cs = cs @ [Symlink_info fd len]
      in if last_ret ans cs <s 0 then symlink_loop ans fd (len * 2) cs else Some cs)"

definition ls_info :: "answers \<Rightarrow> u32 \<Rightarrow> u32 \<Rightarrow> u8 list \<Rightarrow> calls \<Rightarrow> calls option" where
  "ls_info ans fd ft name cs =
     (if ft = SYS_FTYPE_FILE then
        let cs = cs @ [File_info fd] in Some (cs @ [Write (bytes_of ''[File] '' @ itoa (last_size ans cs) @ bytes_of '' '' @ name @ [NEWLINE])])
      else if ft = SYS_FTYPE_DIR then
        let cs = cs @ [Dir_info fd] in Some (cs @ [Write (bytes_of ''[Dir ] '' @ itoa (last_size ans cs) @ bytes_of '' '' @ name @ msg ''/'')])
      else if ft = SYS_FTYPE_SYMLINK then
        Option.bind (symlink_loop ans fd 100 cs) (\<lambda>cs.
          Some (cs @ [Write (bytes_of ''[Link] '' @ name @ bytes_of '' -> '' @ last_str ans cs @ [NEWLINE])]))
      else Some cs)"

fun ls_loop :: "answers \<Rightarrow> u32 \<Rightarrow> nat \<Rightarrow> calls \<Rightarrow> calls option" where
  "ls_loop ans cwd_fd 0 cs = Some cs"
| "ls_loop ans cwd_fd (Suc n) cs =
     (let cs = cs @ [Dirent_info cwd_fd]; name = last_str ans cs
      in if last_ret ans cs <s 0 then ls_loop ans cwd_fd n (cs @ [Write (msg ''failed getting dirent info'')])
         else
           let cs = cs @ [Open name 0]; fd = last_ret ans cs
           in if fd <s 0 then
                ls_loop ans cwd_fd n (cs @ [Write (bytes_of ''failed opening dirent file '' @ name @ bytes_of '' '' @ itoa fd @ [NEWLINE])])
              else
                let cs = cs @ [Ftype fd]; ft = last_ret ans cs;
                    cs = (if ft <s 0 then cs @ [Write (msg ''failed getting dirent ft'')] else cs)
                in Option.bind (ls_info ans fd ft name cs) (\<lambda>cs. ls_loop ans cwd_fd n (cs @ [Close_fd fd])))"

definition ls_start :: "answers \<Rightarrow> u8 list list \<Rightarrow> calls option" where
  "ls_start ans argv =
     (if length argv \<noteq> 1 \<and> length argv \<noteq> 2 then Some [Write (msg ''Too many arguments''), Quit 1]
      else
        let dir = (if length argv = 1 then bytes_of ''.'' else argv ! 1); cs = [Chdir dir]
        in if last_ret ans cs <s 0 then Some (cs @ [Write (msg ''Couldn't find directory''), Quit 1])
           else
             let cs = cs @ [Open (bytes_of ''.'') 0]; cwd_fd = last_ret ans cs
             in if cwd_fd <s 0 then Some (cs @ [Write (msg ''open failed''), Quit 1])
                else
                  let cs = cs @ [Ftype cwd_fd]
                  in if last_ret ans cs \<noteq> SYS_FTYPE_DIR then Some (cs @ [Write (msg ''not a dir''), Quit 1])
                     else
                       let cs = cs @ [Dir_info cwd_fd]
                       in if last_ret ans cs <s 0 then Some (cs @ [Write (msg ''failed getting dir_info''), Quit 1])
                          else Option.bind (ls_loop ans cwd_fd (unat (last_size ans cs)) cs) (\<lambda>cs. Some (cs @ [Quit 0])))"

subsection \<open>rev\<close>

function reverse_loop :: "u8 list \<Rightarrow> int \<Rightarrow> int \<Rightarrow> u8 list" where
  "reverse_loop s l r =
     (if l < r then reverse_loop (s[nat l := s ! nat r, nat r := s ! nat l]) (l + 1) (r - 1) else s)"
  by pat_completeness auto
termination
  by (relation "measure (\<lambda>(s, l, r). nat (r - l))") auto

declare reverse_loop.simps [simp del]

definition reverse_range :: "u8 list \<Rightarrow> int \<Rightarrow> int \<Rightarrow> u8 list" where
  "reverse_range s l r = reverse_loop s l (r - 1)"

record rev_state =
  rline :: "u8 list"
  rlen :: nat
  rout :: "u8 list list"

definition print_reversed :: "rev_state \<Rightarrow> rev_state" where
  "print_reversed s =
     (let l = reverse_range (rline s) 0 (int (rlen s))
      in s\<lparr>rline := l, rlen := 0, rout := rout s @ [take (rlen s) l, [NEWLINE]]\<rparr>)"

definition rev_char :: "u8 \<Rightarrow> rev_state \<Rightarrow> rev_state" where
  "rev_char c s =
     (if c = NEWLINE then print_reversed s
      else if rlen s < 255 then s\<lparr>rline := (rline s)[rlen s := c], rlen := rlen s + 1\<rparr>
      else s)"

text \<open>\<open>reads\<close> are the results of the reads before the one that returns nothing or fails; \<open>line\<close> is what the array holds at first.\<close>

definition rev_start :: "u8 list \<Rightarrow> u8 list list \<Rightarrow> u8 list list" where
  "rev_start line reads =
     (let s = fold (fold rev_char) reads \<lparr>rline = line, rlen = 0, rout = []\<rparr>
      in rout (if rlen s > 0 then print_reversed s else s))"

section \<open>rev reverses lines\<close>

lemma reverse_loop_middle: "reverse_loop (a @ xs @ b) (int (length a)) (int (length a) + int (length xs) - 1) = a @ rev xs @ b"
proof (induction "length xs" arbitrary: a xs b rule: less_induct)
  case less
  show ?case
  proof (cases "length xs \<le> 1")
    case True
    then have "rev xs = xs" by (cases xs) auto
    with True show ?thesis by (subst reverse_loop.simps) simp
  next
    case False
    then obtain x ys y where xs: "xs = x # ys @ [y]" by (metis One_nat_def append_butlast_last_id le_SucI length_0_conv length_Cons list.exhaust order_refl zero_le)
    let ?l = "int (length a)" and ?r = "int (length a) + int (length xs) - 1"
    have r: "nat ?r = length a + 1 + length ys" "nat ?l = length a" "?l < ?r" using xs by simp_all
    have "(a @ xs @ b) ! (length a + 1 + length ys) = y" "(a @ xs @ b) ! length a = x" unfolding xs by (simp_all add: nth_append)
    moreover have "(a @ xs @ b)[length a := y, length a + 1 + length ys := x] = (a @ [y]) @ ys @ (x # b)"
      unfolding xs by (simp add: list_update_append)
    ultimately have "reverse_loop (a @ xs @ b) ?l ?r = reverse_loop ((a @ [y]) @ ys @ (x # b)) (?l + 1) (?r - 1)"
      by (subst reverse_loop.simps) (simp only: r if_True)
    also have "\<dots> = (a @ [y]) @ rev ys @ (x # b)"
      using less [of ys "a @ [y]" "x # b"] xs by (simp add: algebra_simps)
    finally show ?thesis using xs by simp
  qed
qed

text \<open>The lines of a text; the last one is not ended by a newline.\<close>

fun lines :: "u8 list \<Rightarrow> u8 list list" where
  "lines [] = [[]]"
| "lines (c # cs) = (if c = NEWLINE then [] # lines cs else (c # hd (lines cs)) # tl (lines cs))"

definition reversed_line :: "u8 list \<Rightarrow> u8 list" where
  "reversed_line l = rev (take 255 l) @ [NEWLINE]"

definition reversed_lines :: "u8 list \<Rightarrow> u8 list" where
  "reversed_lines t = concat (map reversed_line (butlast (lines t))) @ (if last (lines t) = [] then [] else reversed_line (last (lines t)))"

lemma lines_nonempty [simp]: "lines t \<noteq> []"
  by (cases t) simp_all

text \<open>The lines when \<open>p\<close> has been read of the first one.\<close>

definition lines_from :: "u8 list \<Rightarrow> u8 list \<Rightarrow> u8 list list" where
  "lines_from p t = (p @ hd (lines t)) # tl (lines t)"

lemma lines_from_simps [simp]:
  "lines_from p [] = [p]" "lines_from p (c # t) = (if c = NEWLINE then p # lines_from [] t else lines_from (p @ [c]) t)"
  by (simp_all add: lines_from_def)

definition rev_holds :: "rev_state \<Rightarrow> u8 list \<Rightarrow> bool" where
  "rev_holds s p \<longleftrightarrow> length (rline s) = 256 \<and> rlen s = length (take 255 p) \<and> take (rlen s) (rline s) = take 255 p"

lemma print_reversed_holds:
  assumes "rev_holds s p"
  shows "rev_holds (print_reversed s) []" "concat (rout (print_reversed s)) = concat (rout s) @ reversed_line p"
proof -
  let ?n = "rlen s"
  have n: "?n \<le> 256" "length (take ?n (rline s)) = ?n" using assms by (simp_all add: rev_holds_def)
  have "reverse_range (rline s) 0 (int ?n) = rev (take ?n (rline s)) @ drop ?n (rline s)"
    using reverse_loop_middle [of "[]" "take ?n (rline s)" "drop ?n (rline s)"] n by (simp add: reverse_range_def)
  with n assms show "rev_holds (print_reversed s) []" "concat (rout (print_reversed s)) = concat (rout s) @ reversed_line p"
    by (auto simp: print_reversed_def rev_holds_def reversed_line_def Let_def)
qed

lemma rev_chars_lines:
  "rev_holds s p \<Longrightarrow> rev_holds (fold rev_char t s) (last (lines_from p t)) \<and>
     concat (rout (fold rev_char t s)) = concat (rout s) @ concat (map reversed_line (butlast (lines_from p t)))"
proof (induction t arbitrary: s p)
  case (Cons c t)
  show ?case
  proof (cases "c = NEWLINE")
    case True
    then show ?thesis
      using Cons.IH [OF print_reversed_holds(1) [OF Cons.prems]] print_reversed_holds(2) [OF Cons.prems] by (simp add: rev_char_def lines_from_def)
  next
    case False
    have "rev_holds (rev_char c s) (p @ [c])" "rout (rev_char c s) = rout s"
      using Cons.prems False by (auto simp: rev_char_def rev_holds_def take_Suc_conv_app_nth min_def)
    with False show ?thesis using Cons.IH [of "rev_char c s" "p @ [c]"] by simp
  qed
qed simp

text \<open>
  C33: \<^verbatim>\<open>rev\<close> writes its input with every line reversed, of lines of more than 255 bytes the first 255, whatever the pieces are in which the input is
  read; a last line without a newline is reversed and ended by one.
\<close>

theorem rev_reverses_lines:
  assumes "length line = 256"
  shows "concat (rev_start line reads) = reversed_lines (concat reads)"
proof -
  let ?s = "\<lparr>rline = line, rlen = 0, rout = []\<rparr>" and ?t = "concat reads"
  let ?s' = "fold rev_char ?t ?s"
  have fold: "fold (fold rev_char) reads s = fold rev_char ?t s" for s by (induction reads arbitrary: s) simp_all
  have l: "lines_from [] ?t = lines ?t" by (simp add: lines_from_def)
  have "rev_holds ?s []" using assms by (simp add: rev_holds_def)
  from rev_chars_lines [OF this, of ?t] have h: "rev_holds ?s' (last (lines ?t))" "concat (rout ?s') = concat (map reversed_line (butlast (lines ?t)))"
    unfolding l by simp_all
  then have "rlen ?s' > 0 \<longleftrightarrow> last (lines ?t) \<noteq> []" by (auto simp: rev_holds_def)
  then show ?thesis using print_reversed_holds(2) [OF h(1)] h(2) by (auto simp: rev_start_def fold reversed_lines_def Let_def)
qed

theorem rev_reverses_lines_witness:
  "concat (rev_start (replicate 256 0) [bytes_of ''ab'', bytes_of ''c'' @ [NEWLINE] @ bytes_of ''d'', bytes_of ''e'']) =
     bytes_of ''cba'' @ [NEWLINE] @ bytes_of ''ed'' @ [NEWLINE]"
proof -
  have "length (replicate 256 (0 :: u8)) = 256" by (rule length_replicate)
  from rev_reverses_lines [OF this] show ?thesis by (simp add: reversed_lines_def reversed_line_def bytes_of_def)
qed

section \<open>cat prints files\<close>

fun written_by :: "ucall \<Rightarrow> u8 list" where
  "written_by (Write bs) = bs"
| "written_by _ = []"

definition printed :: "calls \<Rightarrow> u8 list" where
  "printed cs = concat (map written_by cs)"

lemma printed_simps [simp]: "printed [] = []" "printed (cs @ ds) = printed cs @ printed ds" "printed (c # cs) = written_by c @ printed cs"
  by (simp_all add: printed_def)

text \<open>The kernel's answers when the next read, call \<open>n\<close>, and every second call after it read the file \<open>bs\<close> from its start, 1000 bytes at a time.\<close>

definition reads_file :: "answers \<Rightarrow> nat \<Rightarrow> u8 list \<Rightarrow> bool" where
  "reads_file ans n bs \<longleftrightarrow>
     (\<forall>j. str ans (n + 2 * j) = take 1000 (drop (1000 * j) bs) \<and> ret ans (n + 2 * j) = of_nat (length (str ans (n + 2 * j))))"

lemma small_signed: "n \<le> 1000 \<Longrightarrow> \<not> (of_nat n :: u32) <s 0"
  by (simp add: word_sless_alt sint_small)

lemma cat_loop_prints:
  assumes "reads_file ans m bs" "0 \<notin> set bs"
  shows "length cs = m + 2 * j \<Longrightarrow> \<exists>cs'. cat_loop ans fd n cs = Inr cs' \<and> printed cs' = printed cs @ take (1000 * n) (drop (1000 * j) bs)"
proof (induction n arbitrary: cs j)
  case (Suc n)
  define t where t: "t = take 1000 (drop (1000 * j) bs)"
  have a: "str ans (length cs) = t" "ret ans (length cs) = of_nat (length t)"
    using assms(1) Suc.prems unfolding reads_file_def t by metis+
  have len: "length t \<le> 1000" by (simp add: t)
  then have u: "unat (of_nat (length t) :: u32) = length t" by (intro unat_of_nat32) linarith
  have "0 \<notin> set t" using assms(2) unfolding t by (meson in_set_dropD in_set_takeD)
  then have tw: "takeWhile (\<lambda>c. c \<noteq> 0) t = t" by (intro takeWhile_eq_all_conv [THEN iffD2]) auto
  let ?cs = "cs @ [Read fd 1000, Write t]"
  have "cat_loop ans fd (Suc n) cs = cat_loop ans fd n ?cs"
    using len u small_signed [OF len] by (simp add: a Let_def tw)
  moreover have "length ?cs = m + 2 * (j + 1)" using Suc.prems by simp
  from Suc.IH [OF this] obtain cs' where "cat_loop ans fd n ?cs = Inr cs'" "printed cs' = printed ?cs @ take (1000 * n) (drop (1000 * (j + 1)) bs)" by blast
  moreover have "take (1000 * Suc n) (drop (1000 * j) bs) = t @ take (1000 * n) (drop (1000 * (j + 1)) bs)"
    using take_add [of 1000 "1000 * n" "drop (1000 * j) bs"] by (simp add: add.commute t)
  ultimately show ?case by simp
qed simp

text \<open>
  C34: if a path can be opened and is a file, and the kernel answers the reads with the contents of the file in order, then
  what \<^verbatim>\<open>cat\<close> writes for it is the file, if it has no NUL, and a newline.
\<close>

theorem cat_prints_file:
  assumes "\<not> ret ans (length cs) <s 0" "ret ans (length cs + 1) = SYS_FTYPE_FILE" "size_of ans (length cs + 2) = of_nat (length bs)"
    and "reads_file ans (length cs + 3) bs" "0 \<notin> set bs" "length bs + 1000 < 4294967296"
  shows "\<exists>cs'. cat ans path cs = Inr cs' \<and> printed cs' = printed cs @ bs @ [NEWLINE]"
proof -
  let ?fd = "ret ans (length cs)" and ?n = "(length bs + 999) div 1000"
  let ?cs = "cs @ [Open path SYS_OPEN_FILE_MODE_READ, Ftype ?fd, File_info ?fd]"
  have "length ?cs = (length cs + 3) + 2 * 0" by simp
  from cat_loop_prints [OF assms(4,5) this, of ?fd ?n] obtain cs' where
    l: "cat_loop ans ?fd ?n ?cs = Inr cs'" "printed cs' = printed ?cs @ take (1000 * ?n) bs" by auto
  have "(of_nat (length bs) :: u32) + 1000 - 1 = of_nat (length bs + 999)" by simp
  moreover have "unat (of_nat (length bs + 999) :: u32) = length bs + 999" using assms(6) by (intro unat_of_nat32) linarith
  ultimately have "unat (((of_nat (length bs) :: u32) + 1000 - 1) div 1000) = ?n" by (simp only: unat_div_distrib) simp
  moreover have "length bs \<le> 1000 * ?n" by simp
  ultimately show ?thesis
    using assms(1-3) l by (simp add: cat_def Let_def)
qed

definition cat_demo :: answers where
  "cat_demo = \<lparr>ret = (\<lambda>n. if n = 0 then 5 else if n = 1 then SYS_FTYPE_FILE else if n = 3 then 2 else 0),
     str = (\<lambda>n. if n = 3 then bytes_of ''hi'' else []), size_of = (\<lambda>_. 2)\<rparr>"

theorem cat_prints_file_witness:
  "\<exists>cs. cat cat_demo (bytes_of ''f'') [] = Inr cs \<and> printed cs = bytes_of ''hi'' @ [NEWLINE]"
proof -
  have "(3 + 2 * j = (3 :: nat)) \<longleftrightarrow> j = 0" for j by presburger
  then have "reads_file cat_demo 3 (bytes_of ''hi'')"
    by (auto simp: reads_file_def cat_demo_def bytes_of_def)
  then show ?thesis
    using cat_prints_file [of cat_demo "[]" "bytes_of ''hi''" "bytes_of ''f''"]
    by (simp add: cat_demo_def bytes_of_def word_sless_alt)
qed

section \<open>Names and directories\<close>

lemma last_slash_none: "SLASH \<notin> set s \<Longrightarrow> last_slash s ptr pos = pos"
  by (induction s ptr pos rule: last_slash.induct) auto

lemma last_slash_append: "SLASH \<notin> set s \<Longrightarrow> last_slash (d @ SLASH # s) ptr pos = ptr + length d"
  by (induction d arbitrary: ptr pos) (auto simp: last_slash_none)

lemma split_path_correct:
  "SLASH \<notin> set s \<Longrightarrow> d \<noteq> [] \<Longrightarrow> split_path (d @ SLASH # s) = (d, s)"
  "SLASH \<notin> set s \<Longrightarrow> split_path s = ([], s)"
  by (simp_all add: split_path_def last_slash_append last_slash_none Let_def)

text \<open>\<^verbatim>\<open>create\<close> asks for an empty name as soon as the path has a directory.\<close>

lemma create_loses_name:
  assumes "SLASH \<notin> set s" "s \<noteq> []" "d \<noteq> []"
  shows "\<exists>cs'. create_one ans (d @ SLASH # s) cs = Inr (cs @ Create d [] 0 # cs')"
proof -
  have "last s \<noteq> SLASH" using assms(1,2) by (metis last_in_set)
  then show ?thesis using assms by (simp add: create_one_def last_slash_append Let_def)
qed

text \<open>
  \<^verbatim>\<open>mv\<close> when the link cannot be made, for any destination: the program deletes the destination, fails to link it, says so, and then
  deletes the source all the same: the file is gone under both names.
\<close>

lemma mv_loses_file:
  assumes "ret ans 1 <s 0" "split_path dst = (dir, name)"
  shows "mv_start ans True [prog, target, dst] =
    Inr [Delete dst, Link target dir name, Write (msg ''Link failed''), Harden dst, Delete target, Quit 0]"
  using assms by (simp add: mv_start_def link_path_def)

section \<open>pwd ends\<close>

text \<open>\<^verbatim>\<open>pwd\<close> ends with the path once one of the lengths it tries is enough.\<close>

lemma pwd_loop_ends:
  "(\<forall>j < n. ret ans (length cs + j) <s 0) \<Longrightarrow> \<not> ret ans (length cs + n) <s 0 \<Longrightarrow>
   \<exists>cs'. pwd_loop ans len cs = Some cs' \<and> length cs' = length cs + n + 1 \<and> last cs' = Pwd (len * 2 ^ n)"
proof (induction n arbitrary: cs len)
  case 0
  then show ?case by (subst pwd_loop.simps) (simp add: Let_def)
next
  case (Suc n)
  let ?cs = "cs @ [Pwd len]"
  have "ret ans (length cs) <s 0" using Suc.prems(1) by (metis add_0_right zero_less_Suc)
  then have "pwd_loop ans len cs = pwd_loop ans (len * 2) ?cs" by (subst pwd_loop.simps) (simp add: Let_def)
  moreover have "\<forall>j < n. ret ans (length ?cs + j) <s 0" using Suc.prems(1) by (auto dest: spec [of _ "Suc _"])
  moreover have "\<not> ret ans (length ?cs + n) <s 0" using Suc.prems(2) by simp
  ultimately show ?case using Suc.IH [of ?cs "len * 2"] by (simp add: mult.assoc)
qed

lemma pwd_ends:
  assumes "\<forall>j < n. ret ans j <s 0" "\<not> ret ans n <s 0"
  shows "\<exists>cs. pwd_start ans = Some (cs @ [Pwd (100 * 2 ^ n), Write (str ans n), Write [NEWLINE], Quit 0])"
proof -
  obtain cs where cs: "pwd_loop ans 100 [] = Some cs" "length cs = n + 1" "last cs = Pwd (100 * 2 ^ n)"
    using pwd_loop_ends [of n ans "[]" 100] assms by auto
  then have "cs = butlast cs @ [Pwd (100 * 2 ^ n)]" by (metis append_butlast_last_id list.size(3) Suc_eq_plus1 nat.distinct(1))
  then show ?thesis using cs(1,2) by (intro exI [of _ "butlast cs"]) (simp add: pwd_start_def)
qed

end
