(* ===== verification/Mkfs.thy ===== *)
theory Mkfs
  imports FsIO FsInv
begin

text \<open>
  The tool that builds the file system image the kernel is linked with, \<^verbatim>\<open>mkfs/src/main.c\<close>. What the host's
  \<^verbatim>\<open>fopen\<close>, \<^verbatim>\<open>fread\<close>, \<^verbatim>\<open>opendir\<close> and \<^verbatim>\<open>readdir\<close> give is a tree: a file is its bytes and a directory
  the list of its entries in the order they are read, \<open>None\<close> where opening fails. The arrays of the tool are the inodes of
  \<open>FsModel\<close>, the bitmap and the data blocks by offset; a store outside one of them is \<open>OutOfBounds\<close>. The image is the same arrays
  written one after the other, and the structures are those of the header the kernel uses, so the kernel's file system has them as they are.
  The theorem at the end says that the kernel finds every file of the tree in the image and reads its bytes.
\<close>

section \<open>Definitions\<close>

datatype hnode = HFile "u8 list option" | HDir "(u8 list \<times> hnode) list option" | HOther

record mkfs =
  mk_inodes :: "inode list"
  curr_inode :: nat
  data_blocks :: "nat \<Rightarrow> u8"
  curr_data_block :: nat
  bitmap :: "nat \<Rightarrow> u8"

definition get_filename :: "u8 list \<Rightarrow> u8 list" where
  "get_filename path = rev (takeWhile (\<lambda>c. c \<noteq> SLASH) (rev path))"

definition zero_inode :: inode where
  "zero_inode = \<lparr>iname = [], itype = FT_UNALLOCATED, iparent = 0, idata = 0, iblocks = replicate NDIRECT 0, ivalid = 0, irefs = 0\<rparr>"

text \<open>One block of a file: the bytes read, filled up with zeros, and the mark in the bitmap.\<close>

definition put_block :: "u8 list \<Rightarrow> mkfs \<Rightarrow> mkfs kres" where
  "put_block bs s =
     (let b = curr_data_block s; a = (b - 9) * 4096
      in if a + 4096 > 120 * 4096 then Inl OutOfBounds
         else Inr (s\<lparr>data_blocks := (\<lambda>j. if a \<le> j \<and> j < a + 4096 then (if j - a < length bs then bs ! (j - a) else 0) else data_blocks s j),
                     curr_data_block := b + 1,
                     bitmap := (bitmap s)(b div 8 := bitmap s (b div 8) OR push_bit (b mod 8) 1)\<rparr>))"

function file_loop :: "u8 list \<Rightarrow> nat \<Rightarrow> u32 \<Rightarrow> inode \<Rightarrow> mkfs \<Rightarrow> (inode \<times> u32 \<times> mkfs) kres" where
  "file_loop bs idx total_size x s =
     (if bs = [] \<or> idx \<ge> NDIRECT then Inr (x, total_size, s)
      else
        kbind (put_block (take 4096 bs) s) (\<lambda>s'.
        kbind (kset (iblocks x) idx (of_nat (curr_data_block s))) (\<lambda>blocks.
          file_loop (drop 4096 bs) (idx + 1) (total_size + of_nat (length (take 4096 bs))) (x\<lparr>iblocks := blocks\<rparr>) s')))"
  by pat_completeness auto
termination
  by (relation "measure (\<lambda>(bs, idx, t, x, s). length bs)") auto

declare file_loop.simps [simp del]

text \<open>The result is the index of the inode, 0 on failure.\<close>

definition process_file :: "u8 list \<Rightarrow> u8 list option \<Rightarrow> mkfs \<Rightarrow> (nat \<times> mkfs) kres" where
  "process_file name f s =
     (case f of
        None \<Rightarrow> Inr (0, s)
      | Some bs \<Rightarrow>
          let new_inode = zero_inode\<lparr>iname := take (FILENAME_MAX_LEN - 1) (get_filename name), itype := FT_FILE, ivalid := 1, irefs := 0\<rparr>
          in kbind (file_loop bs 0 0 new_inode s) (\<lambda>(new_inode, total_size, s).
             kbind (kset (mk_inodes s) (curr_inode s) (new_inode\<lparr>idata := total_size\<rparr>)) (\<lambda>is.
               Inr (curr_inode s, s\<lparr>mk_inodes := is, curr_inode := curr_inode s + 1\<rparr>))))"

text \<open>An entry of a directory that has been added: its parent is set, and the directory's inode lists it.\<close>

definition add_dirent :: "nat \<Rightarrow> nat \<Rightarrow> inode \<Rightarrow> mkfs \<Rightarrow> (inode \<times> mkfs) kres" where
  "add_dirent reserved_inode_idx inode_idx new_inode s =
     kbind (kget (mk_inodes s) inode_idx) (\<lambda>x.
     kbind (kset (iblocks new_inode) (unat (idata new_inode)) (of_nat inode_idx)) (\<lambda>es.
       Inr (new_inode\<lparr>iblocks := es, idata := idata new_inode + 1\<rparr>,
            s\<lparr>mk_inodes := (mk_inodes s)[inode_idx := x\<lparr>iparent := of_nat reserved_inode_idx\<rparr>]\<rparr>)))"

definition dir_inode :: "u8 list \<Rightarrow> u8 list \<Rightarrow> inode" where
  "dir_inode fs_dir name =
     zero_inode\<lparr>iname := (if str_cmp name fs_dir = 0 then FS_ROOT_PATH else take (FILENAME_MAX_LEN - 1) (get_filename name)),
       itype := FT_DIRECTORY, ivalid := 1, irefs := 0\<rparr>"

definition skipped :: "u8 list \<Rightarrow> u8 list \<Rightarrow> bool" where
  "skipped name d_name \<longleftrightarrow> str_cmp d_name (bytes_of ''.'') = 0 \<or> str_cmp d_name (bytes_of ''..'') = 0 \<or> str_cmp d_name name = 0"

function process_dir :: "u8 list \<Rightarrow> u8 list \<Rightarrow> (u8 list \<times> hnode) list option \<Rightarrow> mkfs \<Rightarrow> (nat \<times> mkfs) kres"
  and process_entry :: "u8 list \<Rightarrow> u8 list \<Rightarrow> hnode \<Rightarrow> mkfs \<Rightarrow> (nat \<times> mkfs) kres"
  and dir_loop :: "u8 list \<Rightarrow> u8 list \<Rightarrow> nat \<Rightarrow> (u8 list \<times> hnode) list \<Rightarrow> inode \<Rightarrow> mkfs \<Rightarrow> (inode \<times> mkfs) kres" where
  "process_dir fs_dir name None s = Inr (0, s)"
| "process_dir fs_dir name (Some d) s =
     kbind (dir_loop fs_dir name (curr_inode s) d (dir_inode fs_dir name) (s\<lparr>curr_inode := curr_inode s + 1\<rparr>)) (\<lambda>(new_inode, s').
     kbind (kset (mk_inodes s') (curr_inode s) new_inode) (\<lambda>is.
       Inr (curr_inode s, s'\<lparr>mk_inodes := is\<rparr>)))"
| "process_entry fs_dir path (HFile f) s = process_file path f s"
| "process_entry fs_dir path (HDir d) s = process_dir fs_dir path d s"
| "process_entry fs_dir path HOther s = Inr (0, s)"
| "dir_loop fs_dir name reserved_inode_idx [] new_inode s = Inr (new_inode, s)"
| "dir_loop fs_dir name reserved_inode_idx ((d_name, node) # es) new_inode s =
     (if skipped name d_name then dir_loop fs_dir name reserved_inode_idx es new_inode s
      else
        kbind (process_entry fs_dir (name @ SLASH # d_name) node s) (\<lambda>(inode_idx, s).
          if inode_idx = 0 then dir_loop fs_dir name reserved_inode_idx es new_inode s
          else kbind (add_dirent reserved_inode_idx inode_idx new_inode s) (\<lambda>(new_inode, s).
                 dir_loop fs_dir name reserved_inode_idx es new_inode s)))"
  by pat_completeness simp_all
termination
  by (relation "measure (\<lambda>x. case x of
        Inl (fs_dir, name, d, s) \<Rightarrow> 2 * size_option (size_list (size_prod (\<lambda>_. 0) size)) d
      | Inr (Inl (fs_dir, path, h, s)) \<Rightarrow> 2 * size h + 1
      | Inr (Inr (fs_dir, name, r, es, x, s)) \<Rightarrow> 2 * size_list (size_prod (\<lambda>_. 0) size) es + 1)")
    auto

text \<open>The blocks of the bitmap and of the inodes are marked as used from the start.\<close>

definition mkfs_init :: mkfs where
  "mkfs_init = \<lparr>mk_inodes = replicate NUM_INODES zero_inode, curr_inode = 0, data_blocks = (\<lambda>_. 0), curr_data_block = 9,
     bitmap = fold (\<lambda>i b. b(i div 8 := b (i div 8) OR push_bit (i mod 8) 1)) [0..<9] (\<lambda>_. 0)\<rparr>"

text \<open>What is written: the bitmap block, the eight blocks of inodes, and 119 data blocks.\<close>

definition image_of :: "mkfs \<Rightarrow> fsys" where
  "image_of s = \<lparr>inodes = mk_inodes s,
     fsbytes = (\<lambda>a. if a < 4096 then bitmap s a else if 36864 \<le> a \<and> a < 524288 then data_blocks s (a - 36864) else 0)\<rparr>"

definition mkfs_main :: "u8 list list \<Rightarrow> (u8 list \<times> hnode) list option \<Rightarrow> bool \<Rightarrow> (nat \<times> fsys option) kres" where
  "mkfs_main argv host can_write =
     (if length argv \<noteq> 3 then Inr (1, None)
      else
        kbind (process_dir (argv ! 1) (argv ! 1) host mkfs_init) (\<lambda>(_, s).
          if \<not> can_write then Inr (1, None) else Inr (0, Some (image_of s))))"

section \<open>The tree that is put into the image\<close>

datatype ftree = File "u8 list" | Dir "(u8 list \<times> ftree) list"

text \<open>
  The host's tree without what is skipped: the entries for the directory and its parent, an entry with the name of the directory as it was given, and what
  cannot be opened or is neither a file nor a directory. Of a file the first 21 blocks are taken.
\<close>

function visible :: "u8 list \<Rightarrow> hnode \<Rightarrow> ftree option" and visible_entries :: "u8 list \<Rightarrow> (u8 list \<times> hnode) list \<Rightarrow> (u8 list \<times> ftree) list" where
  "visible p (HFile f) = map_option (\<lambda>bs. File (take 86016 bs)) f"
| "visible p (HDir None) = None"
| "visible p (HDir (Some es)) = Some (Dir (visible_entries p es))"
| "visible p HOther = None"
| "visible_entries p [] = []"
| "visible_entries p ((d, n) # es) =
     (if skipped p d then visible_entries p es
      else case visible (p @ SLASH # d) n of None \<Rightarrow> visible_entries p es | Some t \<Rightarrow> (d, t) # visible_entries p es)"
  by pat_completeness simp_all
termination
  by (relation "measure (\<lambda>x. case x of Inl (p, h) \<Rightarrow> 2 * size h + 1 | Inr (p, es) \<Rightarrow> 2 * size_list (size_prod (\<lambda>_. 0) size) es + 1)") auto

fun inode_count :: "ftree \<Rightarrow> nat" and inode_counts :: "(u8 list \<times> ftree) list \<Rightarrow> nat" where
  "inode_count (File bs) = 1"
| "inode_count (Dir es) = 1 + inode_counts es"
| "inode_counts [] = 0"
| "inode_counts ((d, t) # es) = inode_count t + inode_counts es"

fun block_count :: "ftree \<Rightarrow> nat" and block_counts :: "(u8 list \<times> ftree) list \<Rightarrow> nat" where
  "block_count (File bs) = (length bs + 4095) div 4096"
| "block_count (Dir es) = block_counts es"
| "block_counts [] = 0"
| "block_counts ((d, t) # es) = block_count t + block_counts es"

text \<open>No directory has more entries than an inode can list, and no name has a slash.\<close>

fun slim :: "ftree \<Rightarrow> bool" and slim_entries :: "(u8 list \<times> ftree) list \<Rightarrow> bool" where
  "slim (File bs) \<longleftrightarrow> True"
| "slim (Dir es) \<longleftrightarrow> length es \<le> NDIRECT \<and> slim_entries es"
| "slim_entries [] \<longleftrightarrow> True"
| "slim_entries ((d, t) # es) \<longleftrightarrow> SLASH \<notin> set d \<and> slim t \<and> slim_entries es"

text \<open>Inode \<open>i\<close> of a file system, in directory \<open>par\<close> under the name \<open>nm\<close>, holds a tree.\<close>

fun holds :: "fsys \<Rightarrow> nat \<Rightarrow> nat \<Rightarrow> u8 list \<Rightarrow> ftree \<Rightarrow> bool"
  and holds_all :: "fsys \<Rightarrow> nat \<Rightarrow> u32 list \<Rightarrow> (u8 list \<times> ftree) list \<Rightarrow> bool" where
  "holds fs par i nm (File bs) \<longleftrightarrow> i < length (inodes fs) \<and>
     (let x = inodes fs ! i
      in iname x = nm \<and> itype x = FT_FILE \<and> iparent x = of_nat par \<and> unat (idata x) = length bs \<and> file_ok x \<and>
         (\<forall>k < length bs. file_byte fs x k = bs ! k))"
| "holds fs par i nm (Dir es) \<longleftrightarrow> i < length (inodes fs) \<and>
     (let x = inodes fs ! i
      in iname x = nm \<and> itype x = FT_DIRECTORY \<and> iparent x = of_nat par \<and> unat (idata x) = length es \<and> holds_all fs i (iblocks x) es)"
| "holds_all fs par bs [] \<longleftrightarrow> True"
| "holds_all fs par bs ((d, t) # es) \<longleftrightarrow>
     bs \<noteq> [] \<and> holds fs par (unat (hd bs)) (take (FILENAME_MAX_LEN - 1) d) t \<and> holds_all fs par (tl bs) es"

section \<open>The state of the tool\<close>

definition marked :: "mkfs \<Rightarrow> nat \<Rightarrow> bool" where
  "marked s b \<longleftrightarrow> bit (bitmap s (b div 8)) (b mod 8)"

definition mkfs_ok :: "mkfs \<Rightarrow> bool" where
  "mkfs_ok s \<longleftrightarrow> length (mk_inodes s) = NUM_INODES \<and> (\<forall>x \<in> set (mk_inodes s). inode_ok x) \<and>
     9 \<le> curr_data_block s \<and> (\<forall>b. marked s b \<longleftrightarrow> b < curr_data_block s)"

text \<open>What is in the arrays already stays there.\<close>

definition extends :: "mkfs \<Rightarrow> mkfs \<Rightarrow> bool" where
  "extends s s' \<longleftrightarrow> curr_inode s \<le> curr_inode s' \<and> curr_data_block s \<le> curr_data_block s' \<and>
     (\<forall>j < curr_inode s. mk_inodes s' ! j = mk_inodes s ! j) \<and>
     (\<forall>a < (curr_data_block s - 9) * 4096. data_blocks s' a = data_blocks s a)"

lemma extends_refl: "extends s s"
  by (simp add: extends_def)

lemma extends_trans: "extends s t \<Longrightarrow> extends t u \<Longrightarrow> extends s u"
proof -
  assume st: "extends s t" and tu: "extends t u"
  then have "(curr_data_block s - 9) * 4096 \<le> (curr_data_block t - 9) * 4096" by (auto simp: extends_def intro: diff_le_mono)
  then have "a < (curr_data_block s - 9) * 4096 \<Longrightarrow> a < (curr_data_block t - 9) * 4096" for a by linarith
  then show ?thesis using st tu unfolding extends_def by auto
qed

text \<open>A file system has the inodes and the data blocks of the tool's arrays, from inode \<open>i\<close> and block \<open>b\<close> on.\<close>

definition agrees :: "fsys \<Rightarrow> mkfs \<Rightarrow> nat \<Rightarrow> nat \<Rightarrow> bool" where
  "agrees fs s i b \<longleftrightarrow>
     (\<forall>j. i \<le> j \<longrightarrow> j < curr_inode s \<longrightarrow> j < length (inodes fs) \<and> inodes fs ! j = mk_inodes s ! j) \<and>
     (\<forall>a. (b - 9) * 4096 \<le> a \<longrightarrow> a < (curr_data_block s - 9) * 4096 \<longrightarrow> fsbytes fs (a + 36864) = data_blocks s a)"

lemma agrees_sub:
  assumes "agrees fs s' i b" "extends s s'" "i \<le> i'" "b \<le> b'"
  shows "agrees fs s i' b'"
proof -
  have "(b - 9) * 4096 \<le> (b' - 9) * 4096" "(curr_data_block s - 9) * 4096 \<le> (curr_data_block s' - 9) * 4096"
    using assms(2,4) by (auto simp: extends_def intro: diff_le_mono)
  then have "(b' - 9) * 4096 \<le> a \<Longrightarrow> (b - 9) * 4096 \<le> a"
    "a < (curr_data_block s - 9) * 4096 \<Longrightarrow> a < (curr_data_block s' - 9) * 4096" for a by linarith+
  then show ?thesis using assms(1-3) unfolding agrees_def extends_def by auto
qed

lemma put_block_ok:
  assumes "mkfs_ok s" "curr_data_block s < NUM_BLOCKS"
  obtains s' where "put_block bs s = Inr s'" "mkfs_ok s'" "extends s s'" "curr_data_block s' = curr_data_block s + 1"
    "curr_inode s' = curr_inode s" "mk_inodes s' = mk_inodes s"
    "\<forall>k < 4096. k < length bs \<longrightarrow> data_blocks s' ((curr_data_block s - 9) * 4096 + k) = bs ! k"
proof -
  let ?b = "curr_data_block s"
  let ?a = "(?b - 9) * 4096"
  let ?s = "s\<lparr>data_blocks := (\<lambda>j. if ?a \<le> j \<and> j < ?a + 4096 then (if j - ?a < length bs then bs ! (j - ?a) else 0) else data_blocks s j),
    curr_data_block := ?b + 1, bitmap := (bitmap s)(?b div 8 := bitmap s (?b div 8) OR push_bit (?b mod 8) 1)\<rparr>"
  have ge: "9 \<le> ?b" using assms(1) by (simp add: mkfs_ok_def)
  then have "put_block bs s = Inr ?s" using assms(2) by (simp add: put_block_def Let_def)
  moreover have "marked ?s b \<longleftrightarrow> b = ?b \<or> marked s b" for b
  proof (cases "b div 8 = ?b div 8")
    case True
    then have "b mod 8 = ?b mod 8 \<longleftrightarrow> b = ?b" by (metis div_mult_mod_eq)
    moreover have "?b mod 8 < 8" by simp
    ultimately show ?thesis using True by (auto simp: marked_def bit_or_iff bit_exp_iff push_bit_eq_mult simp flip: exp_eq_0_imp_not_bit)
  qed (auto simp: marked_def)
  then have "mkfs_ok ?s" using assms(1) by (auto simp: mkfs_ok_def less_Suc_eq)
  moreover have "extends s ?s" by (simp add: extends_def)
  ultimately show thesis by (rule that) simp_all
qed

section \<open>Files\<close>

lemma blocks_Suc: "0 < n \<Longrightarrow> (n + 4095) div 4096 = (n - 4096 + 4095) div 4096 + (1 :: nat)"
proof (cases "n \<le> 4096")
  case True
  moreover assume "0 < n"
  ultimately have "(n + 4095) div 4096 = 1" by (intro div_nat_eqI) simp_all
  with True show ?thesis by simp
next
  case False
  then obtain m where "n = m + 4096" by (metis le_add_diff_inverse2 nat_le_linear)
  then show ?thesis by (simp add: add.commute [of m])
qed

lemma file_loop_ok:
  assumes "mkfs_ok s" "length (iblocks x) = NDIRECT" "n = min (length bs) ((NDIRECT - idx) * 4096)"
    and "curr_data_block s + (n + 4095) div 4096 \<le> NUM_BLOCKS"
  shows "\<exists>es s'. file_loop bs idx size0 x s = Inr (x\<lparr>iblocks := es\<rparr>, size0 + of_nat n, s') \<and> mkfs_ok s' \<and> extends s s' \<and>
    curr_data_block s' = curr_data_block s + (n + 4095) div 4096 \<and> curr_inode s' = curr_inode s \<and> mk_inodes s' = mk_inodes s \<and>
    length es = NDIRECT \<and> (\<forall>k < idx. es ! k = iblocks x ! k) \<and> (\<forall>k < (n + 4095) div 4096. es ! (idx + k) = of_nat (curr_data_block s + k)) \<and>
    (\<forall>k < n. data_blocks s' ((curr_data_block s - 9) * 4096 + k) = bs ! k)"
  using assms
proof (induction bs idx size0 x s arbitrary: n rule: file_loop.induct)
  case (1 bs idx size0 x s)
  show ?case
  proof (cases "bs = [] \<or> idx \<ge> NDIRECT")
    case True
    then have "n = 0" using 1(4) by auto
    with True 1 show ?thesis by (subst file_loop.simps) (auto simp: extends_refl intro!: exI [of _ "iblocks x"] exI [of _ s])
  next
    case False
    let ?n = "min (length (drop 4096 bs)) ((NDIRECT - (idx + 1)) * 4096)"
    have n0: "0 < n" "?n = n - 4096" using False 1(4) by (auto simp: min_def)
    have n: "0 < n" "?n = n - 4096" "(n + 4095) div 4096 = (?n + 4095) div 4096 + 1" unfolding n0(2) using n0 blocks_Suc by simp_all
    obtain s1 where s1: "put_block (take 4096 bs) s = Inr s1" "mkfs_ok s1" "extends s s1" "curr_data_block s1 = curr_data_block s + 1"
      "curr_inode s1 = curr_inode s" "mk_inodes s1 = mk_inodes s"
      "\<forall>k < 4096. k < length (take 4096 bs) \<longrightarrow> data_blocks s1 ((curr_data_block s - 9) * 4096 + k) = take 4096 bs ! k"
    proof (rule put_block_ok [OF 1(2)])
      show "curr_data_block s < NUM_BLOCKS" using 1(5) n(3) by linarith
    qed
    let ?x = "x\<lparr>iblocks := (iblocks x)[idx := of_nat (curr_data_block s)]\<rparr>"
    have bl: "kset (iblocks x) idx (of_nat (curr_data_block s)) = Inr ((iblocks x)[idx := of_nat (curr_data_block s)])"
      using False 1(3) by simp
    have len: "length (take 4096 bs) + ?n = n \<or> ?n = 0" "length (take 4096 bs) \<le> 4096" "n \<le> 4096 \<Longrightarrow> length (take 4096 bs) = n"
      using False 1(4) by (auto simp: min_def)
    have tot: "(of_nat (length (take 4096 bs)) :: u32) + of_nat ?n = of_nat n"
      using len False 1(4) by (subst of_nat_add [symmetric], intro arg_cong [where f = of_nat]) (auto simp: min_def)
    obtain es s' where r: "file_loop (drop 4096 bs) (idx + 1) (size0 + of_nat (length (take 4096 bs))) ?x s1 =
        Inr (?x\<lparr>iblocks := es\<rparr>, size0 + of_nat (length (take 4096 bs)) + of_nat ?n, s')" "mkfs_ok s'" "extends s1 s'"
      "curr_data_block s' = curr_data_block s1 + (?n + 4095) div 4096" "curr_inode s' = curr_inode s1" "mk_inodes s' = mk_inodes s1"
      "length es = NDIRECT" "\<forall>k < idx + 1. es ! k = iblocks ?x ! k" "\<forall>k < (?n + 4095) div 4096. es ! (idx + 1 + k) = of_nat (curr_data_block s1 + k)"
      "\<forall>k < ?n. data_blocks s' ((curr_data_block s1 - 9) * 4096 + k) = drop 4096 bs ! k"
      using 1(1) [OF False s1(1) bl s1(2) _ refl] 1(3,5) s1(4) n(3) by auto
    have "file_loop bs idx size0 x s = Inr (x\<lparr>iblocks := es\<rparr>, size0 + of_nat n, s')"
      using False s1(1) bl r(1) tot by (subst file_loop.simps) (simp add: add.assoc)
    moreover have "es ! (idx + k) = of_nat (curr_data_block s + k)" if "k < (n + 4095) div 4096" for k
    proof (cases k)
      case 0
      then show ?thesis using r(8) False 1(3) by simp
    next
      case (Suc j)
      then have "j < (?n + 4095) div 4096" using that n(3) by simp
      then have "es ! (idx + 1 + j) = of_nat (curr_data_block s1 + j)" using r(9) by blast
      then show ?thesis using Suc s1(4) by simp
    qed
    moreover have "data_blocks s' ((curr_data_block s - 9) * 4096 + k) = bs ! k" if "k < n" for k
    proof -
      have b: "9 \<le> curr_data_block s" using 1(2) by (simp add: mkfs_ok_def)
      then have a1: "(curr_data_block s1 - 9) * 4096 = (curr_data_block s - 9) * 4096 + 4096" using s1(4) by simp
      show ?thesis
      proof (cases "k < 4096")
        case True
        then have "data_blocks s' ((curr_data_block s - 9) * 4096 + k) = data_blocks s1 ((curr_data_block s - 9) * 4096 + k)"
          using r(3) a1 by (simp add: extends_def)
        then show ?thesis using s1(7) True that 1(4) by simp
      next
        case ge: False
        then have "k - 4096 < ?n" using that n(2) by linarith
        then have "data_blocks s' ((curr_data_block s1 - 9) * 4096 + (k - 4096)) = drop 4096 bs ! (k - 4096)" using r(10) by blast
        moreover have "(curr_data_block s1 - 9) * 4096 + (k - 4096) = (curr_data_block s - 9) * 4096 + k" using ge a1 by linarith
        moreover have "drop 4096 bs ! (k - 4096) = bs ! k" using ge that 1(4) by simp
        ultimately show ?thesis by metis
      qed
    qed
    moreover have "\<forall>k < idx. es ! k = iblocks x ! k" using r(8) by simp
    ultimately show ?thesis using r(2-7) s1(3-6) n(3) extends_trans [OF s1(3) r(3)] by (intro exI [of _ es] exI [of _ s'] conjI) auto
  qed
qed

lemma get_filename_slash: "SLASH \<notin> set d \<Longrightarrow> get_filename (p @ SLASH # d) = d"
  unfolding get_filename_def by (simp, subst takeWhile_append2) auto

lemma kset_ok: "mkfs_ok s \<Longrightarrow> inode_ok x \<Longrightarrow> mkfs_ok (s\<lparr>mk_inodes := (mk_inodes s)[i := x]\<rparr>)"
  by (auto simp: mkfs_ok_def marked_def dest!: set_update_subset_insert [THEN subsetD])

lemma mkfs_ok_next [simp]: "mkfs_ok (s\<lparr>curr_inode := n\<rparr>) = mkfs_ok s"
  by (simp add: mkfs_ok_def marked_def)

text \<open>The tool's state with the parent of an inode set.\<close>

definition set_parent :: "nat \<Rightarrow> nat \<Rightarrow> mkfs \<Rightarrow> mkfs" where
  "set_parent i par s = s\<lparr>mk_inodes := (mk_inodes s)[i := (mk_inodes s ! i)\<lparr>iparent := of_nat par\<rparr>]\<rparr>"

lemma process_file_ok:
  assumes "mkfs_ok s" "curr_inode s < NUM_INODES" "n = min (length bs) 86016" "curr_data_block s + (n + 4095) div 4096 \<le> NUM_BLOCKS"
  shows "\<exists>s'. process_file name (Some bs) s = Inr (curr_inode s, s') \<and> mkfs_ok s' \<and> extends s s' \<and> curr_inode s' = curr_inode s + 1 \<and>
    curr_data_block s' = curr_data_block s + (n + 4095) div 4096 \<and> iparent (mk_inodes s' ! curr_inode s) = 0 \<and>
    (\<forall>fs par. agrees fs (set_parent (curr_inode s) par s') (curr_inode s) (curr_data_block s) \<longrightarrow>
       holds fs par (curr_inode s) (take (FILENAME_MAX_LEN - 1) (get_filename name)) (File (take 86016 bs)))"
proof -
  let ?x = "zero_inode\<lparr>iname := take (FILENAME_MAX_LEN - 1) (get_filename name), itype := FT_FILE, ivalid := 1, irefs := 0\<rparr>"
  let ?i = "curr_inode s" and ?b = "curr_data_block s" and ?q = "(n + 4095) div 4096"
  have x: "length (iblocks ?x) = NDIRECT" by (simp add: zero_inode_def)
  obtain es s1 where l: "file_loop bs 0 0 ?x s = Inr (?x\<lparr>iblocks := es\<rparr>, of_nat n, s1)" "mkfs_ok s1" "extends s s1"
    "curr_data_block s1 = ?b + ?q" "curr_inode s1 = ?i" "mk_inodes s1 = mk_inodes s" "length es = NDIRECT"
    "\<forall>k < ?q. es ! k = of_nat (?b + k)" "\<forall>k < n. data_blocks s1 ((?b - 9) * 4096 + k) = bs ! k"
    using file_loop_ok [OF assms(1) x, of n bs 0 0] assms(3,4) by auto
  let ?y = "?x\<lparr>iblocks := es, idata := of_nat n\<rparr>" and ?s = "s1\<lparr>mk_inodes := (mk_inodes s)[?i := ?x\<lparr>iblocks := es, idata := of_nat n\<rparr>], curr_inode := ?i + 1\<rparr>"
  have len: "?i < length (mk_inodes s)" using assms(1,2) by (simp add: mkfs_ok_def)
  then have "process_file name (Some bs) s = Inr (?i, ?s)" using l(1,5,6) by (simp add: process_file_def Let_def)
  moreover have ok: "inode_ok ?y" using l(7) by (simp add: inode_ok_def zero_inode_def)
  then have "mkfs_ok ?s" using kset_ok [OF l(2) ok, of ?i] l(6) by simp
  moreover have "extends s ?s" using l(3,5,6) by (simp add: extends_def)
  moreover have "holds fs par ?i (take (FILENAME_MAX_LEN - 1) (get_filename name)) (File (take 86016 bs))"
    if "agrees fs (set_parent ?i par ?s) ?i ?b" for fs par
  proof -
    let ?z = "?y\<lparr>iparent := of_nat par\<rparr>"
    have i: "?i < length (inodes fs)" "inodes fs ! ?i = ?z" using that len by (simp_all add: agrees_def set_parent_def)
    have n: "n \<le> 86016" "n < 4294967296" using assms(3) by simp_all
    have blk: "unat (es ! k) = ?b + k" if "k < ?q" for k
    proof -
      have "?b + k < 4294967296" using that assms(4) by linarith
      then show ?thesis using l(8) that by (simp flip: of_nat_add)
    qed
    have ge: "9 \<le> ?b" using assms(1) by (simp add: mkfs_ok_def)
    have "file_ok ?z"
      using l(7) n blk ge assms(4) unfolding file_ok_def by auto
    moreover have "file_byte fs ?z k = take 86016 bs ! k" if k: "k < length (take 86016 bs)" for k
    proof -
      have kn: "k < n" using k assms(3) by simp
      then have "file_addr ?z k = (?b + k div 4096) * 4096 + k mod 4096" using blk [of "k div 4096"] by (simp add: file_addr_def)
      also have "\<dots> = (?b - 9) * 4096 + k + 36864" using ge by (simp add: algebra_simps)
      finally have addr: "file_addr ?z k = (?b - 9) * 4096 + k + 36864" .
      have "n \<le> ?q * 4096" by simp
      then have "(?b - 9) * 4096 + k < (?b + ?q - 9) * 4096" using kn ge by simp
      then have "file_byte fs ?z k = data_blocks s1 ((?b - 9) * 4096 + k)"
        using \<open>agrees fs (set_parent ?i par ?s) ?i ?b\<close> l(4) by (simp only: file_byte_def addr agrees_def set_parent_def) simp
      then show ?thesis using l(9) kn k by simp
    qed
    ultimately show ?thesis using i n assms(3) by (simp add: Let_def)
  qed
  ultimately show ?thesis using l(4) len by (intro exI [of _ ?s] conjI) (simp_all add: zero_inode_def)
qed

section \<open>Directories\<close>

lemma process_entry_skips: "visible p n = None \<Longrightarrow> process_entry fs_dir p n s = Inr (0, s)"
proof (cases n)
  case (HDir d)
  moreover assume "visible p n = None"
  ultimately show ?thesis by (cases d) simp_all
qed (auto simp: process_file_def)

lemma set_parent_sel [simp]:
  "curr_inode (set_parent i par s) = curr_inode s" "curr_data_block (set_parent i par s) = curr_data_block s"
  by (simp_all add: set_parent_def)

lemma inode_ok_parent: "inode_ok x \<Longrightarrow> par < NUM_INODES \<Longrightarrow> inode_ok (x\<lparr>iparent := of_nat par\<rparr>)"
  by (simp add: inode_ok_def)

lemma set_parent_ok: "mkfs_ok s \<Longrightarrow> par < NUM_INODES \<Longrightarrow> i < NUM_INODES \<Longrightarrow> mkfs_ok (set_parent i par s)"
  unfolding set_parent_def by (intro kset_ok inode_ok_parent) (auto simp: mkfs_ok_def)

lemma add_dirent_ok:
  assumes "mkfs_ok s" "i < NUM_INODES" "unat (idata x) < length (iblocks x)"
  shows "add_dirent r i x s = Inr (x\<lparr>iblocks := (iblocks x)[unat (idata x) := of_nat i], idata := idata x + 1\<rparr>, set_parent i r s)"
  using assms by (simp add: add_dirent_def set_parent_def mkfs_ok_def)

text \<open>What building a tree from a state has done.\<close>

definition built :: "mkfs \<Rightarrow> mkfs \<Rightarrow> nat \<Rightarrow> nat \<Rightarrow> bool" where
  "built s s' ni nb \<longleftrightarrow> mkfs_ok s' \<and> extends s s' \<and> curr_inode s' = curr_inode s + ni \<and> curr_data_block s' = curr_data_block s + nb"

lemma built_set_parent:
  assumes "built s s' ni nb" "curr_inode s \<le> i" "i < NUM_INODES" "par < NUM_INODES"
  shows "built s (set_parent i par s') ni nb"
  using assms unfolding built_def by (auto simp: set_parent_ok) (auto simp: extends_def set_parent_def)

lemma built_trans: "built s t ni nb \<Longrightarrow> built t u mi mb \<Longrightarrow> built s u (ni + mi) (nb + mb)"
  unfolding built_def using extends_trans by auto

definition adds_entries :: "u8 list \<Rightarrow> u8 list \<Rightarrow> (u8 list \<times> hnode) list \<Rightarrow> bool" where
  "adds_entries fs_dir p es \<longleftrightarrow> (\<forall>s x r.
     let ts = visible_entries p es
     in mkfs_ok s \<longrightarrow> slim_entries ts \<longrightarrow> 0 < curr_inode s \<longrightarrow> r < NUM_INODES \<longrightarrow> curr_inode s + inode_counts ts \<le> NUM_INODES \<longrightarrow>
        curr_data_block s + block_counts ts \<le> NUM_BLOCKS \<longrightarrow> length (iblocks x) = NDIRECT \<longrightarrow> unat (idata x) + length ts \<le> NDIRECT \<longrightarrow>
        (\<exists>bs s'. dir_loop fs_dir p r es x s = Inr (x\<lparr>iblocks := bs, idata := idata x + of_nat (length ts)\<rparr>, s') \<and>
           built s s' (inode_counts ts) (block_counts ts) \<and> length bs = NDIRECT \<and> take (unat (idata x)) bs = take (unat (idata x)) (iblocks x) \<and>
           (\<forall>fs. agrees fs s' (curr_inode s) (curr_data_block s) \<longrightarrow> holds_all fs r (drop (unat (idata x)) bs) ts)))"

definition adds_tree :: "u8 list \<Rightarrow> u8 list \<Rightarrow> hnode \<Rightarrow> bool" where
  "adds_tree fs_dir p n \<longleftrightarrow> (\<forall>s t.
     visible p n = Some t \<longrightarrow> mkfs_ok s \<longrightarrow> slim t \<longrightarrow> curr_inode s + inode_count t \<le> NUM_INODES \<longrightarrow>
       curr_data_block s + block_count t \<le> NUM_BLOCKS \<longrightarrow>
       (\<exists>s'. process_entry fs_dir p n s = Inr (curr_inode s, s') \<and> built s s' (inode_count t) (block_count t) \<and>
          (\<forall>fs par. agrees fs (set_parent (curr_inode s) par s') (curr_inode s) (curr_data_block s) \<longrightarrow>
             holds fs par (curr_inode s) (take (FILENAME_MAX_LEN - 1) (get_filename p)) t)))"

lemma adds_entries_Cons:
  assumes "\<not> skipped p d" "visible (p @ SLASH # d) n = Some t" "adds_tree fs_dir (p @ SLASH # d) n" "adds_entries fs_dir p es"
  shows "adds_entries fs_dir p ((d, n) # es)"
  unfolding adds_entries_def Let_def
proof (intro allI impI, goal_cases)
  case (1 s x r)
  let ?ts = "visible_entries p es" and ?i = "curr_inode s" and ?b = "curr_data_block s"
  have ve: "visible_entries p ((d, n) # es) = (d, t) # ?ts" using assms(1,2) by simp
  note h = 1 [unfolded ve]
  obtain s1 where s1: "process_entry fs_dir (p @ SLASH # d) n s = Inr (?i, s1)" "built s s1 (inode_count t) (block_count t)"
    "\<forall>fs par. agrees fs (set_parent ?i par s1) ?i ?b \<longrightarrow> holds fs par ?i (take (FILENAME_MAX_LEN - 1) (get_filename (p @ SLASH # d))) t"
    using assms(2,3) h unfolding adds_tree_def by (auto simp: Let_def)
  have slash: "SLASH \<notin> set d" using h(2) by simp
  have pos: "0 < inode_count t" by (cases t) simp_all
  then have i: "?i < NUM_INODES" using h(5) by simp
  let ?s2 = "set_parent ?i r s1" and ?k = "unat (idata x)"
  let ?x = "x\<lparr>iblocks := (iblocks x)[?k := of_nat ?i], idata := idata x + 1\<rparr>"
  have k: "?k < NDIRECT" using h(8) by simp
  have k1: "unat (idata x + 1) = ?k + 1" using k by (simp add: unat_word_ariths)
  have b2: "built s ?s2 (inode_count t) (block_count t)" by (rule built_set_parent [OF s1(2) order_refl i h(4)])
  have ad: "add_dirent r ?i x s1 = Inr (?x, ?s2)" using s1(2) i k h(7) by (intro add_dirent_ok) (simp_all add: built_def)
  obtain bs s' where l: "dir_loop fs_dir p r es ?x ?s2 = Inr (?x\<lparr>iblocks := bs, idata := idata ?x + of_nat (length ?ts)\<rparr>, s')"
    "built ?s2 s' (inode_counts ?ts) (block_counts ?ts)" "length bs = NDIRECT" "take (?k + 1) bs = take (?k + 1) ((iblocks x)[?k := of_nat ?i])"
    "\<forall>fs. agrees fs s' (curr_inode ?s2) (curr_data_block ?s2) \<longrightarrow> holds_all fs r (drop (?k + 1) bs) ?ts"
  proof -
    have "mkfs_ok ?s2" "0 < curr_inode ?s2" "curr_inode ?s2 + inode_counts ?ts \<le> NUM_INODES" "curr_data_block ?s2 + block_counts ?ts \<le> NUM_BLOCKS"
      "length (iblocks ?x) = NDIRECT" "unat (idata ?x) + length ?ts \<le> NDIRECT" "slim_entries ?ts" "r < NUM_INODES"
      using b2 h k1 by (simp_all add: built_def)
    then show thesis
      using spec [OF spec [OF spec [OF assms(4) [unfolded adds_entries_def Let_def], of ?s2], of ?x], of r] that k1 by auto
  qed
  have nz: "?i \<noteq> 0" using h(3) by simp
  have "dir_loop fs_dir p r ((d, n) # es) x s = Inr (x\<lparr>iblocks := bs, idata := idata x + of_nat (length ((d, t) # ?ts))\<rparr>, s')"
    using assms(1) s1(1) nz ad l(1) by (simp add: add.assoc)
  moreover have "built s s' (inode_counts ((d, t) # ?ts)) (block_counts ((d, t) # ?ts))" using built_trans [OF b2 l(2)] by simp
  moreover have "take ?k bs = take ?k (iblocks x)" using arg_cong [OF l(4), of "take ?k"] by simp
  moreover have "holds_all fs r (drop ?k bs) ((d, t) # ?ts)" if a: "agrees fs s' ?i ?b" for fs
  proof -
    have e: "extends ?s2 s'" using l(2) by (simp add: built_def)
    have "bs ! ?k = take (?k + 1) bs ! ?k" by simp
    also have "\<dots> = of_nat ?i" unfolding l(4) using k h(7) by simp
    finally have hd: "drop ?k bs = of_nat ?i # drop (?k + 1) bs" using Cons_nth_drop_Suc [of ?k bs] k l(3) by simp
    have "holds fs r ?i (take (FILENAME_MAX_LEN - 1) d) t"
      using s1(3) agrees_sub [OF a e] get_filename_slash [OF slash, of p] by simp
    moreover have "holds_all fs r (drop (?k + 1) bs) ?ts"
      using l(5) agrees_sub [OF a extends_refl, of "curr_inode ?s2" "curr_data_block ?s2"] b2 by (simp add: built_def)
    ultimately show ?thesis using i by (simp add: hd)
  qed
  ultimately show ?case unfolding ve using l(3) by blast
qed

lemma adds_entries_skip:
  assumes "skipped p d \<or> visible (p @ SLASH # d) n = None" "adds_entries fs_dir p es"
  shows "adds_entries fs_dir p ((d, n) # es)"
proof -
  have "visible_entries p ((d, n) # es) = visible_entries p es" using assms(1) by (auto split: option.split)
  moreover have "dir_loop fs_dir p r ((d, n) # es) x s = dir_loop fs_dir p r es x s" for r x s
    using assms(1) process_entry_skips by auto
  ultimately show ?thesis using assms(2) unfolding adds_entries_def by metis
qed

text \<open>A directory, whatever the name it is given, once its entries are added.\<close>

lemma process_dir_ok:
  assumes "adds_entries fs_dir p es" "mkfs_ok s" "slim (Dir ts)" "ts = visible_entries p es"
    and "curr_inode s + inode_count (Dir ts) \<le> NUM_INODES" "curr_data_block s + block_count (Dir ts) \<le> NUM_BLOCKS"
  shows "\<exists>s'. process_dir fs_dir p (Some es) s = Inr (curr_inode s, s') \<and> built s s' (inode_count (Dir ts)) (block_count (Dir ts)) \<and>
    iparent (mk_inodes s' ! curr_inode s) = 0 \<and>
    (\<forall>fs par. agrees fs (set_parent (curr_inode s) par s') (curr_inode s) (curr_data_block s) \<longrightarrow>
       holds fs par (curr_inode s) (iname (dir_inode fs_dir p)) (Dir ts))"
proof -
  let ?i = "curr_inode s" and ?x = "dir_inode fs_dir p" and ?s0 = "s\<lparr>curr_inode := curr_inode s + 1\<rparr>"
  have x: "length (iblocks ?x) = NDIRECT" "idata ?x = 0" "itype ?x = FT_DIRECTORY" "iparent ?x = 0" by (simp_all add: dir_inode_def zero_inode_def)
  obtain bs s1 where l: "dir_loop fs_dir p ?i es ?x ?s0 = Inr (?x\<lparr>iblocks := bs, idata := of_nat (length ts)\<rparr>, s1)"
    "built ?s0 s1 (inode_counts ts) (block_counts ts)" "length bs = NDIRECT"
    "\<forall>fs. agrees fs s1 (?i + 1) (curr_data_block s) \<longrightarrow> holds_all fs ?i bs ts"
    using spec [OF spec [OF spec [OF assms(1) [unfolded adds_entries_def Let_def], of ?s0], of ?x], of ?i] assms(2-6) x by auto
  let ?y = "?x\<lparr>iblocks := bs, idata := of_nat (length ts)\<rparr>" and ?s = "s1\<lparr>mk_inodes := (mk_inodes s1)[?i := ?x\<lparr>iblocks := bs, idata := of_nat (length ts)\<rparr>]\<rparr>"
  have i: "?i < length (mk_inodes s1)" using l(2) assms(5) by (simp add: built_def mkfs_ok_def)
  then have "process_dir fs_dir p (Some es) s = Inr (?i, ?s)" using l(1) by simp
  moreover have "inode_ok ?y" using l(3) x by (simp add: inode_ok_def)
  then have "mkfs_ok ?s" using kset_ok l(2) by (simp add: built_def)
  then have "built s ?s (inode_count (Dir ts)) (block_count (Dir ts))" using l(2) by (auto simp: built_def extends_def)
  moreover have "holds fs par ?i (iname ?x) (Dir ts)" if a: "agrees fs (set_parent ?i par ?s) ?i (curr_data_block s)" for fs par
  proof -
    have "?i < curr_inode s1" using l(2) by (simp add: built_def)
    then have "?i < length (inodes fs)" "inodes fs ! ?i = ?y\<lparr>iparent := of_nat par\<rparr>" using a i by (simp_all add: agrees_def set_parent_def)
    moreover have "agrees fs s1 (?i + 1) (curr_data_block s)" using a by (simp add: agrees_def set_parent_def)
    then have "holds_all fs ?i bs ts" using l(4) by blast
    moreover have "length ts < 4294967296" using assms(3) by simp
    ultimately show ?thesis using x by (simp add: Let_def)
  qed
  ultimately show ?thesis using i x by (intro exI [of _ ?s] conjI) simp_all
qed

text \<open>Both at once, by induction on the host's tree.\<close>

lemma adds_ok:
  "length fs_dir < length p \<Longrightarrow> adds_tree fs_dir p n" "length fs_dir \<le> length q \<Longrightarrow> adds_entries fs_dir q es"
proof (induction p n and q es rule: visible_visible_entries.induct)
  case (1 p f)
  show ?case unfolding adds_tree_def
  proof (intro allI impI)
    fix s t assume h: "visible p (HFile f) = Some t" "mkfs_ok s" "slim t" "curr_inode s + inode_count t \<le> NUM_INODES" "curr_data_block s + block_count t \<le> NUM_BLOCKS"
    then obtain bs where f: "f = Some bs" "t = File (take 86016 bs)" by auto
    have "curr_inode s < NUM_INODES" "curr_data_block s + (min (length bs) 86016 + 4095) div 4096 \<le> NUM_BLOCKS" using h(4,5) f(2) by simp_all
    then show "\<exists>s'. process_entry fs_dir p (HFile f) s = Inr (curr_inode s, s') \<and> built s s' (inode_count t) (block_count t) \<and>
      (\<forall>fs par. agrees fs (set_parent (curr_inode s) par s') (curr_inode s) (curr_data_block s) \<longrightarrow>
         holds fs par (curr_inode s) (take (FILENAME_MAX_LEN - 1) (get_filename p)) t)"
      using process_file_ok [OF h(2) _ refl, of bs p] f by (auto simp: built_def)
  qed
next
  case (3 p es)
  have "p \<noteq> fs_dir" using 3(2) by auto
  then have nm: "iname (dir_inode fs_dir p) = take (FILENAME_MAX_LEN - 1) (get_filename p)" by (simp add: dir_inode_def)
  have "adds_entries fs_dir p es" using 3 by simp
  from process_dir_ok [OF this _ _ refl] show ?case unfolding adds_tree_def using nm by fastforce
next
  case (5 p)
  show ?case unfolding adds_entries_def by (auto simp: built_def extends_refl Let_def intro!: exI)
next
  case (6 p d n es)
  have es: "adds_entries fs_dir p es" using 6 by (cases "skipped p d"; cases "visible (p @ SLASH # d) n") auto
  show ?case
  proof (cases "skipped p d \<or> visible (p @ SLASH # d) n = None")
    case True
    then show ?thesis using es by (rule adds_entries_skip)
  next
    case False
    then obtain t where t: "visible (p @ SLASH # d) n = Some t" by auto
    then show ?thesis using 6 False es by (intro adds_entries_Cons [OF _ t]) auto
  qed
qed (simp_all add: adds_tree_def)

section \<open>Looking up what was built\<close>

fun find_node :: "ftree \<Rightarrow> u8 list list \<Rightarrow> ftree option" where
  "find_node t [] = Some t"
| "find_node (File bs) (c # cs) = None"
| "find_node (Dir es) (c # cs) = (case map_of es c of None \<Rightarrow> None | Some t \<Rightarrow> find_node t cs)"

fun names_ok :: "ftree \<Rightarrow> bool" and names_all_ok :: "(u8 list \<times> ftree) list \<Rightarrow> bool" where
  "names_ok (File bs) \<longleftrightarrow> True"
| "names_ok (Dir es) \<longleftrightarrow> names_all_ok es"
| "names_all_ok [] \<longleftrightarrow> True"
| "names_all_ok ((d, t) # es) \<longleftrightarrow> proper_name d \<and> names_ok t \<and> names_all_ok es"

lemma holds_valid: "holds fs par i nm t \<Longrightarrow> i < length (inodes fs) \<and> iname (inodes fs ! i) = nm"
  by (cases t) (simp_all add: Let_def)

lemma proper_take: "proper_name d \<Longrightarrow> take 27 d = d"
  by (simp add: proper_name_def)

lemma dir_search_holds:
  "holds_all fs par bs es \<Longrightarrow> names_all_ok es \<Longrightarrow> map_of es c = Some t \<Longrightarrow>
   \<exists>i. dir_search fs c (length es) bs = Inr (Some i) \<and> holds fs par i c t \<and> names_ok t \<and> proper_name c"
proof (induction es arbitrary: bs)
  case (Cons e es)
  obtain d u where e: "e = (d, u)" by (cases e)
  with Cons.prems obtain b bs' where b: "bs = b # bs'" "holds fs par (unat b) d u" "holds_all fs par bs' es" "proper_name d" "names_ok u" "names_all_ok es"
    by (cases bs) (auto simp: proper_take)
  note v = holds_valid [OF b(2)]
  show ?case
  proof (cases "d = c")
    case True
    then show ?thesis using e b v Cons.prems(3) by (auto simp: get_inode_at_idx_def)
  next
    case False
    then show ?thesis using e b v Cons.prems(3) Cons.IH [OF b(3,6)] by (simp add: get_inode_at_idx_def)
  qed
qed simp

lemma lookup_holds:
  "holds fs par i nm t \<Longrightarrow> names_ok t \<Longrightarrow> find_node t cs = Some u \<Longrightarrow> \<exists>j par' nm'. lookup fs (Some i) cs fe = Inr (Some j) \<and> holds fs par' j nm' u"
proof (induction t cs arbitrary: par i nm fe rule: find_node.induct)
  case (3 es c cs)
  then obtain t where t: "map_of es c = Some t" "find_node t cs = Some u" by (auto split: option.splits)
  let ?x = "inodes fs ! i"
  have x: "i < length (inodes fs)" "itype ?x = FT_DIRECTORY" "unat (idata ?x) = length es" "holds_all fs i (iblocks ?x) es"
    using 3(2) by (simp_all add: Let_def)
  obtain j where j: "dir_search fs c (length es) (iblocks ?x) = Inr (Some j)" "holds fs i j c t" "names_ok t" "proper_name c"
    using dir_search_holds [OF x(4) _ t(1)] 3(3) by auto
  have "follow_symlink fs i = Inr (Some i)" using x by (simp add: follow_symlink_def follow_symlink_loop.simps)
  then have "lookup_step fs i c fe = Inr (Some j)" using x j(1,4) by (simp add: lookup_step_def path_step_def proper_name_def)
  then show ?case using 3(1) [OF t(1) j(2,3) t(2), of False] by simp
qed auto

section \<open>The image\<close>

lemma mkfs_init_ok: "mkfs_ok mkfs_init" "curr_inode mkfs_init = 0" "curr_data_block mkfs_init = 9"
proof -
  have upt: "[0..<9] = [0, 1, 2, 3, 4, 5, 6, 7, 8 :: nat]" by (simp add: upt_rec)
  have "marked mkfs_init b \<longleftrightarrow> b < 9" for b
  proof -
    have bits: "k < 8 \<Longrightarrow> bit (255 :: u8) k" "bit (1 :: u8) k \<longleftrightarrow> k = 0" for k
      using bit_mask_iff [of 8 k, where 'a = "8 word"] by (auto simp: bit_1_iff mask_eq_exp_minus_1)
    have "bitmap mkfs_init = (\<lambda>_. 0)(0 := 255, 1 := 1)" unfolding mkfs_init_def upt by simp
    moreover have "b < 9 \<longleftrightarrow> b div 8 = 0 \<or> b div 8 = 1 \<and> b mod 8 = 0" by presburger
    moreover have "b mod 8 < 8" by simp
    ultimately show ?thesis using bits by (simp add: marked_def fun_upd_apply div_eq_0_iff del: mod_less_divisor)
  qed
  then show "mkfs_ok mkfs_init" by (simp add: mkfs_ok_def mkfs_init_def marked_def inode_ok_def zero_inode_def)
qed (simp_all add: mkfs_init_def)

text \<open>
  C5: the image. If the host's directory, without what is skipped, has at most 256 files and directories whose contents take at most 119 blocks, no directory
  with more than 21 entries, and names that fit, the tool ends with status 0 and an image that the kernel can use: its inodes are well-formed, exactly the blocks
  it uses are marked as used, and every path of the host's tree leads the kernel's lookup to an inode that holds what the host has there: a
  directory with as many entries, or a file whose bytes, read by the kernel, are the first 21 blocks of the host's file.
\<close>

theorem mkfs_image_correct:
  assumes "length argv = 3" "es = visible_entries (argv ! 1) host" "inode_count (Dir es) \<le> NUM_INODES" "block_count (Dir es) \<le> 119"
    and "slim (Dir es)" "names_ok (Dir es)"
  shows "\<exists>fs. mkfs_main argv (Some host) True = Inr (0, Some fs) \<and> fs_inv fs \<and>
    (\<forall>b < 32768. block_used fs b \<longleftrightarrow> b < 9 + block_count (Dir es)) \<and>
    (\<forall>path t. find_node (Dir es) (path_components path) = Some t \<longrightarrow>
      (\<exists>i. get_inode_by_path fs (Some 0) path = Inr (Some i) \<and>
        (case t of
           Dir ts \<Rightarrow> itype (inodes fs ! i) = FT_DIRECTORY \<and> unat (idata (inodes fs ! i)) = length ts
         | File bs \<Rightarrow> itype (inodes fs ! i) = FT_FILE \<and>
             fs_read_bytes i 0 (of_nat (length bs)) buf (fs, m) = Inr (of_nat (length bs), fs, upd_range m buf (length bs) (\<lambda>k. bs ! k)))))"
proof -
  let ?fs_dir = "argv ! 1"
  obtain s where s: "process_dir ?fs_dir ?fs_dir (Some host) mkfs_init = Inr (0, s)" "built mkfs_init s (inode_count (Dir es)) (block_count (Dir es))"
    "iparent (mk_inodes s ! 0) = 0" "\<forall>fs par. agrees fs (set_parent 0 par s) 0 9 \<longrightarrow> holds fs par 0 (iname (dir_inode ?fs_dir ?fs_dir)) (Dir es)"
    using process_dir_ok [OF adds_ok(2) [of ?fs_dir ?fs_dir host] mkfs_init_ok(1) assms(5,2)] assms(3,4) mkfs_init_ok(2,3) by auto
  let ?fs = "image_of s"
  have ok: "mkfs_ok s" "curr_data_block s = 9 + block_count (Dir es)" "curr_inode s = inode_count (Dir es)" using s(2) mkfs_init_ok by (simp_all add: built_def)
  have "set_parent 0 0 s = s" using s(3) by (simp add: set_parent_def) (metis inode.surjective inode.update_convs(3) list_update_id mkfs.surjective mkfs.update_convs(1))
  moreover have "agrees ?fs s 0 9" using ok assms(3,4) by (auto simp: agrees_def image_of_def mkfs_ok_def)
  ultimately have holds: "holds ?fs 0 0 (iname (dir_inode ?fs_dir ?fs_dir)) (Dir es)" using s(4) by metis
  have "mkfs_main argv (Some host) True = Inr (0, Some ?fs)" using assms(1) s(1) by (simp add: mkfs_main_def)
  moreover have "fs_inv ?fs" using ok(1) by (simp add: fs_inv_def image_of_def mkfs_ok_def)
  moreover have "block_used ?fs b \<longleftrightarrow> b < 9 + block_count (Dir es)" if "b < 32768" for b
    using that ok(1,2) by (simp add: block_used_def image_of_def mkfs_ok_def marked_def less_mult_imp_div_less)
  moreover have "\<exists>i. get_inode_by_path ?fs (Some 0) path = Inr (Some i) \<and>
        (case t of
           Dir ts \<Rightarrow> itype (inodes ?fs ! i) = FT_DIRECTORY \<and> unat (idata (inodes ?fs ! i)) = length ts
         | File bs \<Rightarrow> itype (inodes ?fs ! i) = FT_FILE \<and>
             fs_read_bytes i 0 (of_nat (length bs)) buf (?fs, m) = Inr (of_nat (length bs), ?fs, upd_range m buf (length bs) (\<lambda>k. bs ! k)))"
    if f: "find_node (Dir es) (path_components path) = Some t" for path t
  proof -
    obtain i par nm where i: "get_inode_by_path ?fs (Some 0) path = Inr (Some i)" "holds ?fs par i nm t"
      using lookup_holds [OF holds assms(6) f, of True] by (auto simp: get_inode_by_path_def helper_lookup)
    show ?thesis
    proof (cases t)
      case (File bs)
      let ?x = "inodes ?fs ! i"
      have x: "i < length (inodes ?fs)" "itype ?x = FT_FILE" "unat (idata ?x) = length bs" "file_ok ?x" "\<forall>k < length bs. file_byte ?fs ?x k = bs ! k"
        using i(2) File by (simp_all add: Let_def)
      have d: "idata ?x = of_nat (length bs)" "length bs < 4294967296" using x(3) u32_bound [of "idata ?x"] by (metis word_unat_eq_iff unat_of_nat32, metis)
      have "follow_symlink ?fs i = Inr (Some i)" using x by (simp add: follow_symlink_def follow_symlink_loop.simps)
      from fs_read_bytes_ok [OF this x(1,4), of 0 "of_nat (length bs)" buf m]
      have "fs_read_bytes i 0 (of_nat (length bs)) buf (?fs, m) = Inr (of_nat (length bs), ?fs, upd_range m buf (length bs) (\<lambda>k. bs ! k))"
        using d x(5) by (auto simp: Let_def umin_def intro!: upd_range_cong)
      then show ?thesis using i(1) x(2) File by auto
    next
      case (Dir ts)
      then show ?thesis using i by (auto simp: Let_def)
    qed
  qed
  ultimately show ?thesis by blast
qed

definition host_demo :: "(u8 list \<times> hnode) list" where
  "host_demo = [(bytes_of ''.'', HDir (Some [])), (bytes_of ''bin'', HDir (Some [(bytes_of ''sh'', HFile (Some [1, 2, 3]))])), (bytes_of ''pipe'', HOther)]"

lemma host_demo_tree:
  "visible_entries (bytes_of ''root'') host_demo = [(bytes_of ''bin'', Dir [(bytes_of ''sh'', File [1, 2, 3])])]"
  by (simp add: host_demo_def skipped_def bytes_of_def)

lemma host_demo_path: "path_components (bytes_of ''bin/sh'') = [bytes_of ''bin'', bytes_of ''sh'']"
proof -
  have "bytes_of ''bin/sh'' = bytes_of ''bin'' @ SLASH # bytes_of ''sh''" by (simp add: bytes_of_def)
  then show ?thesis by (simp only: path_components_append) (simp add: path_components_name bytes_of_def)
qed

theorem mkfs_image_correct_witness:
  "\<exists>fs i. mkfs_main [bytes_of ''mkfs'', bytes_of ''root'', bytes_of ''fs.img''] (Some host_demo) True = Inr (0, Some fs) \<and>
     get_inode_by_path fs (Some 0) (bytes_of ''bin/sh'') = Inr (Some i) \<and>
     fs_read_bytes i 0 3 0x80001000 (fs, \<lambda>_. 0) = Inr (3, fs, upd_range (\<lambda>_. 0) 0x80001000 3 (\<lambda>k. [1, 2, 3] ! k))"
proof -
  let ?es = "visible_entries (bytes_of ''root'') host_demo"
  have n: "find_node (Dir ?es) (path_components (bytes_of ''bin/sh'')) = Some (File [1, 2, 3])"
    by (simp add: host_demo_tree host_demo_path)
  obtain fs where fs: "mkfs_main [bytes_of ''mkfs'', bytes_of ''root'', bytes_of ''fs.img''] (Some host_demo) True = Inr (0, Some fs)"
    "\<forall>path t. find_node (Dir ?es) (path_components path) = Some t \<longrightarrow>
      (\<exists>i. get_inode_by_path fs (Some 0) path = Inr (Some i) \<and>
        (case t of
           Dir ts \<Rightarrow> itype (inodes fs ! i) = FT_DIRECTORY \<and> unat (idata (inodes fs ! i)) = length ts
         | File bs \<Rightarrow> itype (inodes fs ! i) = FT_FILE \<and>
             fs_read_bytes i 0 (of_nat (length bs)) 0x80001000 (fs, \<lambda>_. 0) =
               Inr (of_nat (length bs), fs, upd_range (\<lambda>_. 0) 0x80001000 (length bs) (\<lambda>k. bs ! k))))"
    using mkfs_image_correct [where argv = "[bytes_of ''mkfs'', bytes_of ''root'', bytes_of ''fs.img'']" and host = host_demo and buf = "0x80001000" and m = "\<lambda>_. 0", OF _ refl]
    by (simp add: host_demo_tree proper_name_def FS_ROOT_PATH_def) (auto simp: bytes_of_def)
  from fs(2) [rule_format, OF n] fs(1) show ?thesis by (auto simp: numeral_3_eq_3)
qed

section \<open>Whatever the tool writes\<close>

text \<open>The inode table as it is while the tool runs, whatever the host has.\<close>

definition inodes_ok :: "mkfs \<Rightarrow> bool" where
  "inodes_ok s \<longleftrightarrow> length (mk_inodes s) = NUM_INODES \<and> (\<forall>x \<in> set (mk_inodes s). inode_ok x)"

lemma inodes_ok_upd: "inodes_ok s \<Longrightarrow> inode_ok x \<Longrightarrow> inodes_ok (s\<lparr>mk_inodes := (mk_inodes s)[i := x]\<rparr>)"
  by (auto simp: inodes_ok_def dest!: set_update_subset_insert [THEN subsetD])

lemma inodes_ok_next [simp]: "inodes_ok (s\<lparr>curr_inode := n\<rparr>) = inodes_ok s"
  by (simp add: inodes_ok_def)

lemma put_block_post [kpost_rules]:
  "(\<And>s'. mk_inodes s' = mk_inodes s \<Longrightarrow> curr_inode s' = curr_inode s \<Longrightarrow> Q s') \<Longrightarrow> kpost (put_block bs s) Q"
  unfolding put_block_def Let_def by (intro kpost_rules) simp

lemma file_loop_post:
  "kpost (file_loop bs idx n x s) (\<lambda>(x', n', s'). mk_inodes s' = mk_inodes s \<and> curr_inode s' = curr_inode s \<and> (inode_ok x \<longrightarrow> inode_ok x'))"
proof (induction bs idx n x s rule: file_loop.induct)
  case (1 bs idx n x s)
  show ?case
  proof (cases "bs = [] \<or> idx \<ge> NDIRECT")
    case False
    have "kpost (put_block (take 4096 bs) s) (\<lambda>s'. kpost (kbind (kset (iblocks x) idx (of_nat (curr_data_block s))) (\<lambda>blocks.
        file_loop (drop 4096 bs) (idx + 1) (n + of_nat (length (take 4096 bs))) (x\<lparr>iblocks := blocks\<rparr>) s'))
        (\<lambda>(x', n', s'). mk_inodes s' = mk_inodes s \<and> curr_inode s' = curr_inode s \<and> (inode_ok x \<longrightarrow> inode_ok x')))" (is "kpost _ ?Q")
    proof (rule kpostI)
      fix s1 assume s1: "put_block (take 4096 bs) s = Inr s1"
      have "mk_inodes s1 = mk_inodes s \<and> curr_inode s1 = curr_inode s" by (rule kpostD [OF put_block_post s1]) simp
      then show "?Q s1"
        by (intro kpost_bind kpostI kpost_mono [OF 1 [OF False s1]]) (auto simp: inode_ok_length kres_simps)
    qed
    then show ?thesis using False by (subst file_loop.simps) (simp add: kpost_bind)
  qed (subst file_loop.simps, simp add: kpost_Inr)
qed

lemma process_file_post:
  assumes "inodes_ok s"
  shows "kpost (process_file name f s) (\<lambda>(i, s'). inodes_ok s' \<and> curr_inode s \<le> curr_inode s' \<and> (i = 0 \<or> curr_inode s \<le> i))"
  using assms unfolding process_file_def Let_def
  by (intro kpost_rules kpost_mono [OF file_loop_post])
    (auto simp: inode_ok_def zero_inode_def inodes_ok_def dest!: set_update_subset_insert [THEN subsetD] intro!: kpost_rules)

lemma add_dirent_post:
  assumes "inodes_ok s" "inode_ok x" "r < i"
  shows "kpost (add_dirent r i x s) (\<lambda>(x', s'). inodes_ok s' \<and> inode_ok x' \<and> curr_inode s' = curr_inode s)"
  unfolding add_dirent_def
proof (intro kpost_rules, goal_cases)
  case 1
  then have "i < NUM_INODES" "inode_ok (mk_inodes s ! i)" using assms(1) by (simp_all add: inodes_ok_def)
  then have "inodes_ok (s\<lparr>mk_inodes := (mk_inodes s)[i := (mk_inodes s ! i)\<lparr>iparent := of_nat r\<rparr>]\<rparr>)"
    using assms(1,3) by (intro inodes_ok_upd inode_ok_parent) simp_all
  then show ?case using assms(2) by (simp add: inode_ok_def)
qed

lemma dir_inode_ok: "inode_ok (dir_inode fs_dir name)"
  by (simp add: dir_inode_def inode_ok_def zero_inode_def)

lemma process_post:
  "inodes_ok s \<Longrightarrow> kpost (process_dir fs_dir name d s) (\<lambda>(i, s'). inodes_ok s' \<and> curr_inode s \<le> curr_inode s' \<and> (i = 0 \<or> curr_inode s \<le> i))"
  "inodes_ok s' \<Longrightarrow> kpost (process_entry fs_dir' path h s') (\<lambda>(i, s). inodes_ok s \<and> curr_inode s' \<le> curr_inode s \<and> (i = 0 \<or> curr_inode s' \<le> i))"
  "inodes_ok s'' \<Longrightarrow> inode_ok x \<Longrightarrow> r < curr_inode s'' \<Longrightarrow>
     kpost (dir_loop fs_dir'' name'' r es x s'') (\<lambda>(x', s). inodes_ok s \<and> inode_ok x' \<and> curr_inode s'' \<le> curr_inode s)"
proof (induction fs_dir name d s and fs_dir' path h s' and fs_dir'' name'' r es x s'' rule: process_dir_process_entry_dir_loop.induct)
  case (2 fs_dir name d s)
  have "kpost (dir_loop fs_dir name (curr_inode s) d (dir_inode fs_dir name) (s\<lparr>curr_inode := curr_inode s + 1\<rparr>))
    (\<lambda>(x', s'). inodes_ok s' \<and> inode_ok x' \<and> curr_inode s + 1 \<le> curr_inode s')" using 2(1) 2(2) dir_inode_ok by simp
  then show ?case
    by (auto intro!: kpost_bind kpost_rules inodes_ok_upd elim!: kpost_mono)
next
  case (7 fs_dir name r d_name node es x s)
  show ?case
  proof (cases "skipped name d_name")
    case True
    then show ?thesis using 7 by simp
  next
    case False
    let ?path = "name @ SLASH # d_name"
    have "kpost (process_entry fs_dir ?path node s) (\<lambda>(i, s1). kpost (if i = 0 then dir_loop fs_dir name r es x s1
      else kbind (add_dirent r i x s1) (\<lambda>(x, s). dir_loop fs_dir name r es x s)) (\<lambda>(x', s2). inodes_ok s2 \<and> inode_ok x' \<and> curr_inode s \<le> curr_inode s2))"
    proof (rule kpostI, clarify)
      fix i s1 assume e: "process_entry fs_dir ?path node s = Inr (i, s1)"
      from kpostD [OF 7(2) [OF False 7(5)] e] have s1: "inodes_ok s1" "curr_inode s \<le> curr_inode s1" "i = 0 \<or> curr_inode s \<le> i" by simp_all
      show "kpost (if i = 0 then dir_loop fs_dir name r es x s1
        else kbind (add_dirent r i x s1) (\<lambda>(x, s). dir_loop fs_dir name r es x s)) (\<lambda>(x', s2). inodes_ok s2 \<and> inode_ok x' \<and> curr_inode s \<le> curr_inode s2)"
      proof (intro kpost_rules)
        assume i: "i = 0"
        show "kpost (dir_loop fs_dir name r es x s1) (\<lambda>(x', s2). inodes_ok s2 \<and> inode_ok x' \<and> curr_inode s \<le> curr_inode s2)"
          using 7(3) [OF False e refl i s1(1) 7(6)] 7(7) s1(2) by (auto elim!: kpost_mono)
      next
        assume i: "i \<noteq> 0"
        have ad: "kpost (add_dirent r i x s1) (\<lambda>(x', s2). inodes_ok s2 \<and> inode_ok x' \<and> curr_inode s2 = curr_inode s1)"
          using s1 i 7(6,7) by (intro add_dirent_post) auto
        show "kpost (add_dirent r i x s1) (\<lambda>y. kpost (case y of (x, s) \<Rightarrow> dir_loop fs_dir name r es x s)
          (\<lambda>(x', s2). inodes_ok s2 \<and> inode_ok x' \<and> curr_inode s \<le> curr_inode s2))"
        proof (rule kpostI, clarify)
          fix x1 s2 assume a: "add_dirent r i x s1 = Inr (x1, s2)"
          from kpostD [OF ad a] have o: "inodes_ok s2" "inode_ok x1" "curr_inode s2 = curr_inode s1" by simp_all
          then show "kpost (dir_loop fs_dir name r es x1 s2) (\<lambda>(x', s2). inodes_ok s2 \<and> inode_ok x' \<and> curr_inode s \<le> curr_inode s2)"
            using 7(4) [OF False e refl i a refl o(1,2)] 7(7) s1(2) by (auto elim!: kpost_mono)
        qed
      qed
    qed
    then show ?thesis using False by (auto intro!: kpost_bind elim!: kpost_mono)
  qed
qed (simp_all add: kpost_Inr process_file_post)

lemma mkfs_main_inv:
  assumes "mkfs_main argv host w = Inr (c, Some fs)"
  shows "fs_inv fs"
proof -
  obtain i s where s: "process_dir (argv ! 1) (argv ! 1) host mkfs_init = Inr (i, s)" "fs = image_of s"
    using assms by (auto simp: mkfs_main_def kres_simps split: if_splits prod.splits)
  have "inodes_ok mkfs_init" using mkfs_init_ok(1) by (simp add: inodes_ok_def mkfs_ok_def)
  from kpostD [OF process_post(1) [OF this] s(1)] show ?thesis using s(2) by (simp add: inodes_ok_def fs_inv_def image_of_def)
qed

end
