(* ===== verification/Spec2Isabelle.thy ===== *)
theory Spec2Isabelle
  imports FsIO FsPrint AddrMap SysSpec Reach Editor Lisp Shell Programs Mkfs
begin

text \<open>
  A verification development for Foxtail, a small operating system for 32-bit x86 in C.

  \<^bold>\<open>The program.\<close> The boot loader enters \<^verbatim>\<open>kernel_main\<close> (\<^verbatim>\<open>kernel/src/main.c\<close>), which builds the map of free pages from the
  boot loader's memory map, sets up paging, descriptor tables, the keyboard controller and the interrupt table, and starts the first
  processes. From then on the kernel runs only in system calls (\<^verbatim>\<open>int 0x80\<close>), the timer interrupt, which calls the
  scheduler, the keyboard interrupt, which feeds the terminal, and faults, which end a process. Processes live in page tables of
  their own, made by \<^verbatim>\<open>exec_helper\<close> from an ELF file; files, directories and links are inodes of an image in memory that
  the host tool \<^verbatim>\<open>mkfs\<close> builds; pipes and the terminal are byte buffers that a reader may have to wait for. On top of the system calls are
  a user library (allocator, strings, \<^verbatim>\<open>printf\<close>), a shell, a line editor, a Lisp interpreter and small programs.

  \<^bold>\<open>How code is modelled.\<close> C integers are words of their width, signed operations are written as such, pointers into a table are indices, and
  memory that a claim looks into byte by byte is a function from 32-bit addresses to bytes. Fallible code returns \<open>kerr + 'a\<close>
  (\<open>Prelude\<close>): a panic, a null dereference, an access outside an array and an endless loop are error values, not assumptions.
  Loops are structural recursion or \<open>function\<close> with a measure; a loop that the code does not bound is a \<open>partial_function\<close> to
  \<open>option\<close>, so that not ending is the value \<open>None\<close>, or has fuel. State is passed explicitly; the kernel's is the record
  \<open>kernel\<close> of \<open>Kernel\<close>, one field per component.

  \<^bold>\<open>Theories and sources\<close> (paths under \<^verbatim>\<open>src/\<close>).
  \<^item> \<open>Prelude\<close>, \<open>KPost\<close>: words, memory ranges, results and their rewriting rules; postconditions of fallible code with one rule per
    construct and operation.
  \<^item> \<open>KString\<close>: \<^verbatim>\<open>kernel/src/kstring.c\<close>, \<^verbatim>\<open>util.c\<close>. \<open>Console\<close>: \<^verbatim>\<open>vga.c\<close>, \<^verbatim>\<open>kprintf.c\<close>; the cursor and
    what is written stay on the screen.
  \<^item> \<open>PgAlloc\<close>: \<^verbatim>\<open>pgalloc.c\<close>, with the locale \<open>page_allocator\<close> of what its callers rely on. \<open>Paging\<close>, \<open>AddrSpace\<close>,
    \<open>AddrMap\<close>: \<^verbatim>\<open>paging.c\<close>, \<^verbatim>\<open>sbrk_helper\<close> and \<^verbatim>\<open>cleanup_proc\<close>, specified against the processor's walk of the page tables.
  \<^item> \<open>FsModel\<close> (definitions), \<open>FsPath\<close>, \<open>FsIO\<close>, \<open>FsPrint\<close>, \<open>FsInv\<close>: \<^verbatim>\<open>fs.c\<close>, \<^verbatim>\<open>fs_defs.h\<close>: links and path lookup against the resolution of
    path components, reads and writes against the bytes of a file, the printers, and the invariant of the inode table. \<open>PathName\<close>: \<^verbatim>\<open>path_helper\<close>.
  \<^item> \<open>ByteSource\<close>, \<open>PipeBuf\<close>, \<open>Tty\<close>: pipes and terminal as two interpretations of the locale \<open>byte_source\<close>, the interface of the loop
    of \<^verbatim>\<open>sys_read\<close>; a pipe refines a queue, the cooked keyboard a line editor.
  \<^item> \<open>Proc\<close>, \<open>Kernel\<close>, \<open>Exec\<close>, \<open>Sched\<close>, \<open>SchedSpec\<close>: \<^verbatim>\<open>proc.c\<close>, \<^verbatim>\<open>exec.c\<close>, \<^verbatim>\<open>cleanup.c\<close>, timer and faults of \<^verbatim>\<open>interrupt.c\<close>: the scheduler
    is round robin, and each call brings a ready process closer.
  \<^item> \<open>SysFile\<close>, \<open>SysFs\<close>, \<open>SysProc\<close>: the 25 handlers and the dispatcher of \<^verbatim>\<open>syscall.c\<close>; \<open>TreeOps\<close> and \<open>SysSpec\<close> say what they
    do; \<open>SysStub\<close>: the user side in \<^verbatim>\<open>shared/syscall_defs.h\<close> and a pipe as a program uses it through the dispatcher.
  \<^item> \<open>Desc\<close>, \<open>Boot\<close>: \<^verbatim>\<open>gdt.c\<close>, the rest of \<^verbatim>\<open>interrupt.c\<close>, \<^verbatim>\<open>main.c\<close>. \<open>KInv\<close>, \<open>Reach\<close>: the kernel as a transition system
    \<open>kstep\<close> with an invariant of all reachable states (locale \<open>transition_system\<close>).
  \<^item> \<open>Malloc\<close>, \<open>UString\<close>, \<open>UPrintf\<close>: \<^verbatim>\<open>user/include\<close>: allocation is first fit and keeps apart what is in use; \<^verbatim>\<open>printf\<close> writes the expansion of its
    format. \<open>Editor\<close>, \<open>Shell\<close>, \<open>Lisp\<close>, \<open>Programs\<close>: \<^verbatim>\<open>user/src\<close>: an editing session is the same edits on a list of lines, a command line becomes
    the calls it stands for, values are printed and read back and expressions computed, and what \<^verbatim>\<open>cat\<close>, \<^verbatim>\<open>rev\<close>, \<^verbatim>\<open>mv\<close> and the others ask of the kernel.
  \<^item> \<open>Mkfs\<close>: \<^verbatim>\<open>mkfs/src/main.c\<close>: the kernel finds in the image what the host has. The theorem below joins the tool and the kernel.

  \<^bold>\<open>Bounds and fuel.\<close> The scheduler's loop has 512 turns, two rounds of its table of 256: after a round without a choice nothing changes any more, and
  \<open>SchedSpec\<close> proves that with no ready process no fuel gives a result. The search for a free page visits each of the 32768 entries of the map once; it
  returns exactly when a page is free. Links are followed ten times, as in the code. The Lisp reader and evaluator take the depth of the recursion as an
  argument; an answer with some depth is the answer with any greater one, and the theorems say which depth is enough. \<^verbatim>\<open>tree\<close> has fuel because
  directories may be cyclic.

  \<^bold>\<open>Arguments of the model.\<close> What is outside the sources is an argument: boot loader data, values read from I/O ports, addresses the
  linker chooses, the host's files for \<^verbatim>\<open>mkfs\<close>. The user programs that are about something else than memory take the answers of the kernel, and of
  the allocator where they test them, as arguments indexed by the calls made before.

  \<^bold>\<open>Not modelled.\<close> The assembly of \<^verbatim>\<open>multiboot.s\<close> and of the interrupt entries beyond the registers they save and restore, loading of segment
  registers and of the translation buffer, which have no state in the model; the demonstration programs \<^verbatim>\<open>open.c\<close>, \<^verbatim>\<open>pf.c\<close> and \<^verbatim>\<open>pipetest.c\<close>, which
  exercise system calls; build files. User memory is kept per process by virtual address, and a system call's user
  addresses are taken to be mapped.
\<close>

section \<open>The system as it is delivered\<close>

text \<open>
  C23: whatever the host's files and directories are, if \<^verbatim>\<open>mkfs\<close> writes an image, then the kernel that is linked with it and started
  satisfies its invariant in every state it can reach.
\<close>

theorem delivered_system_inv:
  assumes "mkfs_main argv host can_write = Inr (c, Some fs)" "kstep\<^sup>*\<^sup>* (power_on fs con v argbuf) k"
  shows "kernel_inv k"
  using assms(2) by (rule kernel_system.always) (use mkfs_main_inv [OF assms(1)] in \<open>auto simp: power_on_state_def\<close>)

theorem delivered_system_inv_witness:
  "\<exists>fs. mkfs_main [bytes_of ''mkfs'', bytes_of ''root'', bytes_of ''fs.img''] (Some []) True = Inr (0, Some fs) \<and>
     kernel_inv (set_cur_mem (\<lambda>_. 7) (power_on fs text_console (kvm sample_kernel) 0xC0120000))"
proof -
  obtain fs where fs: "mkfs_main [bytes_of ''mkfs'', bytes_of ''root'', bytes_of ''fs.img''] (Some []) True = Inr (0, Some fs)"
    using mkfs_init_ok by (simp add: mkfs_main_def mkfs_ok_def)
  from delivered_system_inv [OF this r_into_rtranclp [where r = kstep, OF kstep.user]] fs show ?thesis by blast
qed

end
